(* ===== verification/Lkb_Prelude.thy ===== *)
theory Lkb_Prelude
  imports Main "HOL-Library.Word"
begin

text \<open>
  Shared vocabulary of the development: kernel addresses, the kernel log, the faults a module
  can commit, the environment every module state extends, the C counting loop with an early
  return, and the generic lemmas about them.
\<close>

section \<open>Addresses, errors, the log\<close>

type_synonym addr = nat

abbreviation (input) NULL :: addr where
  "NULL \<equiv> 0"

text \<open>The error numbers the modules return, with the values of the Linux headers.\<close>

abbreviation (input) EINTR :: int where "EINTR \<equiv> 4"
abbreviation (input) EIO :: int where "EIO \<equiv> 5"
abbreviation (input) EAGAIN :: int where "EAGAIN \<equiv> 11"
abbreviation (input) EACCES :: int where "EACCES \<equiv> 13"
abbreviation (input) EBUSY :: int where "EBUSY \<equiv> 16"
abbreviation (input) ENODEV :: int where "ENODEV \<equiv> 19"
abbreviation (input) ENOTTY :: int where "ENOTTY \<equiv> 25"

text \<open>What an interrupt handler returns.\<close>

datatype irqreturn = IRQ_NONE | IRQ_HANDLED

datatype loglevel = KERN_ALERT | KERN_ERR | KERN_INFO | KERN_DEFAULT

datatype logarg = Num int | Str string

text \<open>
  A line of the kernel log: its level, its format string (without the trailing newline) and
  the arguments that fill the format.
\<close>

datatype logline = Line loglevel string "logarg list"

text \<open>
  What a module must not do. A fault is recorded in the state and the run goes on, so that
  \<open>faults s = []\<close> says that no step up to \<open>s\<close> was undefined behaviour.
\<close>

datatype fault =
    BadFree addr
  | UseAfterFree addr
  | OutOfBounds int
  | BadUnlock addr
  | SelfDeadlock addr
  | NullDeref
  | Uninitialised addr
  | UnloadedCode
  | BadCall

text \<open>
  The environment of a module: the state of the kernel it calls (an abstract type \<open>'k\<close>, since
  the kernel is not part of the repository), the log it has written and the faults so far.
  Every module's state extends this record with its own variables.
\<close>

record 'k env =
  kern :: 'k
  klog :: "logline list"
  faults :: "fault list"

definition printk :: "loglevel \<Rightarrow> string \<Rightarrow> logarg list \<Rightarrow> ('k, 'z) env_scheme \<Rightarrow> ('k, 'z) env_scheme" where
  "printk lvl fmt args s = s\<lparr>klog := klog s @ [Line lvl fmt args]\<rparr>"

abbreviation pr_info :: "string \<Rightarrow> logarg list \<Rightarrow> ('k, 'z) env_scheme \<Rightarrow> ('k, 'z) env_scheme" where
  "pr_info \<equiv> printk KERN_INFO"

definition fault :: "fault \<Rightarrow> ('k, 'z) env_scheme \<Rightarrow> ('k, 'z) env_scheme" where
  "fault f s = s\<lparr>faults := faults s @ [f]\<rparr>"

definition upd_kern :: "('k \<Rightarrow> 'k) \<Rightarrow> ('k, 'z) env_scheme \<Rightarrow> ('k, 'z) env_scheme" where
  "upd_kern f s = s\<lparr>kern := f (kern s)\<rparr>"

section \<open>Counting loops\<close>

text \<open>
  \<open>for (i = a; i < b; i++) body\<close> whose body may return from the function: \<open>Inl\<close> is the
  value returned early, \<open>Inr\<close> the state in which the next iteration starts. The index list
  is \<open>[a..<b]\<close>. A loop whose body never returns is \<open>fold body [a..<b]\<close>.
\<close>

fun c_for :: "nat list \<Rightarrow> (nat \<Rightarrow> 's \<Rightarrow> 'r + 's) \<Rightarrow> 's \<Rightarrow> 'r + 's" where
  "c_for [] body s = Inr s"
| "c_for (i # is) body s = (case body i s of Inl r \<Rightarrow> Inl r | Inr s' \<Rightarrow> c_for is body s')"

text \<open>Statements in sequence, each of which may return from the function.\<close>

fun c_seq :: "('s \<Rightarrow> 'r + 's) list \<Rightarrow> 's \<Rightarrow> 'r + 's" where
  "c_seq [] s = Inr s"
| "c_seq (f # fs) s = (case f s of Inl r \<Rightarrow> Inl r | Inr s' \<Rightarrow> c_seq fs s')"

section \<open>Automation\<close>

named_theorems env_defs \<open>definitions of the calls that only touch the environment\<close>
named_theorems api_defs \<open>definitions of the wrappers around kernel calls\<close>

declare printk_def [env_defs] fault_def [env_defs] upd_kern_def [env_defs]

lemma kern_printk [simp]: "kern (printk l f as s) = kern s"
  by (simp add: printk_def)

lemma faults_printk [simp]: "faults (printk l f as s) = faults s"
  by (simp add: printk_def)

lemma klog_printk [simp]: "klog (printk l f as s) = klog s @ [Line l f as]"
  by (simp add: printk_def)

lemma more_printk [simp]: "env.more (printk l f as s) = env.more s"
  by (simp add: printk_def)

lemma kern_fault [simp]: "kern (fault f s) = kern s"
  by (simp add: fault_def)

lemma klog_fault [simp]: "klog (fault f s) = klog s"
  by (simp add: fault_def)

lemma faults_fault [simp]: "faults (fault f s) = faults s @ [f]"
  by (simp add: fault_def)

lemma kern_upd_kern [simp]: "kern (upd_kern f s) = f (kern s)"
  by (simp add: upd_kern_def)

lemma klog_upd_kern [simp]: "klog (upd_kern f s) = klog s"
  by (simp add: upd_kern_def)

lemma faults_upd_kern [simp]: "faults (upd_kern f s) = faults s"
  by (simp add: upd_kern_def)

lemma more_upd_kern [simp]: "env.more (upd_kern f s) = env.more s"
  by (simp add: upd_kern_def)

lemma more_fault [simp]: "env.more (fault f s) = env.more s"
  by (simp add: fault_def)

subsection \<open>The loop rule\<close>

text \<open>
  An invariant \<open>P\<close> indexed by the loop counter, and what every early return satisfies: the
  Hoare rule of the counting loop. It is a total-correctness rule, the loop being a function.
\<close>

lemma c_for_from:
  assumes "P a s" and "a \<le> b"
    and "\<And>i s. a \<le> i \<Longrightarrow> i < b \<Longrightarrow> P i s \<Longrightarrow> (case body i s of Inl r \<Rightarrow> Q r | Inr s' \<Rightarrow> P (Suc i) s')"
  shows "case c_for [a..<b] body s of Inl r \<Rightarrow> Q r | Inr s' \<Rightarrow> P b s'"
  using assms(2,1,3)
proof (induction a arbitrary: s rule: inc_induct)
  case base
  then show ?case by simp
next
  case (step n)
  have step_case: "case body n s of Inl r \<Rightarrow> Q r | Inr s' \<Rightarrow> P (Suc n) s'"
    using step.hyps step.prems by auto
  show ?case
  proof (cases "body n s")
    case (Inl r)
    then show ?thesis using step_case step.hyps by (simp add: upt_conv_Cons)
  next
    case (Inr s')
    then have "P (Suc n) s'" using step_case by simp
    then have "case c_for [Suc n..<b] body s' of Inl r \<Rightarrow> Q r | Inr s' \<Rightarrow> P b s'"
      using step.IH step.prems(2) by simp
    then show ?thesis using Inr step.hyps by (simp add: upt_conv_Cons)
  qed
qed

lemma c_for_rule:
  assumes "P 0 s"
    and "\<And>i s. i < n \<Longrightarrow> P i s \<Longrightarrow> (case body i s of Inl r \<Rightarrow> Q r | Inr s' \<Rightarrow> P (Suc i) s')"
  shows "case c_for [0..<n] body s of Inl r \<Rightarrow> Q r | Inr s' \<Rightarrow> P n s'"
  by (rule c_for_from) (use assms in auto)

lemma fold_upt_inv:
  assumes "P 0 s" and "\<And>i s. i < n \<Longrightarrow> P i s \<Longrightarrow> P (Suc i) (body i s)"
  shows "P n (fold body [0..<n] s)"
  using assms by (induction n) auto

text \<open>A measure that decreases with every step forbids infinite executions.\<close>

lemma no_descent: "\<not> (\<forall>i. (g (Suc i) :: nat) < g i)"
  using wf_no_infinite_down_chainE [OF wf_less, of g] by auto

subsection \<open>Lists\<close>

lemma remove1_mid [simp]: "x \<notin> set as \<Longrightarrow> remove1 x (as @ x # bs) = as @ bs"
  by (simp add: remove1_append)

lemma split_unique:
  assumes "distinct zs" and "zs = xs @ n # ys" and "zs = us @ n # vs"
  shows "xs = us" and "ys = vs"
proof -
  have "n \<notin> set xs" "n \<notin> set ys" using assms(1) unfolding assms(2) by auto
  moreover have "xs @ n # ys = us @ n # vs" using assms(2,3) by simp
  ultimately show "xs = us" "ys = vs" by (simp_all add: append_Cons_eq_iff)
qed

lemma insert_union_Diff: "x \<notin> A \<Longrightarrow> x \<notin> B \<Longrightarrow> A \<union> insert x B - {x} = A \<union> B"
  by auto

lemma fold_max_ge: "x \<in> set xs \<Longrightarrow> x \<le> fold max xs (m::nat)" and fold_max_base: "m \<le> fold max xs (m::nat)"
  by (induction xs arbitrary: m) (auto simp: max_def, (meson le_trans nat_le_linear order.trans)+)

lemma set_upt_image_less: "f ` set [0..<n] = f ` {..<n}"
  by (simp add: atLeast0LessThan)

lemma image_lessThan_Suc: "f ` {..<Suc n} = insert (f n) (f ` {..<n})"
  by (simp add: lessThan_Suc)

end
