(* ===== verification/Basic.thy ===== *)
theory Basic
  imports Lkb_Prelude
begin

text \<open>
  The modules \<open>basic/code.c\<close> and \<open>basic_debug/code.c\<close>, which greet. They differ only in how they
  are built, so the second pair of definitions has the text of the first; a lemma says what a
  sequence of loads and unloads writes.
\<close>

section \<open>The modules\<close>

definition basic_km_init :: "('k, 'z) env_scheme \<Rightarrow> int \<times> ('k, 'z) env_scheme" where
  "basic_km_init s = (0, printk KERN_INFO ''Hello!'' [] s)"

definition basic_km_exit :: "('k, 'z) env_scheme \<Rightarrow> ('k, 'z) env_scheme" where
  "basic_km_exit s = printk KERN_INFO ''Goodbye'' [] s"

definition debug_km_init :: "('k, 'z) env_scheme \<Rightarrow> int \<times> ('k, 'z) env_scheme" where
  "debug_km_init s = (0, printk KERN_INFO ''Hello!'' [] s)"

definition debug_km_exit :: "('k, 'z) env_scheme \<Rightarrow> ('k, 'z) env_scheme" where
  "debug_km_exit s = printk KERN_INFO ''Goodbye'' [] s"

section \<open>Repeated loading\<close>

text \<open>One load and unload of a module, for its two functions.\<close>

definition load_unload ::
  "(('k, 'z) env_scheme \<Rightarrow> int \<times> ('k, 'z) env_scheme) \<Rightarrow> (('k, 'z) env_scheme \<Rightarrow> ('k, 'z) env_scheme) \<Rightarrow>
   ('k, 'z) env_scheme \<Rightarrow> ('k, 'z) env_scheme" where
  "load_unload init exit s = (let (r, s) = init s in if r = 0 then exit s else s)"

lemma basic_cycles:
  "klog ((load_unload basic_km_init basic_km_exit ^^ n) s) =
     klog s @ concat (replicate n [Line KERN_INFO ''Hello!'' [], Line KERN_INFO ''Goodbye'' []])"
proof (induction n arbitrary: s)
  case 0
  then show ?case by simp
next
  case (Suc n)
  have "klog (load_unload basic_km_init basic_km_exit s) = klog s @ [Line KERN_INFO ''Hello!'' [], Line KERN_INFO ''Goodbye'' []]"
    by (simp add: load_unload_def basic_km_init_def basic_km_exit_def)
  then show ?case by (simp add: funpow_Suc_right Suc.IH del: funpow.simps)
qed

lemma debug_basic_equivalent:
  "(load_unload debug_km_init debug_km_exit ^^ n) s = (load_unload basic_km_init basic_km_exit ^^ n) s"
proof -
  have "debug_km_init = (basic_km_init :: ('a, 'b) env_scheme \<Rightarrow> _)" "debug_km_exit = (basic_km_exit :: ('a, 'b) env_scheme \<Rightarrow> _)"
    by (simp_all add: fun_eq_iff debug_km_init_def debug_km_exit_def basic_km_init_def basic_km_exit_def)
  then show ?thesis by simp
qed

end
