(* ===== verification/Kernel_Api.thy ===== *)
theory Kernel_Api
  imports Lkb_Prelude
begin

text \<open>
  The kernel services the modules share. The kernel is not part of the repository: its
  functions are the fields of operation records, which the modules' definitions take as an
  argument, over an abstract kernel state \<open>'k\<close>. What the kernel documents about them is
  stated as the assumptions of locales, and what every client may conclude is proved inside.
  A theorem about a module has the locale as its hypothesis.
\<close>

section \<open>The slab allocator\<close>

text \<open>
  \<open>allocated\<close> observes the objects the allocator has handed out and not taken back;
  \<open>statics\<close> are the objects of the module image and of the running stack frame, whose
  lifetime is not the allocator's business. Neither is called by a module: they are there to
  tell a valid access from an invalid one.
\<close>

record 'k slab_ops =
  kmalloc_op :: "nat \<Rightarrow> 'k \<Rightarrow> addr \<times> 'k"
  kfree_op :: "addr \<Rightarrow> 'k \<Rightarrow> 'k"
  allocated :: "'k \<Rightarrow> addr set"
  statics :: "addr set"

definition valid :: "('k, 'y) slab_ops_scheme \<Rightarrow> 'k \<Rightarrow> addr set" where
  "valid K k = statics K \<union> allocated K k"

definition kmalloc :: "('k, 'y) slab_ops_scheme \<Rightarrow> nat \<Rightarrow> ('k, 'z) env_scheme \<Rightarrow> addr \<times> ('k, 'z) env_scheme" where
  "kmalloc K n s = (let (p, k) = kmalloc_op K n (kern s) in (p, s\<lparr>kern := k\<rparr>))"

text \<open>\<open>kfree(NULL)\<close> does nothing; to free what is not allocated is a fault.\<close>

definition kfree :: "('k, 'y) slab_ops_scheme \<Rightarrow> addr \<Rightarrow> ('k, 'z) env_scheme \<Rightarrow> ('k, 'z) env_scheme" where
  "kfree K p s =
     (if p = NULL then s
      else if p \<in> allocated K (kern s) then upd_kern (kfree_op K p) s
      else fault (BadFree p) s)"

text \<open>An access through a pointer: a fault when the object is not valid.\<close>

definition deref :: "('k, 'y) slab_ops_scheme \<Rightarrow> addr \<Rightarrow> ('k, 'z) env_scheme \<Rightarrow> ('k, 'z) env_scheme" where
  "deref K p s =
     (if p = NULL then fault NullDeref s
      else if p \<in> valid K (kern s) then s
      else fault (UseAfterFree p) s)"

section \<open>Linked lists\<close>

text \<open>
  The operations of \<open>linux/list.h\<close>. A structure is identified with the \<open>list_head\<close>
  embedded in it, since \<open>container_of\<close> and the address of the member are inverse to each
  other (see theory \<open>Container_Of\<close>). \<open>list_next_op\<close> reads the \<open>next\<close> pointer, which the
  iteration macros do.
\<close>

record 'k list_ops = "'k slab_ops" +
  INIT_LIST_HEAD_op :: "addr \<Rightarrow> 'k \<Rightarrow> 'k"
  list_add_op :: "addr \<Rightarrow> addr \<Rightarrow> 'k \<Rightarrow> 'k"
  list_add_tail_op :: "addr \<Rightarrow> addr \<Rightarrow> 'k \<Rightarrow> 'k"
  list_del_op :: "addr \<Rightarrow> 'k \<Rightarrow> 'k"
  list_next_op :: "addr \<Rightarrow> 'k \<Rightarrow> addr"

definition INIT_LIST_HEAD :: "('k, 'y) list_ops_scheme \<Rightarrow> addr \<Rightarrow> ('k, 'z) env_scheme \<Rightarrow> ('k, 'z) env_scheme" where
  "INIT_LIST_HEAD K h s = upd_kern (INIT_LIST_HEAD_op K h) (deref K h s)"

definition list_add :: "('k, 'y) list_ops_scheme \<Rightarrow> addr \<Rightarrow> addr \<Rightarrow> ('k, 'z) env_scheme \<Rightarrow> ('k, 'z) env_scheme" where
  "list_add K n h s = upd_kern (list_add_op K n h) (deref K n s)"

definition list_add_tail :: "('k, 'y) list_ops_scheme \<Rightarrow> addr \<Rightarrow> addr \<Rightarrow> ('k, 'z) env_scheme \<Rightarrow> ('k, 'z) env_scheme" where
  "list_add_tail K n h s = upd_kern (list_add_tail_op K n h) (deref K n s)"

definition list_del :: "('k, 'y) list_ops_scheme \<Rightarrow> addr \<Rightarrow> ('k, 'z) env_scheme \<Rightarrow> ('k, 'z) env_scheme" where
  "list_del K n s = upd_kern (list_del_op K n) (deref K n s)"

text \<open>
  \<open>list_for_each_entry(pos, head, member) body\<close>: the next pointer is read after the body
  has run, in the state the body left. On a corrupted ring the loop need not end, so it is a
  partial function: \<open>None\<close> is a loop that does not return.
\<close>

partial_function (option) list_walk ::
  "('k, 'y) list_ops_scheme \<Rightarrow> addr \<Rightarrow> (addr \<Rightarrow> ('k, 'z) env_scheme \<Rightarrow> ('k, 'z) env_scheme) \<Rightarrow>
   addr \<Rightarrow> ('k, 'z) env_scheme \<Rightarrow> ('k, 'z) env_scheme option" where
  "list_walk K h body pos s =
     (if pos = h then Some s
      else let s1 = deref K pos (body pos s)
           in list_walk K h body (list_next_op K pos (kern s1)) s1)"

definition list_for_each_entry ::
  "('k, 'y) list_ops_scheme \<Rightarrow> addr \<Rightarrow> (addr \<Rightarrow> ('k, 'z) env_scheme \<Rightarrow> ('k, 'z) env_scheme) \<Rightarrow>
   ('k, 'z) env_scheme \<Rightarrow> ('k, 'z) env_scheme option" where
  "list_for_each_entry K h body s = list_walk K h body (list_next_op K h (kern s)) s"

declare kmalloc_def [api_defs] kfree_def [api_defs] deref_def [api_defs]
declare INIT_LIST_HEAD_def [api_defs] list_add_def [api_defs] list_add_tail_def [api_defs]
declare list_del_def [api_defs] list_for_each_entry_def [api_defs]

section \<open>Frame lemmas of the wrappers\<close>

lemma deref_valid [simp]: "p \<in> valid K (kern s) \<Longrightarrow> p \<noteq> NULL \<Longrightarrow> deref K p s = s"
  by (simp add: deref_def)

lemma kern_deref [simp]: "kern (deref K p s) = kern s"
  by (simp add: deref_def)

lemma klog_deref [simp]: "klog (deref K p s) = klog s"
  by (simp add: deref_def)

lemma valid_allocated: "p \<in> allocated K k \<Longrightarrow> p \<in> valid K k"
  by (simp add: valid_def)

lemma kfree_NULL [simp]: "kfree K NULL s = s"
  by (simp add: kfree_def)

lemma kfree_allocated: "p \<in> allocated K (kern s) \<Longrightarrow> p \<noteq> NULL \<Longrightarrow> kfree K p s = upd_kern (kfree_op K p) s"
  by (simp add: kfree_def)

section \<open>What the allocator promises\<close>

locale slab_api =
  fixes K :: "('k, 'y) slab_ops_scheme"
  assumes null_invalid: "NULL \<notin> valid K k"
    and kmalloc_fresh: "kmalloc_op K n k = (p, k') \<Longrightarrow> p \<noteq> NULL \<Longrightarrow> p \<notin> valid K k"
    and kmalloc_allocated: "kmalloc_op K n k = (p, k') \<Longrightarrow> p \<noteq> NULL \<Longrightarrow>
      allocated K k' = insert p (allocated K k)"
    and kmalloc_failed: "kmalloc_op K n k = (NULL, k') \<Longrightarrow> allocated K k' = allocated K k"
    and kfree_releases: "p \<in> allocated K k \<Longrightarrow> allocated K (kfree_op K p k) = allocated K k - {p}"
    and statics_not_allocated: "p \<in> statics K \<Longrightarrow> p \<notin> allocated K k"
begin

lemma valid_nonnull: "p \<in> valid K k \<Longrightarrow> p \<noteq> NULL"
  using null_invalid by metis

lemma deref_id [simp]: "p \<in> valid K (kern s) \<Longrightarrow> deref K p s = s"
  using null_invalid by (cases "p = NULL") auto

lemma kfree_step: "p \<in> allocated K (kern s) \<Longrightarrow> kfree K p s = upd_kern (kfree_op K p) s"
  using null_invalid valid_allocated by (metis kfree_allocated)

text \<open>An allocation seen through the wrapper: a fresh object, or no change.\<close>

lemma kmalloc_cases:
  assumes "kmalloc K n s = (p, s')"
  obtains k where "p = NULL" "s' = s\<lparr>kern := k\<rparr>" "allocated K k = allocated K (kern s)"
      "kmalloc_op K n (kern s) = (NULL, k)"
  | k where "p \<noteq> NULL" "p \<notin> valid K (kern s)" "s' = s\<lparr>kern := k\<rparr>"
      "allocated K k = insert p (allocated K (kern s))" "kmalloc_op K n (kern s) = (p, k)"
proof -
  obtain k where k: "kmalloc_op K n (kern s) = (p, k)" and s': "s' = s\<lparr>kern := k\<rparr>"
    using assms by (auto simp: kmalloc_def split: prod.splits)
  show thesis
  proof (cases "p = NULL")
    case True
    then show thesis using that(1) k s' kmalloc_failed by blast
  next
    case False
    then show thesis using that(2) k s' kmalloc_fresh kmalloc_allocated by blast
  qed
qed

text \<open>Freeing a list of distinct allocated objects one after the other frees exactly those.\<close>

lemma kfree_all:
  assumes "distinct ps" and "set ps \<subseteq> allocated K (kern s)"
  shows "allocated K (kern (fold (kfree K) ps s)) = allocated K (kern s) - set ps"
    and "faults (fold (kfree K) ps s) = faults s"
    and "klog (fold (kfree K) ps s) = klog s"
    and "env.more (fold (kfree K) ps s) = env.more s"
proof -
  have "allocated K (kern (fold (kfree K) ps s)) = allocated K (kern s) - set ps \<and>
        faults (fold (kfree K) ps s) = faults s \<and> klog (fold (kfree K) ps s) = klog s \<and>
        env.more (fold (kfree K) ps s) = env.more s"
    using assms
  proof (induction ps arbitrary: s)
    case Nil
    then show ?case by simp
  next
    case (Cons p ps)
    then have step: "kfree K p s = upd_kern (kfree_op K p) s"
      and alloc: "allocated K (kfree_op K p (kern s)) = allocated K (kern s) - {p}"
      by (auto simp: kfree_step kfree_releases)
    have "set ps \<subseteq> allocated K (kern (kfree K p s))"
      using Cons.prems step alloc by auto
    then show ?case using Cons.IH [of "kfree K p s"] Cons.prems step alloc by auto
  qed
  then show "allocated K (kern (fold (kfree K) ps s)) = allocated K (kern s) - set ps"
    "faults (fold (kfree K) ps s) = faults s" "klog (fold (kfree K) ps s) = klog s"
    "env.more (fold (kfree K) ps s) = env.more s" by auto
qed

end

section \<open>What the list operations promise\<close>

text \<open>
  \<open>dlist k h xs\<close>: in kernel state \<open>k\<close> the head \<open>h\<close> begins a well-formed ring whose
  entries are \<open>xs\<close>, in the order in which \<open>list_for_each_entry\<close> visits them. The laws are
  the documented behaviour of \<open>linux/list.h\<close>: \<open>list_add\<close> inserts after the head,
  \<open>list_add_tail\<close> before it, \<open>list_del\<close> unlinks the entry; allocating memory, or freeing
  an object that is not part of the ring, leaves the ring alone.
\<close>

locale list_api = slab_api K for K :: "('k, 'y) list_ops_scheme" +
  fixes dlist :: "'k \<Rightarrow> addr \<Rightarrow> addr list \<Rightarrow> bool"
  assumes dlist_distinct: "dlist k h xs \<Longrightarrow> distinct (h # xs)"
    and dlist_init: "dlist (INIT_LIST_HEAD_op K h k) h []"
    and dlist_add: "dlist k h xs \<Longrightarrow> n \<notin> set (h # xs) \<Longrightarrow> dlist (list_add_op K n h k) h (n # xs)"
    and dlist_add_tail: "dlist k h xs \<Longrightarrow> n \<notin> set (h # xs) \<Longrightarrow> dlist (list_add_tail_op K n h k) h (xs @ [n])"
    and dlist_del: "dlist k h xs \<Longrightarrow> n \<in> set xs \<Longrightarrow> dlist (list_del_op K n k) h (remove1 n xs)"
    and dlist_next_head: "dlist k h xs \<Longrightarrow> list_next_op K h k = hd (xs @ [h])"
    and dlist_next: "dlist k h (as @ x # bs) \<Longrightarrow> list_next_op K x k = hd (bs @ [h])"
    and dlist_kmalloc: "dlist k h xs \<Longrightarrow> kmalloc_op K n k = (p, k') \<Longrightarrow> dlist k' h xs"
    and dlist_kfree: "dlist k h xs \<Longrightarrow> p \<notin> set (h # xs) \<Longrightarrow> dlist (kfree_op K p k) h xs"
    and next_kfree: "q \<noteq> p \<Longrightarrow> list_next_op K q (kfree_op K p k) = list_next_op K q k"
    and allocated_init [simp]: "allocated K (INIT_LIST_HEAD_op K h k) = allocated K k"
    and allocated_add [simp]: "allocated K (list_add_op K n h k) = allocated K k"
    and allocated_add_tail [simp]: "allocated K (list_add_tail_op K n h k) = allocated K k"
    and allocated_del [simp]: "allocated K (list_del_op K n k) = allocated K k"
begin

lemma valid_list_ops [simp]:
  "valid K (INIT_LIST_HEAD_op K h k) = valid K k"
  "valid K (list_add_op K n h k) = valid K k"
  "valid K (list_add_tail_op K n h k) = valid K k"
  "valid K (list_del_op K n k) = valid K k"
  by (simp_all add: valid_def)

text \<open>The operations on valid, unlinked nodes commit no fault and do what they promise.\<close>

lemma list_del_ok:
  "n \<in> valid K (kern s) \<Longrightarrow> list_del K n s = upd_kern (list_del_op K n) s"
  by (simp add: list_del_def)

lemma list_add_tail_ok:
  "n \<in> valid K (kern s) \<Longrightarrow> list_add_tail K n h s = upd_kern (list_add_tail_op K n h) s"
  by (simp add: list_add_tail_def)

lemma list_add_fold:
  assumes "set ns \<subseteq> valid K (kern s)"
  shows "fold (\<lambda>n. list_add K n h) ns s = upd_kern (fold (\<lambda>n. list_add_op K n h) ns) s"
    and "allocated K (fold (\<lambda>n. list_add_op K n h) ns (kern s)) = allocated K (kern s)"
proof -
  have "fold (\<lambda>n. list_add K n h) ns s = upd_kern (fold (\<lambda>n. list_add_op K n h) ns) s"
    using assms by (induction ns arbitrary: s) (auto simp: list_add_def upd_kern_def)
  moreover have "allocated K (fold (\<lambda>n. list_add_op K n h) ns k) = allocated K k" for k
    by (induction ns arbitrary: k) auto
  ultimately show "fold (\<lambda>n. list_add K n h) ns s = upd_kern (fold (\<lambda>n. list_add_op K n h) ns) s"
    "allocated K (fold (\<lambda>n. list_add_op K n h) ns (kern s)) = allocated K (kern s)" by auto
qed

text \<open>Pushing distinct new nodes one after the other puts them on the list in reverse order.\<close>

lemma dlist_push_all:
  assumes "dlist k h xs" and "distinct ns" and "set ns \<inter> set (h # xs) = {}"
  shows "dlist (fold (\<lambda>n. list_add_op K n h) ns k) h (rev ns @ xs)"
  using assms
proof (induction ns arbitrary: k xs)
  case Nil
  then show ?case by simp
next
  case (Cons n ns)
  then have "dlist (list_add_op K n h k) h (n # xs)" by (auto intro: dlist_add)
  then show ?case using Cons.IH [of _ "n # xs"] Cons.prems by auto
qed

text \<open>Freeing objects does not touch the next pointer of another one, nor a ring they are not in.\<close>

lemma next_kfree_all:
  assumes "q \<notin> set ps" and "distinct ps" and "set ps \<subseteq> allocated K (kern s)"
  shows "list_next_op K q (kern (fold (kfree K) ps s)) = list_next_op K q (kern s)"
  using assms
proof (induction ps arbitrary: s)
  case Nil
  then show ?case by simp
next
  case (Cons p ps)
  have "set ps \<subseteq> allocated K (kern (kfree K p s))"
    using Cons.prems by (auto simp: kfree_step kfree_releases)
  then show ?case using Cons by (simp add: kfree_step next_kfree)
qed

text \<open>
  The iteration over a well-formed ring of valid entries, with a body that leaves the kernel
  state alone, terminates and runs the body once per entry, in order.
\<close>

lemma list_walk_suffix:
  assumes "dlist (kern s) h (as @ bs)" and "set bs \<subseteq> valid K (kern s)"
    and "\<And>p s. kern (body p s) = kern s"
  shows "list_walk K h body (hd (bs @ [h])) s = Some (fold body bs s)"
  using assms(1,2)
proof (induction bs arbitrary: as s)
  case Nil
  then show ?case by (simp add: list_walk.simps)
next
  case (Cons b bs)
  have ne: "b \<noteq> h" using dlist_distinct [OF Cons.prems(1)] by auto
  have nxt: "list_next_op K b (kern (body b s)) = hd (bs @ [h])"
    using dlist_next Cons.prems(1) by (simp add: assms(3))
  have ok: "deref K b (body b s) = body b s"
    using Cons.prems(2) by (simp add: assms(3))
  have "list_walk K h body (hd (bs @ [h])) (body b s) = Some (fold body bs (body b s))"
    using Cons.IH [of "body b s" "as @ [b]"] Cons.prems by (simp add: assms(3))
  then show ?case
    by (subst list_walk.simps) (simp add: ne nxt ok Let_def)
qed

lemma for_each_entry:
  assumes "dlist (kern s) h xs" and "set xs \<subseteq> valid K (kern s)"
    and "\<And>p s. kern (body p s) = kern s"
  shows "list_for_each_entry K h body s = Some (fold body xs s)"
  using list_walk_suffix [of s h "[]" xs body] assms
  by (simp add: list_for_each_entry_def dlist_next_head)

text \<open>
  Iterations whose body acts on one entry only. The entries before and after it are passed
  over; the body may relink the ring as long as the forward pointer of its entry survives.
\<close>

lemma list_walk_skip:
  assumes "dlist (kern s) h (as @ bs @ cs)" and "set bs \<subseteq> valid K (kern s)"
    and "\<And>p. p \<in> set bs \<Longrightarrow> body p s = s"
  shows "list_walk K h body (hd (bs @ cs @ [h])) s = list_walk K h body (hd (cs @ [h])) s"
  using assms
proof (induction bs arbitrary: as)
  case Nil
  then show ?case by simp
next
  case (Cons b bs)
  have ne: "b \<noteq> h" using dlist_distinct [OF Cons.prems(1)] by auto
  have nxt: "list_next_op K b (kern s) = hd (bs @ cs @ [h])"
    using dlist_next [of "kern s" h as b "bs @ cs"] Cons.prems(1) by simp
  have "list_walk K h body (hd (bs @ cs @ [h])) s = list_walk K h body (hd (cs @ [h])) s"
    using Cons.IH [of "as @ [b]"] Cons.prems by simp
  then show ?case
    using Cons.prems by (subst list_walk.simps) (simp add: ne nxt)
qed

lemma for_each_entry_one:
  assumes "dlist (kern s) h (as @ x # bs)" and "set (as @ x # bs) \<subseteq> valid K (kern s)"
    and pass: "\<And>p. p \<in> set as \<Longrightarrow> body p s = s" and act: "body x s = s'"
    and nxt: "list_next_op K x (kern s') = list_next_op K x (kern s)"
    and "dlist (kern s') h (as' @ bs)" and "set (x # bs) \<subseteq> valid K (kern s')"
    and "\<And>p. p \<in> set bs \<Longrightarrow> body p s' = s'"
  shows "list_for_each_entry K h body s = Some s'"
proof -
  have "list_for_each_entry K h body s = list_walk K h body x s"
    using list_walk_skip [of s h "[]" as "x # bs" body] assms(1,2) pass
    by (simp add: list_for_each_entry_def dlist_next_head)
  also have "\<dots> = list_walk K h body (hd (bs @ [h])) s'"
    using dlist_distinct [OF assms(1)] dlist_next [OF assms(1)] assms(7) nxt act
    by (subst list_walk.simps) simp
  also have "\<dots> = Some s'"
    using list_walk_skip [of s' h as' bs "[]" body] assms(6-8) by (simp add: list_walk.simps)
  finally show ?thesis .
qed

text \<open>
  The general rule: an invariant of the entries that are still to be visited, under which the
  body leaves its entry accessible and linked to the next one.
\<close>

lemma list_walk_fold:
  assumes step: "\<And>b bs s. I (b # bs) s \<Longrightarrow> b \<noteq> h \<and> b \<in> valid K (kern (body b s)) \<and>
      list_next_op K b (kern (body b s)) = hd (bs @ [h]) \<and> I bs (body b s)"
    and "I bs s"
  shows "list_walk K h body (hd (bs @ [h])) s = Some (fold body bs s)"
  using assms(2)
proof (induction bs arbitrary: s)
  case Nil
  then show ?case by (simp add: list_walk.simps)
next
  case (Cons b bs)
  note b = step [OF Cons.prems]
  then show ?case using Cons.IH [of "body b s"] by (subst list_walk.simps) simp
qed

text \<open>An iteration that only logs: one line per entry, in order, and nothing else changes.\<close>

lemma for_each_entry_log:
  assumes "dlist (kern s) h xs" and "set xs \<subseteq> valid K (kern s)"
    and body: "\<And>p s. p \<in> valid K (kern s) \<Longrightarrow> body p s = printk lvl fmt (args p s) s"
    and "\<And>p s. kern (body p s) = kern s"
    and args: "\<And>p s ls. args p (s\<lparr>klog := ls\<rparr>) = args p s"
  shows "list_for_each_entry K h body s =
    Some (s\<lparr>klog := klog s @ map (\<lambda>p. Line lvl fmt (args p s)) xs\<rparr>)"
proof -
  have "fold body xs s = s\<lparr>klog := klog s @ map (\<lambda>p. Line lvl fmt (args p s)) xs\<rparr>"
    using assms(2)
  proof (induction xs arbitrary: s)
    case Nil
    then show ?case by simp
  next
    case (Cons x xs)
    then show ?case by (simp add: body args printk_def)
  qed
  then show ?thesis using for_each_entry [OF assms(1,2,4)] by simp
qed

end

section \<open>RCU lists\<close>

text \<open>
  The operations of \<open>linux/rculist.h\<close>. What distinguishes them from the plain operations is
  what they promise to a reader that stands on the entry: the forward pointer of an entry that
  has been replaced or deleted stays as it was, so that a traversal can go on.
\<close>

record 'k rcu_list_ops = "'k list_ops" +
  list_add_rcu_op :: "addr \<Rightarrow> addr \<Rightarrow> 'k \<Rightarrow> 'k"
  list_replace_rcu_op :: "addr \<Rightarrow> addr \<Rightarrow> 'k \<Rightarrow> 'k"
  list_del_rcu_op :: "addr \<Rightarrow> 'k \<Rightarrow> 'k"

definition list_add_rcu :: "('k, 'y) rcu_list_ops_scheme \<Rightarrow> addr \<Rightarrow> addr \<Rightarrow> ('k, 'z) env_scheme \<Rightarrow> ('k, 'z) env_scheme" where
  "list_add_rcu K n h s = upd_kern (list_add_rcu_op K n h) (deref K n s)"

definition list_replace_rcu :: "('k, 'y) rcu_list_ops_scheme \<Rightarrow> addr \<Rightarrow> addr \<Rightarrow> ('k, 'z) env_scheme \<Rightarrow> ('k, 'z) env_scheme" where
  "list_replace_rcu K old new s = upd_kern (list_replace_rcu_op K old new) (deref K new (deref K old s))"

definition list_del_rcu :: "('k, 'y) rcu_list_ops_scheme \<Rightarrow> addr \<Rightarrow> ('k, 'z) env_scheme \<Rightarrow> ('k, 'z) env_scheme" where
  "list_del_rcu K n s = upd_kern (list_del_rcu_op K n) (deref K n s)"

declare list_add_rcu_def [api_defs] list_replace_rcu_def [api_defs] list_del_rcu_def [api_defs]

locale rcu_list_api = list_api K dlist
  for K :: "('k, 'y) rcu_list_ops_scheme" and dlist :: "'k \<Rightarrow> addr \<Rightarrow> addr list \<Rightarrow> bool" +
  assumes dlist_add_rcu: "dlist k h xs \<Longrightarrow> n \<notin> set (h # xs) \<Longrightarrow> dlist (list_add_rcu_op K n h k) h (n # xs)"
    and dlist_replace_rcu: "dlist k h (as @ x # bs) \<Longrightarrow> n \<notin> set (h # as @ x # bs) \<Longrightarrow>
      dlist (list_replace_rcu_op K x n k) h (as @ n # bs)"
    and next_replaced: "dlist k h (as @ x # bs) \<Longrightarrow> n \<notin> set (h # as @ x # bs) \<Longrightarrow>
      list_next_op K x (list_replace_rcu_op K x n k) = list_next_op K x k"
    and dlist_del_rcu: "dlist k h (as @ x # bs) \<Longrightarrow> dlist (list_del_rcu_op K x k) h (as @ bs)"
    and next_deleted: "dlist k h (as @ x # bs) \<Longrightarrow>
      list_next_op K x (list_del_rcu_op K x k) = list_next_op K x k"
    and allocated_add_rcu [simp]: "allocated K (list_add_rcu_op K n h k) = allocated K k"
    and allocated_replace_rcu [simp]: "allocated K (list_replace_rcu_op K x n k) = allocated K k"
    and allocated_del_rcu [simp]: "allocated K (list_del_rcu_op K x k) = allocated K k"
begin

lemma valid_rcu_ops [simp]:
  "valid K (list_add_rcu_op K n h k) = valid K k"
  "valid K (list_replace_rcu_op K x n k) = valid K k"
  "valid K (list_del_rcu_op K x k) = valid K k"
  by (simp_all add: valid_def)

end

end
