(* ===== verification/Lock_Api.thy ===== *)
theory Lock_Api
  imports Kernel_Api
begin

text \<open>
  Spinlocks as the modules use them: the operation record, the wrappers that record a misuse
  as a fault, and the laws of the kernel's spinlocks on a machine with several processors
  (on a single processor the lock word is compiled away).
\<close>

section \<open>Operations\<close>

text \<open>\<open>held\<close> observes the locks that are taken.\<close>

record 'k lock_ops =
  spin_lock_init_op :: "addr \<Rightarrow> 'k \<Rightarrow> 'k"
  spin_lock_op :: "addr \<Rightarrow> 'k \<Rightarrow> 'k"
  spin_unlock_op :: "addr \<Rightarrow> 'k \<Rightarrow> 'k"
  spin_is_locked_op :: "addr \<Rightarrow> 'k \<Rightarrow> int"
  spin_trylock_op :: "addr \<Rightarrow> 'k \<Rightarrow> int \<times> 'k"
  held :: "'k \<Rightarrow> addr set"

definition spin_lock_init :: "('k, 'y) lock_ops_scheme \<Rightarrow> addr \<Rightarrow> ('k, 'z) env_scheme \<Rightarrow> ('k, 'z) env_scheme" where
  "spin_lock_init L l s = upd_kern (spin_lock_init_op L l) s"

text \<open>
  A context that takes a spinlock it holds spins for ever, which is a fault of the module; so
  is the release of a lock that is not held.
\<close>

definition spin_lock :: "('k, 'y) lock_ops_scheme \<Rightarrow> addr \<Rightarrow> ('k, 'z) env_scheme \<Rightarrow> ('k, 'z) env_scheme" where
  "spin_lock L l s =
     (if l \<in> held L (kern s) then fault (SelfDeadlock l) s else upd_kern (spin_lock_op L l) s)"

definition spin_unlock :: "('k, 'y) lock_ops_scheme \<Rightarrow> addr \<Rightarrow> ('k, 'z) env_scheme \<Rightarrow> ('k, 'z) env_scheme" where
  "spin_unlock L l s =
     (if l \<in> held L (kern s) then upd_kern (spin_unlock_op L l) s else fault (BadUnlock l) s)"

definition spin_trylock :: "('k, 'y) lock_ops_scheme \<Rightarrow> addr \<Rightarrow> ('k, 'z) env_scheme \<Rightarrow> int \<times> ('k, 'z) env_scheme" where
  "spin_trylock L l s = (let (r, k) = spin_trylock_op L l (kern s) in (r, s\<lparr>kern := k\<rparr>))"

declare spin_lock_init_def [api_defs] spin_lock_def [api_defs] spin_unlock_def [api_defs]
declare spin_trylock_def [api_defs]

section \<open>What the locks promise\<close>

locale lock_api =
  fixes L :: "('k, 'y) lock_ops_scheme"
  assumes held_init: "held L (spin_lock_init_op L l k) = held L k - {l}"
    and held_lock: "l \<notin> held L k \<Longrightarrow> held L (spin_lock_op L l k) = insert l (held L k)"
    and held_unlock: "l \<in> held L k \<Longrightarrow> held L (spin_unlock_op L l k) = held L k - {l}"
    and is_locked_iff: "spin_is_locked_op L l k \<noteq> 0 \<longleftrightarrow> l \<in> held L k"
    and trylock_held: "l \<in> held L k \<Longrightarrow> spin_trylock_op L l k = (r, k') \<Longrightarrow> r = 0 \<and> held L k' = held L k"
    and trylock_free: "l \<notin> held L k \<Longrightarrow> spin_trylock_op L l k = (r, k') \<Longrightarrow>
      r \<noteq> 0 \<and> held L k' = insert l (held L k)"
begin

lemma spin_lock_free: "l \<notin> held L (kern s) \<Longrightarrow> spin_lock L l s = upd_kern (spin_lock_op L l) s"
  by (simp add: spin_lock_def)

lemma spin_unlock_held: "l \<in> held L (kern s) \<Longrightarrow> spin_unlock L l s = upd_kern (spin_unlock_op L l) s"
  by (simp add: spin_unlock_def)

text \<open>A critical section that keeps the set of locks is balanced.\<close>

lemma critical_section:
  assumes "l \<notin> held L (kern s)"
    and "held L (kern (body (spin_lock L l s))) = held L (kern (spin_lock L l s))"
  shows "held L (kern (spin_unlock L l (body (spin_lock L l s)))) = held L (kern s)"
    and "faults (spin_unlock L l (body (spin_lock L l s))) = faults (body (spin_lock L l s))"
  using assms by (auto simp: spin_lock_free spin_unlock_held held_lock held_unlock)

end

section \<open>Locks beside lists\<close>

text \<open>
  The lock operations do not touch the allocator or the lists, nor these the locks: the frame
  laws of a kernel that offers both over one state.
\<close>

locale locked_list_api = list_api K dlist + lock_api L
  for K :: "('k, 'y) list_ops_scheme" and dlist :: "'k \<Rightarrow> addr \<Rightarrow> addr list \<Rightarrow> bool"
    and L :: "('k, 'w) lock_ops_scheme" +
  assumes dlist_spin_init: "dlist k h xs \<Longrightarrow> dlist (spin_lock_init_op L l k) h xs"
    and dlist_spin_lock: "dlist k h xs \<Longrightarrow> dlist (spin_lock_op L l k) h xs"
    and dlist_spin_unlock: "dlist k h xs \<Longrightarrow> dlist (spin_unlock_op L l k) h xs"
    and allocated_spin_init [simp]: "allocated K (spin_lock_init_op L l k) = allocated K k"
    and allocated_spin_lock [simp]: "allocated K (spin_lock_op L l k) = allocated K k"
    and allocated_spin_unlock [simp]: "allocated K (spin_unlock_op L l k) = allocated K k"
    and next_spin_lock: "list_next_op K p (spin_lock_op L l k) = list_next_op K p k"
    and next_spin_unlock: "list_next_op K p (spin_unlock_op L l k) = list_next_op K p k"
    and held_kmalloc: "kmalloc_op K n k = (p, k') \<Longrightarrow> held L k' = held L k"
    and held_kfree: "held L (kfree_op K p k) = held L k"
    and held_list_add: "held L (list_add_op K n h k) = held L k"
    and held_list_del: "held L (list_del_op K n k) = held L k"
begin

lemma valid_spin_ops [simp]:
  "valid K (spin_lock_init_op L l k) = valid K k"
  "valid K (spin_lock_op L l k) = valid K k"
  "valid K (spin_unlock_op L l k) = valid K k"
  by (simp_all add: valid_def)

end

locale locked_rcu_api = rcu_list_api K dlist + locked_list_api K dlist L
  for K :: "('k, 'y) rcu_list_ops_scheme" and dlist :: "'k \<Rightarrow> addr \<Rightarrow> addr list \<Rightarrow> bool"
    and L :: "('k, 'w) lock_ops_scheme" +
  assumes held_add_rcu: "held L (list_add_rcu_op K n h k) = held L k"
    and held_replace_rcu: "held L (list_replace_rcu_op K x n k) = held L k"
    and held_del_rcu: "held L (list_del_rcu_op K n k) = held L k"

end
