(* ===== verification/Thread_Api.thy ===== *)
theory Thread_Api
  imports Kernel_Api
begin

text \<open>
  Kernel threads as the modules use them: creation in the stopped state, waking, and the blocking
  stop, with the laws the kernel documents in \<open>linux/kthread.h\<close>.
\<close>

section \<open>Thread functions\<close>

text \<open>
  A thread function sees the kernel through the answers of its successive calls of
  \<open>kthread_should_stop\<close>, here a function of the number of the call. It returns its result and
  the messages it has written after those it is given, or \<open>None\<close> when it runs for ever.
\<close>

type_synonym threadfn = "(nat \<Rightarrow> bool) \<Rightarrow> logline list \<Rightarrow> (int \<times> logline list) option"

text \<open>A thread that returns once it is told to stop, whenever that is.\<close>

definition stoppable :: "threadfn \<Rightarrow> bool" where
  "stoppable fn \<longleftrightarrow> (\<forall>stop i. stop i \<longrightarrow> fn stop [] \<noteq> None)"

section \<open>Operations\<close>

text \<open>
  \<open>threads\<close> observes the threads that have been created and not stopped, with their functions,
  and \<open>runnable\<close> those that have been woken at least once. \<open>kthread_stop_op\<close> waits for the
  thread to return; \<open>None\<close> is a wait without end.
\<close>

record 'k kthread_ops =
  kthread_create_op :: "threadfn \<Rightarrow> string \<Rightarrow> 'k \<Rightarrow> addr \<times> 'k"
  wake_up_process_op :: "addr \<Rightarrow> 'k \<Rightarrow> 'k"
  kthread_stop_op :: "addr \<Rightarrow> 'k \<Rightarrow> (int \<times> 'k) option"
  threads :: "'k \<Rightarrow> addr \<rightharpoonup> threadfn"
  runnable :: "'k \<Rightarrow> addr set"

text \<open>The last 4095 addresses encode error numbers.\<close>

definition IS_ERR :: "addr \<Rightarrow> bool" where
  "IS_ERR p \<longleftrightarrow> 2 ^ 64 - 4095 \<le> p"

definition kthread_create ::
  "('k, 'w) kthread_ops_scheme \<Rightarrow> threadfn \<Rightarrow> string \<Rightarrow> ('k, 'z) env_scheme \<Rightarrow> addr \<times> ('k, 'z) env_scheme" where
  "kthread_create T fn name s = (let (t, k) = kthread_create_op T fn name (kern s) in (t, s\<lparr>kern := k\<rparr>))"

text \<open>To wake or to stop a thread that does not exist any more is a use of freed memory.\<close>

definition task_deref :: "('k, 'w) kthread_ops_scheme \<Rightarrow> addr \<Rightarrow> ('k, 'z) env_scheme \<Rightarrow> ('k, 'z) env_scheme" where
  "task_deref T t s = (if t \<in> dom (threads T (kern s)) then s else fault (UseAfterFree t) s)"

definition wake_process :: "('k, 'w) kthread_ops_scheme \<Rightarrow> addr \<Rightarrow> ('k, 'z) env_scheme \<Rightarrow> ('k, 'z) env_scheme" where
  "wake_process T t s = upd_kern (wake_up_process_op T t) (task_deref T t s)"

definition kthread_stop ::
  "('k, 'w) kthread_ops_scheme \<Rightarrow> addr \<Rightarrow> ('k, 'z) env_scheme \<Rightarrow> (int \<times> ('k, 'z) env_scheme) option" where
  "kthread_stop T t s =
     (let s = task_deref T t s
      in case kthread_stop_op T t (kern s) of None \<Rightarrow> None | Some (r, k) \<Rightarrow> Some (r, s\<lparr>kern := k\<rparr>))"

declare kthread_create_def [api_defs] task_deref_def [api_defs] wake_process_def [api_defs]
declare kthread_stop_def [api_defs]

section \<open>Iterations whose body may block\<close>

partial_function (option) list_walk_block ::
  "('k, 'y) list_ops_scheme \<Rightarrow> addr \<Rightarrow> (addr \<Rightarrow> ('k, 'z) env_scheme \<Rightarrow> ('k, 'z) env_scheme option) \<Rightarrow>
   addr \<Rightarrow> ('k, 'z) env_scheme \<Rightarrow> ('k, 'z) env_scheme option" where
  "list_walk_block K h body pos s =
     (if pos = h then Some s
      else Option.bind (body pos s) (\<lambda>s1.
        let s2 = deref K pos s1 in list_walk_block K h body (list_next_op K pos (kern s2)) s2))"

definition list_for_each_entry_block ::
  "('k, 'y) list_ops_scheme \<Rightarrow> addr \<Rightarrow> (addr \<Rightarrow> ('k, 'z) env_scheme \<Rightarrow> ('k, 'z) env_scheme option) \<Rightarrow>
   ('k, 'z) env_scheme \<Rightarrow> ('k, 'z) env_scheme option" where
  "list_for_each_entry_block K h body s = list_walk_block K h body (list_next_op K h (kern s)) s"

declare list_for_each_entry_block_def [api_defs]

context list_api
begin

text \<open>
  The rule of the iteration: an invariant of the entries visited so far, which keeps the ring and
  the validity of its entries and under which the body returns.
\<close>

lemma list_walk_block_rule:
  assumes ring: "\<And>as s. I as s \<Longrightarrow> dlist (kern s) h xs \<and> set xs \<subseteq> valid K (kern s)"
    and body: "\<And>as b bs s. xs = as @ b # bs \<Longrightarrow> I as s \<Longrightarrow> \<exists>s'. body b s = Some s' \<and> I (as @ [b]) s'"
    and "xs = as @ bs" and "I as s"
  shows "\<exists>s'. list_walk_block K h body (hd (bs @ [h])) s = Some s' \<and> I xs s'"
  using assms(3,4)
proof (induction bs arbitrary: as s)
  case Nil
  then show ?case by (simp add: list_walk_block.simps)
next
  case (Cons b bs)
  obtain s' where s': "body b s = Some s'" "I (as @ [b]) s'" using body Cons.prems by blast
  have d: "dlist (kern s') h (as @ b # bs)" "b \<in> valid K (kern s')"
    using ring [OF s'(2)] Cons.prems(1) by auto
  have ne: "b \<noteq> h" using dlist_distinct [OF d(1)] by auto
  have "\<exists>s''. list_walk_block K h body (hd (bs @ [h])) s' = Some s'' \<and> I xs s''"
    using Cons.IH [of "as @ [b]" s'] Cons.prems(1) s'(2) by simp
  then show ?case
    using d ne dlist_next [OF d(1)] s'(1) by (subst list_walk_block.simps) (simp add: Let_def)
qed

lemma for_each_entry_block:
  assumes "\<And>as s. I as s \<Longrightarrow> dlist (kern s) h xs \<and> set xs \<subseteq> valid K (kern s)"
    and "\<And>as b bs s. xs = as @ b # bs \<Longrightarrow> I as s \<Longrightarrow> \<exists>s'. body b s = Some s' \<and> I (as @ [b]) s'"
    and "I [] s"
  shows "\<exists>s'. list_for_each_entry_block K h body s = Some s' \<and> I xs s'"
proof -
  have "list_next_op K h (kern s) = hd (xs @ [h])" using assms(1) [OF assms(3)] by (simp add: dlist_next_head)
  then show ?thesis
    using list_walk_block_rule [of I h xs body "[]" xs s] assms by (simp add: list_for_each_entry_block_def)
qed

end

section \<open>What the kernel promises\<close>

locale kthread_api = list_api K dlist
  for K :: "('k, 'y) list_ops_scheme" and dlist :: "'k \<Rightarrow> addr \<Rightarrow> addr list \<Rightarrow> bool" +
  fixes T :: "('k, 'w) kthread_ops_scheme"
  assumes create_thread: "kthread_create_op T fn nm k = (t, k') \<Longrightarrow> \<not> IS_ERR t \<Longrightarrow>
      threads T k t = None \<and> threads T k' = (threads T k)(t \<mapsto> fn)"
    and create_failed: "kthread_create_op T fn nm k = (t, k') \<Longrightarrow> IS_ERR t \<Longrightarrow> threads T k' = threads T k"
    and create_stopped: "kthread_create_op T fn nm k = (t, k') \<Longrightarrow> runnable T k' = runnable T k"
    and wake_threads: "threads T (wake_up_process_op T t k) = threads T k"
    and wake_runnable: "t \<in> dom (threads T k) \<Longrightarrow> runnable T (wake_up_process_op T t k) = insert t (runnable T k)"
    and stop_returns: "threads T k t = Some fn \<Longrightarrow> t \<in> runnable T k \<Longrightarrow> stoppable fn \<Longrightarrow> kthread_stop_op T t k \<noteq> None"
    and stop_result: "threads T k t = Some fn \<Longrightarrow> t \<in> runnable T k \<Longrightarrow> kthread_stop_op T t k = Some (r, k') \<Longrightarrow>
      \<exists>stop i l. stop i \<and> fn stop [] = Some (r, l)"
    and stop_threads: "kthread_stop_op T t k = Some (r, k') \<Longrightarrow> threads T k' = (threads T k)(t := None)"
    and stop_runnable: "kthread_stop_op T t k = Some (r, k') \<Longrightarrow> runnable T k' = runnable T k - {t}"
    and dlist_create: "dlist k h xs \<Longrightarrow> kthread_create_op T fn nm k = (t, k') \<Longrightarrow> dlist k' h xs"
    and dlist_wake: "dlist k h xs \<Longrightarrow> dlist (wake_up_process_op T t k) h xs"
    and dlist_stop: "dlist k h xs \<Longrightarrow> kthread_stop_op T t k = Some (r, k') \<Longrightarrow> dlist k' h xs"
    and allocated_create: "kthread_create_op T fn nm k = (t, k') \<Longrightarrow> allocated K k' = allocated K k"
    and allocated_wake: "allocated K (wake_up_process_op T t k) = allocated K k"
    and allocated_stop: "kthread_stop_op T t k = Some (r, k') \<Longrightarrow> allocated K k' = allocated K k"
    and threads_kmalloc: "kmalloc_op K n k = (p, k') \<Longrightarrow> threads T k' = threads T k \<and> runnable T k' = runnable T k"
    and threads_kfree: "threads T (kfree_op K p k) = threads T k \<and> runnable T (kfree_op K p k) = runnable T k"
    and threads_init: "threads T (INIT_LIST_HEAD_op K h k) = threads T k \<and> runnable T (INIT_LIST_HEAD_op K h k) = runnable T k"
    and threads_add: "threads T (list_add_op K n h k) = threads T k \<and> runnable T (list_add_op K n h k) = runnable T k"
begin

lemma threads_add_all:
  "threads T (fold (\<lambda>n. list_add_op K n h) ns k) = threads T k"
  "runnable T (fold (\<lambda>n. list_add_op K n h) ns k) = runnable T k"
  by (induction ns arbitrary: k) (simp_all add: threads_add)

lemma threads_kfree_all:
  "threads T (kern (fold (kfree K) ps s)) = threads T (kern s)"
  "runnable T (kern (fold (kfree K) ps s)) = runnable T (kern s)"
  by (induction ps arbitrary: s) (simp_all add: kfree_def threads_kfree)

text \<open>Stopping a running thread that obeys: it returns, with a result of the thread function.\<close>

lemma kthread_stop_ok:
  assumes "threads T (kern s) t = Some fn" and "t \<in> runnable T (kern s)" and "stoppable fn"
    and "\<And>stop r l. fn stop [] = Some (r, l) \<Longrightarrow> r = v"
  obtains k where "kthread_stop T t s = Some (v, s\<lparr>kern := k\<rparr>)"
    "threads T k = (threads T (kern s))(t := None)" "runnable T k = runnable T (kern s) - {t}"
    "allocated K k = allocated K (kern s)" "\<And>h xs. dlist (kern s) h xs \<Longrightarrow> dlist k h xs"
proof -
  obtain r k where rk: "kthread_stop_op T t (kern s) = Some (r, k)"
    using stop_returns [OF assms(1-3)] by auto
  have "r = v" using stop_result [OF assms(1,2) rk] assms(4) by blast
  then have "kthread_stop T t s = Some (v, s\<lparr>kern := k\<rparr>)"
    using rk assms(1) by (auto simp: kthread_stop_def task_deref_def)
  then show thesis using that stop_threads [OF rk] stop_runnable [OF rk] allocated_stop [OF rk] dlist_stop [OF _ rk] by blast
qed

lemma wake_process_ok:
  assumes "t \<in> dom (threads T (kern s))"
  shows "wake_process T t s = s\<lparr>kern := wake_up_process_op T t (kern s)\<rparr>"
  using assms by (simp add: wake_process_def task_deref_def upd_kern_def)

end

end
