(* ===== verification/Ref_Kernel.thy ===== *)
theory Ref_Kernel
  imports Kernel_Api Lock_Api Thread_Api
begin

text \<open>
  A reference kernel: an executable allocator with a budget, doubly linked rings of \<open>next\<close>
  and \<open>prev\<close> pointers, a set of taken spinlocks, and a table of threads. It satisfies every law of the interface
  locales, so the hypotheses of the theorems about the modules hold of a kernel that really
  links pointers; the witnesses run the modules on it.
\<close>

section \<open>The state and its operations\<close>

record ref_kernel =
  budget :: nat
  objs :: "addr list"
  nxt :: "addr \<Rightarrow> addr"
  prv :: "addr \<Rightarrow> addr"
  taken :: "addr list"
  thr :: "(addr \<times> threadfn) list"
  awake :: "addr list"

text \<open>Addresses up to \<open>ref_top\<close> are static objects; the allocator hands out higher ones.\<close>

definition ref_top :: addr where
  "ref_top = 99"

definition ref_fresh :: "ref_kernel \<Rightarrow> addr" where
  "ref_fresh k = Suc (fold max (objs k) ref_top)"

definition ref_kmalloc :: "nat \<Rightarrow> ref_kernel \<Rightarrow> addr \<times> ref_kernel" where
  "ref_kmalloc n k =
     (if budget k = 0 then (NULL, k)
      else (ref_fresh k, k\<lparr>budget := budget k - 1, objs := ref_fresh k # objs k\<rparr>))"

definition ref_kfree :: "addr \<Rightarrow> ref_kernel \<Rightarrow> ref_kernel" where
  "ref_kfree p k = k\<lparr>objs := removeAll p (objs k)\<rparr>"

definition ref_allocated :: "ref_kernel \<Rightarrow> addr set" where
  "ref_allocated k = set (filter (\<lambda>p. ref_top < p) (objs k))"

definition ref_init :: "addr \<Rightarrow> ref_kernel \<Rightarrow> ref_kernel" where
  "ref_init h k = k\<lparr>nxt := (nxt k)(h := h), prv := (prv k)(h := h)\<rparr>"

text \<open>\<open>ref_link n a b\<close> puts \<open>n\<close> between the neighbours \<open>a\<close> and \<open>b\<close>.\<close>

definition ref_link :: "addr \<Rightarrow> addr \<Rightarrow> addr \<Rightarrow> ref_kernel \<Rightarrow> ref_kernel" where
  "ref_link n a b k = k\<lparr>nxt := (nxt k)(n := b, a := n), prv := (prv k)(b := n, n := a)\<rparr>"

definition ref_add :: "addr \<Rightarrow> addr \<Rightarrow> ref_kernel \<Rightarrow> ref_kernel" where
  "ref_add n h k = ref_link n h (nxt k h) k"

definition ref_add_tail :: "addr \<Rightarrow> addr \<Rightarrow> ref_kernel \<Rightarrow> ref_kernel" where
  "ref_add_tail n h k = ref_link n (prv k h) h k"

text \<open>Unlinking; the plain deletion poisons both pointers, the RCU deletion only the backward one.\<close>

definition ref_unlink :: "addr \<Rightarrow> ref_kernel \<Rightarrow> ref_kernel" where
  "ref_unlink n k = k\<lparr>nxt := (nxt k)(prv k n := nxt k n), prv := (prv k)(nxt k n := prv k n, n := NULL)\<rparr>"

definition ref_del :: "addr \<Rightarrow> ref_kernel \<Rightarrow> ref_kernel" where
  "ref_del n k = (ref_unlink n k)\<lparr>nxt := (nxt (ref_unlink n k))(n := NULL)\<rparr>"

definition ref_replace :: "addr \<Rightarrow> addr \<Rightarrow> ref_kernel \<Rightarrow> ref_kernel" where
  "ref_replace old new k =
     k\<lparr>nxt := (nxt k)(new := nxt k old, prv k old := new),
       prv := (prv k)(new := prv k old, nxt k old := new, old := NULL)\<rparr>"

definition ref_ops :: "ref_kernel rcu_list_ops" where
  "ref_ops = \<lparr>
     kmalloc_op = ref_kmalloc, kfree_op = ref_kfree, allocated = ref_allocated, statics = {1..ref_top},
     INIT_LIST_HEAD_op = ref_init, list_add_op = ref_add, list_add_tail_op = ref_add_tail,
     list_del_op = ref_del, list_next_op = (\<lambda>p k. nxt k p),
     list_add_rcu_op = ref_add, list_replace_rcu_op = ref_replace, list_del_rcu_op = ref_unlink\<rparr>"

definition ref_locks :: "ref_kernel lock_ops" where
  "ref_locks = \<lparr>
     spin_lock_init_op = (\<lambda>l k. k\<lparr>taken := removeAll l (taken k)\<rparr>),
     spin_lock_op = (\<lambda>l k. k\<lparr>taken := l # taken k\<rparr>),
     spin_unlock_op = (\<lambda>l k. k\<lparr>taken := removeAll l (taken k)\<rparr>),
     spin_is_locked_op = (\<lambda>l k. if l \<in> set (taken k) then 1 else 0),
     spin_trylock_op = (\<lambda>l k. if l \<in> set (taken k) then (0, k) else (1, k\<lparr>taken := l # taken k\<rparr>)),
     held = (\<lambda>k. set (taken k))\<rparr>"

text \<open>
  A thread takes a unit of memory. Stopping it makes \<open>kthread_should_stop\<close> true and waits for the
  thread function; a thread that never ran is interrupted (\<open>-EINTR\<close>).
\<close>

definition ref_tid :: "ref_kernel \<Rightarrow> addr" where
  "ref_tid k = Suc (fold max (map fst (thr k)) 0)"

definition ref_create :: "threadfn \<Rightarrow> string \<Rightarrow> ref_kernel \<Rightarrow> addr \<times> ref_kernel" where
  "ref_create fn name k =
     (if budget k = 0 \<or> IS_ERR (ref_tid k) then (2 ^ 64 - 12, k)
      else (ref_tid k, k\<lparr>budget := budget k - 1, thr := (ref_tid k, fn) # thr k\<rparr>))"

definition ref_stop :: "addr \<Rightarrow> ref_kernel \<Rightarrow> (int \<times> ref_kernel) option" where
  "ref_stop t k =
     (let k' = k\<lparr>thr := filter (\<lambda>x. fst x \<noteq> t) (thr k), awake := removeAll t (awake k)\<rparr>
      in case map_of (thr k) t of
           None \<Rightarrow> Some (- EINTR, k')
         | Some fn \<Rightarrow> if t \<in> set (awake k) then map_option (\<lambda>(r, l). (r, k')) (fn (\<lambda>_. True) []) else Some (- EINTR, k'))"

definition ref_threads :: "ref_kernel kthread_ops" where
  "ref_threads = \<lparr>
     kthread_create_op = ref_create, wake_up_process_op = (\<lambda>t k. k\<lparr>awake := t # awake k\<rparr>),
     kthread_stop_op = ref_stop, threads = (\<lambda>k. map_of (thr k)), runnable = (\<lambda>k. set (awake k))\<rparr>"

text \<open>A kernel with memory for \<open>n\<close> more objects, in which no list has been initialised.\<close>

definition ref_boot :: "nat \<Rightarrow> ref_kernel" where
  "ref_boot n = \<lparr>budget = n, objs = [], nxt = (\<lambda>_. NULL), prv = (\<lambda>_. NULL), taken = [],
     thr = [], awake = []\<rparr>"

text \<open>Consecutive elements point at each other; a ring is a path from the head to itself.\<close>

fun links :: "(addr \<Rightarrow> addr) \<Rightarrow> (addr \<Rightarrow> addr) \<Rightarrow> addr list \<Rightarrow> bool" where
  "links f g (x # y # zs) \<longleftrightarrow> f x = y \<and> g y = x \<and> links f g (y # zs)"
| "links f g _ \<longleftrightarrow> True"

definition ring :: "ref_kernel \<Rightarrow> addr \<Rightarrow> addr list \<Rightarrow> bool" where
  "ring k h xs \<longleftrightarrow> distinct (h # xs) \<and> links (nxt k) (prv k) (h # xs @ [h])"

lemmas ref_list_defs = ref_init_def ref_link_def ref_add_def ref_add_tail_def ref_unlink_def
  ref_del_def ref_replace_def

lemma ref_ops_simps:
  "kmalloc_op ref_ops = ref_kmalloc" "kfree_op ref_ops = ref_kfree" "allocated ref_ops = ref_allocated"
  "statics ref_ops = {1..ref_top}" "INIT_LIST_HEAD_op ref_ops = ref_init" "list_add_op ref_ops = ref_add"
  "list_add_tail_op ref_ops = ref_add_tail" "list_del_op ref_ops = ref_del"
  "list_next_op ref_ops p k = nxt k p" "list_add_rcu_op ref_ops = ref_add"
  "list_replace_rcu_op ref_ops = ref_replace" "list_del_rcu_op ref_ops = ref_unlink"
  by (simp_all add: ref_ops_def)

lemma ref_locks_simps:
  "spin_lock_init_op ref_locks l k = k\<lparr>taken := removeAll l (taken k)\<rparr>"
  "spin_lock_op ref_locks l k = k\<lparr>taken := l # taken k\<rparr>"
  "spin_unlock_op ref_locks l k = k\<lparr>taken := removeAll l (taken k)\<rparr>"
  "held ref_locks k = set (taken k)"
  by (simp_all add: ref_locks_def)

lemma ref_threads_simps:
  "kthread_create_op ref_threads = ref_create" "wake_up_process_op ref_threads t k = k\<lparr>awake := t # awake k\<rparr>"
  "kthread_stop_op ref_threads = ref_stop" "threads ref_threads k = map_of (thr k)"
  "runnable ref_threads k = set (awake k)"
  by (simp_all add: ref_threads_def)

lemma ref_statics [simp]: "p \<in> statics ref_ops \<longleftrightarrow> 1 \<le> p \<and> p \<le> 99"
  by (auto simp: ref_ops_def ref_top_def)

text \<open>The facts with which the witnesses evaluate a module on the reference kernel.\<close>

lemmas ref_eval = ref_ops_simps ref_locks_simps ref_kmalloc_def ref_fresh_def ref_top_def ref_kfree_def
  ref_allocated_def ref_list_defs ref_boot_def valid_def api_defs env_defs list_walk.simps upt_rec

section \<open>Pointer paths\<close>

lemma links_append: "links f g (as @ x # bs) \<longleftrightarrow> links f g (as @ [x]) \<and> links f g (x # bs)"
proof (induction as)
  case Nil
  then show ?case by simp
next
  case (Cons a as)
  then show ?case by (cases as) auto
qed

lemma links_frame:
  assumes "links f g ps"
    and "\<And>x. x \<in> set (butlast ps) \<Longrightarrow> f' x = f x" and "\<And>x. x \<in> set (tl ps) \<Longrightarrow> g' x = g x"
  shows "links f' g' ps"
  using assms by (induction f g ps rule: links.induct) auto

lemma in_set_tlD: "x \<in> set (tl xs) \<Longrightarrow> x \<in> set xs"
  by (cases xs) auto

lemma links_hd: "links f g (x # ys @ [z]) \<Longrightarrow> f x = hd (ys @ [z])"
  by (cases ys) auto

lemma links_last: "links f g (x # ys @ [z]) \<Longrightarrow> g z = last (x # ys)"
proof (induction ys arbitrary: x)
  case Nil
  then show ?case by simp
next
  case (Cons y ys)
  then show ?case by simp
qed

text \<open>
  Linking a fresh node between two neighbours splits the path there; taking a node out joins it
  again. Both rest on the same frame: the pointers outside the neighbourhood are untouched.
\<close>

lemma links_two:
  assumes "links f g (as @ [a])" and "links f g (b # bs)"
    and "\<And>x. x \<in> set as \<union> set (butlast (b # bs)) \<Longrightarrow> f' x = f x"
    and "\<And>x. x \<in> set (tl (as @ [a])) \<union> set bs \<Longrightarrow> g' x = g x"
    and "links f' g' (a # ys @ [b])"
  shows "links f' g' (as @ a # ys @ b # bs)"
proof -
  have "links f' g' (as @ [a])"
    by (rule links_frame [OF assms(1)]) (use assms(3,4) in auto)
  moreover have "links f' g' (b # bs)"
    by (rule links_frame [OF assms(2)]) (use assms(3,4) in auto)
  moreover have "links f' g' (a # ys @ b # bs)"
    using links_append [of f' g' "a # ys" b bs] assms(5) calculation(2) by simp
  ultimately show ?thesis by (subst links_append) simp
qed

lemma links_insert:
  assumes "links f g (as @ a # b # bs)" and "n \<notin> set (as @ a # b # bs)"
    and "a \<notin> set as" and "a \<notin> set (butlast (b # bs))" and "b \<notin> set bs" and "b \<notin> set (tl (as @ [a]))"
  shows "links (f(n := b, a := n)) (g(b := n, n := a)) (as @ a # n # b # bs)"
proof -
  have parts: "links f g (as @ [a])" "links f g (b # bs)"
    using assms(1) links_append [of f g as a "b # bs"] by auto
  have n: "n \<notin> set (butlast (b # bs))" "n \<notin> set (tl (as @ [a]))"
    using assms(2) by (fastforce dest: in_set_butlastD, fastforce dest: in_set_tlD)
  have "links (f(n := b, a := n)) (g(b := n, n := a)) (as @ a # [n] @ b # bs)"
    by (rule links_two [OF parts]) (use n assms(2-) in auto)
  then show ?thesis by simp
qed

lemma links_remove:
  assumes "links f g (as @ a # n # b # bs)" and "n \<notin> set (as @ a # b # bs)"
    and "a \<notin> set as" and "a \<notin> set (butlast (b # bs))" and "b \<notin> set bs" and "b \<notin> set (tl (as @ [a]))"
  shows "links (f(a := b)) (g(b := a, n := v)) (as @ a # b # bs)"
proof -
  have parts: "links f g (as @ [a])" "links f g (b # bs)"
    using assms(1) links_append [of f g as a "n # b # bs"] by auto
  have n: "n \<notin> set (tl (as @ [a]))"
    using assms(2) by (fastforce dest: in_set_tlD)
  have "links (f(a := b)) (g(b := a, n := v)) (as @ a # [] @ b # bs)"
    by (rule links_two [OF parts]) (use n assms(2-) in auto)
  then show ?thesis by simp
qed

lemma links_exchange:
  assumes "links f g (as @ a # x # b # bs)" and "n \<notin> set (as @ a # x # b # bs)"
    and "x \<notin> set (as @ a # b # bs)"
    and "a \<notin> set as" and "a \<notin> set (butlast (b # bs))" and "b \<notin> set bs" and "b \<notin> set (tl (as @ [a]))"
  shows "links (f(n := b, a := n)) (g(n := a, b := n, x := v)) (as @ a # n # b # bs)"
proof -
  have parts: "links f g (as @ [a])" "links f g (b # bs)"
    using assms(1) links_append [of f g as a "x # b # bs"] by auto
  have n: "n \<notin> set (butlast (b # bs))" "n \<notin> set (tl (as @ [a]))" "x \<notin> set (tl (as @ [a]))"
    using assms(2,3)
    by (fastforce dest: in_set_butlastD, fastforce dest: in_set_tlD, fastforce dest: in_set_tlD)
  have "links (f(n := b, a := n)) (g(n := a, b := n, x := v)) (as @ a # [n] @ b # bs)"
    by (rule links_two [OF parts]) (use n assms(2-) in auto)
  then show ?thesis by simp
qed

section \<open>Rings under the operations\<close>

lemma ring_init: "ring (ref_init h k) h []"
  by (simp add: ring_def ref_init_def)

text \<open>The neighbourhood of a place in a ring: the path up to the place and the path after it.\<close>

lemma ring_place:
  assumes "ring k h (ys @ zs)"
  obtains as a b bs where "h # ys = as @ [a]" and "zs @ [h] = b # bs"
    and "links (nxt k) (prv k) (as @ a # b # bs)" and "a \<notin> set as" and "a \<notin> set (butlast (b # bs))"
    and "b \<notin> set bs" and "b \<notin> set (tl (as @ [a]))"
proof -
  obtain as a where as: "h # ys = as @ [a]" by (metis append_butlast_last_id list.discI)
  obtain b bs where bs: "zs @ [h] = b # bs" by (cases zs) auto
  have dist: "distinct (h # ys @ zs)" and path: "links (nxt k) (prv k) (h # (ys @ zs) @ [h])"
    using assms by (auto simp: ring_def)
  have "links (nxt k) (prv k) (as @ a # b # bs)"
    using path as bs by (metis append.assoc append_Cons append_Nil)
  moreover have "distinct (as @ [a])" "distinct (b # bs)"
    unfolding as [symmetric] bs [symmetric] using dist by auto
  then have "a \<notin> set as" "b \<notin> set bs" by auto
  moreover have "a \<notin> set (butlast (b # bs))"
  proof -
    have "butlast (b # bs) = zs" using bs by (metis butlast_snoc)
    moreover have "a \<in> set (h # ys)" using as by simp
    ultimately show ?thesis using dist by auto
  qed
  moreover have "b \<notin> set (tl (as @ [a]))"
  proof -
    have "tl (as @ [a]) = ys" using as by (metis list.sel(3))
    moreover have "b \<in> set (zs @ [h])" using bs by simp
    ultimately show ?thesis using dist by auto
  qed
  ultimately show thesis using that as bs by blast
qed

lemma ring_insert_at:
  assumes "ring k h (ys @ zs)" and "n \<notin> set (h # ys @ zs)"
    and "a = last (h # ys)" and "b = hd (zs @ [h])"
  shows "ring (ref_link n a b k) h (ys @ n # zs)"
proof -
  obtain as a' b' bs where p: "h # ys = as @ [a']" "zs @ [h] = b' # bs"
    "links (nxt k) (prv k) (as @ a' # b' # bs)" "a' \<notin> set as" "a' \<notin> set (butlast (b' # bs))"
    "b' \<notin> set bs" "b' \<notin> set (tl (as @ [a']))"
    by (rule ring_place [OF assms(1)])
  have ab: "a = a'" "b = b'" using p(1,2) assms(3,4) by auto
  have path: "as @ a' # b' # bs = h # ys @ zs @ [h]"
    using p(1,2) by (metis append.assoc append_Cons append_Nil)
  have "n \<notin> set (as @ a' # b' # bs)"
    unfolding path using assms(2) by auto
  then have "links (nxt (ref_link n a b k)) (prv (ref_link n a b k)) (as @ a' # n # b' # bs)"
    using links_insert [OF p(3)] p assms(2) by (simp add: ref_link_def ab)
  then have "links (nxt (ref_link n a b k)) (prv (ref_link n a b k)) (h # (ys @ n # zs) @ [h])"
    using p(1,2) by (metis append.assoc append_Cons append_Nil)
  then show ?thesis using assms(1,2) by (auto simp: ring_def)
qed

text \<open>An entry of a ring with its neighbours: where its pointers lead.\<close>

lemma ring_entry:
  assumes "ring k h (ys @ n # zs)"
  obtains as a b bs where "h # ys = as @ [a]" and "zs @ [h] = b # bs"
    and "links (nxt k) (prv k) (as @ a # n # b # bs)" and "n \<notin> set (as @ a # b # bs)"
    and "a \<notin> set as" and "a \<notin> set (butlast (b # bs))" and "b \<notin> set bs" and "b \<notin> set (tl (as @ [a]))"
    and "prv k n = a" and "nxt k n = b"
proof -
  obtain as a c cs where p: "h # ys = as @ [a]" "(n # zs) @ [h] = c # cs"
    "links (nxt k) (prv k) (as @ a # c # cs)" "a \<notin> set as" "a \<notin> set (butlast (c # cs))"
    by (rule ring_place [OF assms])
  obtain b bs where b: "zs @ [h] = b # bs" by (cases zs) auto
  have cs: "c = n" "cs = b # bs" using p(2) b by auto
  have dist: "distinct (h # ys @ n # zs)" using assms by (simp add: ring_def)
  have links: "links (nxt k) (prv k) (as @ a # n # b # bs)" using p(3) cs by simp
  have "links (nxt k) (prv k) (a # n # b # bs)"
    using links links_append [of "nxt k" "prv k" as a "n # b # bs"] by simp
  then have "prv k n = a" "nxt k n = b" by auto
  moreover have path: "as @ a # b # bs = h # ys @ zs @ [h]"
    using p(1) b by (metis append.assoc append_Cons append_Nil)
  have "n \<notin> set (as @ a # b # bs)"
    unfolding path using dist by auto
  moreover have "distinct (b # bs)"
    unfolding b [symmetric] using dist by auto
  then have "b \<notin> set bs" by simp
  moreover have "tl (as @ [a]) = ys" using p(1) by (metis list.sel(3))
  then have "b \<notin> set (tl (as @ [a]))" using dist b by (cases zs) auto
  moreover have "a \<notin> set (butlast (b # bs))" using p(5) cs by simp
  ultimately show thesis using that p(1,4) b links by blast
qed

lemma ring_unlink:
  assumes "ring k h (ys @ n # zs)"
  shows "ring (ref_unlink n k) h (ys @ zs)" and "nxt (ref_unlink n k) n = nxt k n"
proof -
  obtain as a b bs where p: "h # ys = as @ [a]" "zs @ [h] = b # bs"
    "links (nxt k) (prv k) (as @ a # n # b # bs)" "n \<notin> set (as @ a # b # bs)"
    "a \<notin> set as" "a \<notin> set (butlast (b # bs))" "b \<notin> set bs" "b \<notin> set (tl (as @ [a]))"
    "prv k n = a" "nxt k n = b"
    by (rule ring_entry [OF assms])
  have "links (nxt (ref_unlink n k)) (prv (ref_unlink n k)) (as @ a # b # bs)"
    using links_remove [OF p(3-8)] by (simp add: ref_unlink_def p(9,10))
  then have "links (nxt (ref_unlink n k)) (prv (ref_unlink n k)) (h # (ys @ zs) @ [h])"
    using p(1,2) by (metis append.assoc append_Cons append_Nil)
  then show "ring (ref_unlink n k) h (ys @ zs)" using assms by (auto simp: ring_def)
  show "nxt (ref_unlink n k) n = nxt k n"
    using p(4,9) by (simp add: ref_unlink_def)
qed

lemma ring_replace:
  assumes "ring k h (ys @ x # zs)" and "n \<notin> set (h # ys @ x # zs)"
  shows "ring (ref_replace x n k) h (ys @ n # zs)" and "nxt (ref_replace x n k) x = nxt k x"
proof -
  obtain as a b bs where p: "h # ys = as @ [a]" "zs @ [h] = b # bs"
    "links (nxt k) (prv k) (as @ a # x # b # bs)" "x \<notin> set (as @ a # b # bs)"
    "a \<notin> set as" "a \<notin> set (butlast (b # bs))" "b \<notin> set bs" "b \<notin> set (tl (as @ [a]))"
    "prv k x = a" "nxt k x = b"
    by (rule ring_entry [OF assms(1)])
  have path: "as @ a # x # b # bs = h # ys @ x # zs @ [h]"
    using p(1,2) by (metis append.assoc append_Cons append_Nil)
  have n: "n \<notin> set (as @ a # x # b # bs)"
    unfolding path using assms(2) by auto
  have "links (nxt (ref_replace x n k)) (prv (ref_replace x n k)) (as @ a # n # b # bs)"
    using links_exchange [OF p(3) n p(4-8)] by (simp add: ref_replace_def p(9,10))
  then have "links (nxt (ref_replace x n k)) (prv (ref_replace x n k)) (h # (ys @ n # zs) @ [h])"
    using p(1,2) by (metis append.assoc append_Cons append_Nil)
  then show "ring (ref_replace x n k) h (ys @ n # zs)" using assms by (auto simp: ring_def)
  show "nxt (ref_replace x n k) x = nxt k x"
    using p(4,9) n by (simp add: ref_replace_def)
qed

text \<open>A change outside the nodes of a ring does not touch it.\<close>

lemma ring_frame:
  assumes "ring k h xs" and "\<And>x. x \<in> set (h # xs) \<Longrightarrow> nxt k' x = nxt k x \<and> prv k' x = prv k x"
  shows "ring k' h xs"
proof -
  have "links (nxt k') (prv k') (h # xs @ [h])"
    by (rule links_frame [of "nxt k" "prv k"])
       (use assms in \<open>auto simp: ring_def dest: in_set_butlastD\<close>)
  then show ?thesis using assms(1) by (simp add: ring_def)
qed

lemma ring_next:
  "ring k h xs \<Longrightarrow> nxt k h = hd (xs @ [h])"
  "ring k h (as @ x # bs) \<Longrightarrow> nxt k x = hd (bs @ [h])"
proof -
  show "ring k h xs \<Longrightarrow> nxt k h = hd (xs @ [h])"
    by (auto simp: ring_def dest: links_hd)
  assume "ring k h (as @ x # bs)"
  then show "nxt k x = hd (bs @ [h])"
    by (rule ring_entry) simp
qed

lemma ring_prev_head: "ring k h xs \<Longrightarrow> prv k h = last (h # xs)"
  by (auto simp: ring_def dest: links_last)

lemma ring_del:
  assumes "ring k h (ys @ n # zs)"
  shows "ring (ref_del n k) h (ys @ zs)"
  by (rule ring_frame [OF ring_unlink(1) [OF assms]]) (use assms in \<open>auto simp: ref_del_def ring_def\<close>)

section \<open>The reference kernel satisfies the interfaces\<close>

lemma ref_fresh_new: "ref_fresh k \<notin> set (objs k)" and ref_fresh_top: "ref_top < ref_fresh k"
  using fold_max_ge [of "ref_fresh k" "objs k" ref_top] fold_max_base [of ref_top "objs k"]
  by (auto simp: ref_fresh_def)

interpretation ref_slab: slab_api ref_ops
  by unfold_locales
     (auto simp: ref_ops_def valid_def ref_allocated_def ref_kmalloc_def ref_kfree_def ref_fresh_new
       ref_fresh_top split: if_splits dest: leD)

interpretation ref_list: list_api ref_ops ring
proof unfold_locales
  fix k k' :: ref_kernel and h n p q x :: addr and xs as bs :: "addr list" and sz :: nat
  show "ring k h xs \<Longrightarrow> distinct (h # xs)"
    by (simp add: ring_def)
  show "ring (INIT_LIST_HEAD_op ref_ops h k) h []"
    by (simp add: ref_ops_def ring_init)
  show "ring k h xs \<Longrightarrow> n \<notin> set (h # xs) \<Longrightarrow> ring (list_add_op ref_ops n h k) h (n # xs)"
    using ring_insert_at [of k h "[]" xs n h] by (simp add: ref_ops_def ref_add_def ring_next(1))
  show "ring k h xs \<Longrightarrow> n \<notin> set (h # xs) \<Longrightarrow> ring (list_add_tail_op ref_ops n h k) h (xs @ [n])"
    using ring_insert_at [of k h xs "[]" n "last (h # xs)" h]
    by (simp add: ref_ops_def ref_add_tail_def ring_prev_head)
  show "ring k h xs \<Longrightarrow> n \<in> set xs \<Longrightarrow> ring (list_del_op ref_ops n k) h (remove1 n xs)"
    by (auto simp: ref_ops_def ring_del dest!: split_list_first)
  show "ring k h xs \<Longrightarrow> list_next_op ref_ops h k = hd (xs @ [h])"
    by (simp add: ref_ops_def ring_next(1))
  show "ring k h (as @ x # bs) \<Longrightarrow> list_next_op ref_ops x k = hd (bs @ [h])"
    by (simp add: ref_ops_def ring_next(2))
  show "ring k h xs \<Longrightarrow> kmalloc_op ref_ops sz k = (p, k') \<Longrightarrow> ring k' h xs"
    by (auto simp: ref_ops_def ref_kmalloc_def elim!: ring_frame split: if_splits)
  show "ring k h xs \<Longrightarrow> p \<notin> set (h # xs) \<Longrightarrow> ring (kfree_op ref_ops p k) h xs"
    by (auto simp: ref_ops_def ref_kfree_def elim!: ring_frame)
qed (simp_all add: ref_ops_def ref_kfree_def ref_allocated_def ref_list_defs)

interpretation ref_rcu: rcu_list_api ref_ops ring
proof unfold_locales
  fix k :: ref_kernel and h n x :: addr and xs as bs :: "addr list"
  show "ring k h xs \<Longrightarrow> n \<notin> set (h # xs) \<Longrightarrow> ring (list_add_rcu_op ref_ops n h k) h (n # xs)"
    using ref_list.dlist_add by (simp add: ref_ops_def)
  show "ring k h (as @ x # bs) \<Longrightarrow> n \<notin> set (h # as @ x # bs) \<Longrightarrow>
      ring (list_replace_rcu_op ref_ops x n k) h (as @ n # bs)"
    using ring_replace(1) by (simp add: ref_ops_def)
  show "ring k h (as @ x # bs) \<Longrightarrow> n \<notin> set (h # as @ x # bs) \<Longrightarrow>
      list_next_op ref_ops x (list_replace_rcu_op ref_ops x n k) = list_next_op ref_ops x k"
    using ring_replace(2) by (simp add: ref_ops_def)
  show "ring k h (as @ x # bs) \<Longrightarrow> ring (list_del_rcu_op ref_ops x k) h (as @ bs)"
    using ring_unlink(1) by (simp add: ref_ops_def)
  show "ring k h (as @ x # bs) \<Longrightarrow> list_next_op ref_ops x (list_del_rcu_op ref_ops x k) = list_next_op ref_ops x k"
    using ring_unlink(2) by (simp add: ref_ops_def)
qed (simp_all add: ref_ops_def ref_allocated_def ref_list_defs)

interpretation ref_lock: lock_api ref_locks
  by unfold_locales (auto simp: ref_locks_def split: if_splits)

interpretation ref_locked: locked_list_api ref_ops ring ref_locks
  by unfold_locales
     (auto simp: ref_ops_def ref_locks_def ref_allocated_def ref_kmalloc_def ref_kfree_def ref_list_defs
       split: if_splits elim!: ring_frame)

interpretation ref_locked_rcu: locked_rcu_api ref_ops ring ref_locks
  by unfold_locales (auto simp: ref_ops_def ref_locks_def ref_list_defs)

interpretation ref_kthread: kthread_api ref_ops ring ref_threads
proof unfold_locales
  fix k k' :: ref_kernel and t :: addr and fn :: threadfn and nm :: string and r :: int
  have new: "map_of (thr k) (ref_tid k) = None"
  proof -
    have "ref_tid k \<notin> fst ` set (thr k)"
      using fold_max_ge [of "ref_tid k" "map fst (thr k)" 0] by (auto simp: ref_tid_def)
    then show ?thesis by (simp add: map_of_eq_None_iff)
  qed
  show "kthread_create_op ref_threads fn nm k = (t, k') \<Longrightarrow> \<not> IS_ERR t \<Longrightarrow>
      threads ref_threads k t = None \<and> threads ref_threads k' = (threads ref_threads k)(t \<mapsto> fn)"
    using new by (auto simp: ref_threads_def ref_create_def IS_ERR_def split: if_splits)
  show "threads ref_threads k t = Some fn \<Longrightarrow> t \<in> runnable ref_threads k \<Longrightarrow> stoppable fn \<Longrightarrow>
      kthread_stop_op ref_threads t k \<noteq> None"
    by (simp add: ref_threads_def ref_stop_def stoppable_def Let_def)
  show "threads ref_threads k t = Some fn \<Longrightarrow> t \<in> runnable ref_threads k \<Longrightarrow>
      kthread_stop_op ref_threads t k = Some (r, k') \<Longrightarrow> \<exists>stop i l. stop i \<and> fn stop [] = Some (r, l)"
    by (auto simp: ref_threads_def ref_stop_def Let_def intro!: exI [of _ "\<lambda>_. True"])
  have "map_of (filter (\<lambda>x. fst x \<noteq> t) xs) = (map_of xs)(t := None)" for xs :: "(addr \<times> threadfn) list"
    by (induction xs) auto
  then show "kthread_stop_op ref_threads t k = Some (r, k') \<Longrightarrow> threads ref_threads k' = (threads ref_threads k)(t := None)"
    by (auto simp: ref_threads_def ref_stop_def Let_def split: option.splits if_splits)
qed (auto simp: ref_ops_def ref_threads_def ref_create_def ref_stop_def IS_ERR_def ref_allocated_def ref_kmalloc_def
      ref_kfree_def ref_list_defs Let_def split: if_splits option.splits elim!: ring_frame)

end
