(* ===== verification/Chrdev_Api.thy ===== *)
theory Chrdev_Api
  imports Lkb_Prelude
begin

text \<open>
  What the two character drivers share: the registration of a major number, and the transfer of
  bytes between the kernel and a user process, with the little-endian layout of an
  \<open>unsigned long\<close>.
\<close>

unbundle bit_operations_syntax

section \<open>Registration of character devices\<close>

text \<open>
  A driver registers a major number with a name and the address of its operations table. The
  repository has two such tables, \<open>fops\<close> of \<open>ioctl/code.c\<close> and \<open>fops\<close> of \<open>mmap/code.c\<close>, and an address
  is modelled by the name of the table. \<open>chrdevs\<close> observes what is registered under each major
  number. The contract is the one of a fixed major number (for 0 the kernel chooses one): the
  registration of a number that is taken fails, and to unregister removes what is registered under
  the number, whatever the name.
\<close>

datatype fops_ref = Fops_ioctl | Fops_mmap

record 'k chrdev_ops =
  register_chrdev_op :: "int \<Rightarrow> string \<Rightarrow> fops_ref \<Rightarrow> 'k \<Rightarrow> int \<times> 'k"
  unregister_chrdev_op :: "int \<Rightarrow> string \<Rightarrow> 'k \<Rightarrow> 'k"
  chrdevs :: "'k \<Rightarrow> int \<rightharpoonup> string \<times> fops_ref"

locale chrdev_api =
  fixes C :: "('k, 'y) chrdev_ops_scheme"
  assumes register_result: "register_chrdev_op C maj nm f k = (ret, k') \<Longrightarrow> maj > 0 \<Longrightarrow>
      ret = 0 \<and> chrdevs C k maj = None \<and> chrdevs C k' = (chrdevs C k)(maj \<mapsto> (nm, f)) \<or>
      ret < 0 \<and> chrdevs C k' = chrdevs C k"
    and unregister_result: "chrdevs C (unregister_chrdev_op C maj nm k) = (chrdevs C k)(maj := None)"
begin

lemma register_taken:
  "register_chrdev_op C maj nm f k = (ret, k') \<Longrightarrow> maj > 0 \<Longrightarrow> chrdevs C k maj \<noteq> None \<Longrightarrow>
    ret < 0 \<and> chrdevs C k' = chrdevs C k"
  using register_result [of maj nm f k ret k'] by auto

lemma register_unregister:
  "register_chrdev_op C maj nm f k = (ret, k') \<Longrightarrow> maj > 0 \<Longrightarrow> \<not> ret < 0 \<Longrightarrow>
    chrdevs C (unregister_chrdev_op C maj nm k') = chrdevs C k"
  using register_result [of maj nm f k ret k'] unregister_result [of maj nm k'] by (auto simp: fun_eq_iff)

end

section \<open>Bytes and words\<close>

type_synonym uaddr = "64 word"
type_synonym byte = "8 word"

definition le_bytes :: "64 word \<Rightarrow> byte list" where
  "le_bytes w = map (\<lambda>i. ucast (drop_bit (8 * i) w)) [0..<8]"

fun le_word :: "byte list \<Rightarrow> 64 word" where
  "le_word [] = 0"
| "le_word (b # bs) = ucast b OR push_bit 8 (le_word bs)"

text \<open>The bytes of an \<open>int\<close> in memory.\<close>

definition le_int_bytes :: "32 word \<Rightarrow> byte list" where
  "le_int_bytes w = map (\<lambda>i. ucast (drop_bit (8 * i) w)) [0..<4]"

lemma length_le_bytes [simp]: "length (le_bytes w) = 8"
  by (simp add: le_bytes_def del: upt_rec_numeral)

lemma length_le_int_bytes [simp]: "length (le_int_bytes w) = 4"
  by (simp add: le_int_bytes_def del: upt_rec_numeral)

lemma low_byte: "ucast (ucast x :: byte) = (take_bit 8 x :: 64 word)"
  by (rule bit_word_eqI) (auto simp: bit_simps)

lemma low_byte_int: "(ucast (ucast x :: byte) :: 64 word) = ucast (take_bit 8 (x :: 32 word))"
  by (rule bit_word_eqI) (auto simp: bit_simps)

text \<open>Consecutive bytes of a word, put together, are the corresponding bits of the word.\<close>

lemma le_word_slice:
  "le_word (map (\<lambda>i. ucast (drop_bit (8 * i) w)) [m..<m + k]) = take_bit (8 * k) (drop_bit (8 * m) w)"
proof (induction k arbitrary: m)
  case 0
  then show ?case by simp
next
  case (Suc k)
  have "[m..<m + Suc k] = m # [Suc m..<Suc m + k]" by (simp add: upt_conv_Cons)
  then have "le_word (map (\<lambda>i. ucast (drop_bit (8 * i) w)) [m..<m + Suc k]) =
      take_bit 8 (drop_bit (8 * m) w) OR push_bit 8 (take_bit (8 * k) (drop_bit (8 * Suc m) w))"
    using Suc.IH [of "Suc m"] by (simp add: low_byte)
  also have "\<dots> = take_bit (8 * Suc k) (drop_bit (8 * m) w)"
    by (rule bit_word_eqI) (auto simp: bit_simps algebra_simps)
  finally show ?case .
qed

lemma le_word_le_bytes [simp]: "le_word (le_bytes w) = w"
proof -
  have "le_word (le_bytes w) = take_bit 64 w"
    using le_word_slice [of w 0 8] by (simp add: le_bytes_def del: upt_rec_numeral)
  then show ?thesis by (simp add: take_bit_word_eq_self)
qed

lemma le_word_append: "le_word (as @ bs) = le_word as OR push_bit (8 * length as) (le_word bs)"
  by (induction as) (auto simp: push_bit_or or.assoc mult.commute)

lemma le_word_int: "le_word (le_int_bytes w) = ucast w"
proof -
  have "(ucast (drop_bit (8 * i) w) :: byte) = ucast (drop_bit (8 * i) (ucast w :: 64 word))" if "i < 4" for i
    using that by (intro bit_word_eqI) (auto simp: bit_simps)
  then have "le_int_bytes w = map (\<lambda>i. ucast (drop_bit (8 * i) (ucast w :: 64 word))) [0..<0 + 4]"
    by (simp add: le_int_bytes_def del: upt_rec_numeral)
  then have "le_word (le_int_bytes w) = take_bit (8 * 4) (drop_bit (8 * 0) (ucast w))"
    by (simp only: le_word_slice)
  also have "\<dots> = ucast w"
    by (rule bit_word_eqI) (auto simp: bit_simps dest: bit_imp_le_length)
  finally show ?thesis .
qed

lemma le_word_bound: "take_bit (8 * length bs) (le_word bs) = le_word bs"
proof (induction bs)
  case Nil
  then show ?case by simp
next
  case (Cons b bs)
  have "take_bit (8 * length (b # bs)) (le_word (b # bs)) = ucast b OR push_bit 8 (take_bit (8 * length bs) (le_word bs))"
    by (rule bit_word_eqI) (auto simp: bit_simps dest: bit_imp_le_length)
  then show ?case using Cons.IH by simp
qed

text \<open>The upper half of a double word composed of two halves.\<close>

lemma le_word_half:
  assumes "length bs = 4"
  shows "drop_bit 32 (le_word bs) = 0" and "drop_bit 32 (push_bit 32 (le_word bs)) = le_word bs"
proof -
  have b: "take_bit 32 (le_word bs) = le_word bs" using le_word_bound [of bs] assms by simp
  have "drop_bit 32 (take_bit 32 (le_word bs)) = 0" by (simp add: drop_bit_take_bit)
  then show "drop_bit 32 (le_word bs) = 0" by (simp only: b)
  have "drop_bit 32 (push_bit 32 (le_word bs)) = take_bit 32 (le_word bs)"
    by (rule bit_word_eqI) (auto simp: bit_simps)
  then show "drop_bit 32 (push_bit 32 (le_word bs)) = le_word bs" by (simp only: b)
qed

lemma push_bit_eq_0_bound: "take_bit n x = (x :: 64 word) \<Longrightarrow> n + m \<le> 64 \<Longrightarrow> push_bit m x = 0 \<longleftrightarrow> x = 0"
proof -
  assume b: "take_bit n x = x" "n + m \<le> 64"
  show "push_bit m x = 0 \<longleftrightarrow> x = 0"
  proof
    assume z: "push_bit m x = 0"
    have "\<not> bit x i" for i
    proof
      assume i: "bit x i"
      then have "i < n" using b(1) bit_take_bit_iff [of n x i] by simp
      then have "bit (push_bit m x) (i + m)" using i b(2) by (simp add: bit_simps)
      then show False using z by simp
    qed
    then show "x = 0" by (intro bit_word_eqI) simp
  qed simp
qed

lemma le_word_eq_0_iff: "length bs \<le> 8 \<Longrightarrow> le_word bs = 0 \<longleftrightarrow> (\<forall>b\<in>set bs. b = 0)"
proof (induction bs)
  case Nil
  then show ?case by simp
next
  case (Cons b bs)
  have "push_bit 8 (le_word bs) = 0 \<longleftrightarrow> le_word bs = 0"
    using push_bit_eq_0_bound [OF le_word_bound [of bs]] Cons.prems by simp
  moreover have "(ucast b :: 64 word) = 0 \<longleftrightarrow> b = 0"
  proof
    assume "(ucast b :: 64 word) = 0"
    then have "\<not> bit (ucast b :: 64 word) n" for n by simp
    then show "b = 0" by (intro bit_word_eqI) (auto simp: bit_simps dest: bit_imp_le_length)
  qed simp
  ultimately show ?case using Cons by (simp add: or_eq_0_iff)
qed

section \<open>Transfers to and from a user process\<close>

text \<open>
  \<open>store_bytes a bs f\<close> is the memory \<open>f\<close> with the bytes \<open>bs\<close> stored from address \<open>a\<close> on, the
  addresses wrapping around at 64 bits; \<open>load_bytes\<close> reads \<open>n\<close> bytes.
\<close>

definition store_bytes :: "uaddr \<Rightarrow> byte list \<Rightarrow> (uaddr \<Rightarrow> byte) \<Rightarrow> uaddr \<Rightarrow> byte" where
  "store_bytes a bs f x = (let i = unat (x - a) in if i < length bs then bs ! i else f x)"

definition load_bytes :: "uaddr \<Rightarrow> nat \<Rightarrow> (uaddr \<Rightarrow> byte) \<Rightarrow> byte list" where
  "load_bytes a n f = map (\<lambda>i. f (a + of_nat i)) [0..<n]"

definition span_ok :: "(uaddr \<Rightarrow> bool) \<Rightarrow> uaddr \<Rightarrow> nat \<Rightarrow> bool" where
  "span_ok ok a n \<longleftrightarrow> (\<forall>i<n. ok (a + of_nat i))"

lemma unat_small: "i < 2 ^ 64 \<Longrightarrow> unat (of_nat i :: uaddr) = i"
  by (simp add: unsigned_of_nat take_bit_nat_eq_self)

lemma unat_offset [simp]: "i < 2 ^ 64 \<Longrightarrow> unat (a + of_nat i - a :: uaddr) = i"
  using unat_small by simp

lemma load_store_same: "length bs \<le> 8 \<Longrightarrow> load_bytes a (length bs) (store_bytes a bs f) = bs"
proof (rule nth_equalityI)
  show "length (load_bytes a (length bs) (store_bytes a bs f)) = length bs" by (simp add: load_bytes_def)
next
  fix i
  assume "length bs \<le> 8" and "i < length (load_bytes a (length bs) (store_bytes a bs f))"
  then have i: "i < length bs" "i < 2 ^ 64" by (simp_all add: load_bytes_def)
  then show "load_bytes a (length bs) (store_bytes a bs f) ! i = bs ! i"
    unfolding store_bytes_def load_bytes_def Let_def by (simp add: unat_small)
qed

lemma load_bytes_append: "load_bytes a (n + m) f = load_bytes a n f @ load_bytes (a + of_nat n) m f"
  unfolding load_bytes_def upt_add_eq_append [OF le0] map_append
  by (auto simp: list_eq_iff_nth_eq nth_append add.assoc simp flip: of_nat_add)

text \<open>
  The transfer functions return the number of bytes that could not be copied. \<open>ubyte\<close> is the
  memory of the process, \<open>uok\<close> its mapped addresses; \<open>user_store_op\<close> is a store the process
  itself executes.
\<close>

record 'k uaccess_ops = "'k chrdev_ops" +
  copy_to_user_op :: "uaddr \<Rightarrow> byte list \<Rightarrow> 'k \<Rightarrow> nat \<times> 'k"
  copy_from_user_op :: "uaddr \<Rightarrow> nat \<Rightarrow> 'k \<Rightarrow> nat \<times> byte list"
  user_store_op :: "uaddr \<Rightarrow> byte list \<Rightarrow> 'k \<Rightarrow> 'k"
  ubyte :: "'k \<Rightarrow> uaddr \<Rightarrow> byte"
  uok :: "'k \<Rightarrow> uaddr \<Rightarrow> bool"

locale uaccess_api = chrdev_api U for U :: "('k, 'y) uaccess_ops_scheme" +
  assumes to_user: "copy_to_user_op U a bs k = (r, k') \<Longrightarrow>
      (r = 0 \<longleftrightarrow> span_ok (uok U k) a (length bs)) \<and>
      ubyte U k' = store_bytes a (take (length bs - r) bs) (ubyte U k)"
    and to_user_frame: "copy_to_user_op U a bs k = (r, k') \<Longrightarrow> uok U k' = uok U k \<and> chrdevs U k' = chrdevs U k"
    and from_user: "copy_from_user_op U a n k = (r, bs) \<Longrightarrow>
      (r = 0 \<longleftrightarrow> span_ok (uok U k) a n) \<and> (r = 0 \<longrightarrow> bs = load_bytes a n (ubyte U k))"
    and user_store: "span_ok (uok U k) a (length bs) \<Longrightarrow>
      ubyte U (user_store_op U a bs k) = store_bytes a bs (ubyte U k)"
    and user_store_frame: "uok U (user_store_op U a bs k) = uok U k" "chrdevs U (user_store_op U a bs k) = chrdevs U k"

end
