(* ===== verification/Container_Of.thy ===== *)
theory Container_Of
  imports Ref_Kernel Chrdev_Api
begin

text \<open>
  The module \<open>container_of/code.c\<close>. The macro computes the address of a structure from that of
  a member; the module applies it to a variable that is not a member of any structure. The
  memory is an array of bytes addressed by 64-bit words, with the layout of \<open>struct kitten\<close> and
  the little-endian representation of its members, so that what the code reads and overwrites
  is determined. The addresses of the local variables are arguments.
\<close>

section \<open>Memory\<close>

definition load_ptr :: "uaddr \<Rightarrow> (uaddr \<Rightarrow> byte) \<Rightarrow> uaddr" where
  "load_ptr a f = le_word (load_bytes a 8 f)"

definition load_int :: "uaddr \<Rightarrow> (uaddr \<Rightarrow> byte) \<Rightarrow> int" where
  "load_int a f = sint (ucast (le_word (load_bytes a 4 f)) :: 32 word)"

text \<open>The string at an address, up to its terminating zero, in a buffer of \<open>n\<close> bytes.\<close>

definition load_str :: "nat \<Rightarrow> uaddr \<Rightarrow> (uaddr \<Rightarrow> byte) \<Rightarrow> string" where
  "load_str n a f = map (\<lambda>b. char_of (unat b)) (takeWhile (\<lambda>b. b \<noteq> 0) (load_bytes a n f))"

definition str_bytes :: "string \<Rightarrow> byte list" where
  "str_bytes cs = map (\<lambda>c. of_nat (of_char c)) cs @ [0]"

section \<open>The macro and the module\<close>

definition container_of :: "uaddr \<Rightarrow> uaddr \<Rightarrow> uaddr" where
  "container_of ptr offset = ptr - offset"

text \<open>The layout of \<open>struct kitten\<close>: the pointer is aligned to eight bytes.\<close>

abbreviation (input) off_furry :: uaddr where "off_furry \<equiv> 0"
abbreviation (input) off_name :: uaddr where "off_name \<equiv> 8"
abbreviation (input) YES :: "32 word" where "YES \<equiv> 1"

record 'k kitten = "'k env" +
  bytes :: "uaddr \<Rightarrow> byte"

definition store :: "uaddr \<Rightarrow> byte list \<Rightarrow> 'k kitten \<Rightarrow> 'k kitten" where
  "store a bs s = s\<lparr>bytes := store_bytes a bs (bytes s)\<rparr>"

definition kitten_start :: "('k, 'y) slab_ops_scheme \<Rightarrow> uaddr \<Rightarrow> uaddr \<Rightarrow> 'k kitten \<Rightarrow> int \<times> 'k kitten" where
  "kitten_start K tom pname s =
     (let s = store (tom + off_furry) (le_int_bytes YES) s;
          (p, s) = kmalloc K 25 s;
          s = store (tom + off_name) (le_bytes (of_nat p)) s;
          s = store (load_ptr (tom + off_name) (bytes s)) (str_bytes ''tom_cat'') (deref K p s);
          s = pr_info ''name = %s'' [Str (load_str 25 (load_ptr (tom + off_name) (bytes s)) (bytes s))] s;
          s = store pname (le_bytes (load_ptr (tom + off_name) (bytes s))) s;
          s = pr_info ''name2 = %s'' [Str (load_str 25 (load_ptr pname (bytes s)) (bytes s))] s;
          new_kitten = container_of pname off_name;
          s = pr_info ''Name3 = %s'' [Str (load_str 25 (load_ptr (new_kitten + off_name) (bytes s)) (bytes s))] s;
          s = pr_info ''Furry0 = %d'' [Num (load_int (tom + off_furry) (bytes s))] s;
          s = pr_info ''Furry = %d'' [Num (load_int (new_kitten + off_furry) (bytes s))] s;
          s = store (new_kitten + off_furry) (le_int_bytes 100) s;
          s = pr_info ''Furry1 = %d'' [Num (load_int (new_kitten + off_furry) (bytes s))] s
      in (0, s))"

definition kitten_stops :: "'k kitten \<Rightarrow> 'k kitten" where
  "kitten_stops s = s"

section \<open>Loads and stores\<close>

text \<open>Two ranges of addresses that do not overlap.\<close>

definition apart :: "uaddr \<Rightarrow> nat \<Rightarrow> uaddr \<Rightarrow> nat \<Rightarrow> bool" where
  "apart a n b m \<longleftrightarrow> (\<forall>i<n. \<forall>j<m. a + of_nat i \<noteq> b + of_nat j)"

lemma apart_sym: "apart a n b m \<Longrightarrow> apart b m a n"
  unfolding apart_def by metis

lemma load_store_other:
  assumes "apart a (length bs) b m"
  shows "load_bytes b m (store_bytes a bs f) = load_bytes b m f"
proof -
  have "store_bytes a bs f (b + of_nat j) = f (b + of_nat j)" if "j < m" for j
  proof -
    have "\<not> unat (b + of_nat j - a) < length bs"
    proof
      assume lt: "unat (b + of_nat j - a) < length bs"
      have "a + of_nat (unat (b + of_nat j - a)) = b + of_nat j" by simp
      then show False using assms lt that unfolding apart_def by metis
    qed
    then show ?thesis by (simp add: store_bytes_def)
  qed
  then show ?thesis by (simp add: load_bytes_def)
qed

lemma load_ptr_store: "load_ptr a (store_bytes a (le_bytes w) f) = w"
  using load_store_same [of "le_bytes w" a f] by (simp add: load_ptr_def)

lemma load_ptr_other: "apart a (length bs) b 8 \<Longrightarrow> load_ptr b (store_bytes a bs f) = load_ptr b f"
  by (simp add: load_ptr_def load_store_other)

lemma load_int_store: "load_int a (store_bytes a (le_int_bytes w) f) = sint w"
proof -
  have "(ucast (ucast w :: 64 word) :: 32 word) = w" by (rule bit_word_eqI) (auto simp: bit_simps)
  then show ?thesis
    using load_store_same [of "le_int_bytes w" a f] by (simp add: load_int_def le_word_int)
qed

lemma load_int_other: "apart a (length bs) b 4 \<Longrightarrow> load_int b (store_bytes a bs f) = load_int b f"
  by (simp add: load_int_def load_store_other)

lemma load_str_other: "apart a (length bs) b n \<Longrightarrow> load_str n b (store_bytes a bs f) = load_str n b f"
  by (simp add: load_str_def load_store_other)

lemma length_str_bytes: "length (str_bytes cs) = Suc (length cs)"
  by (simp add: str_bytes_def)

lemma length_tom_cat [simp]: "length (str_bytes ''tom_cat'') = 8"
  by (simp add: length_str_bytes)

text \<open>Parts of ranges that are apart are apart; so are the two members of a structure.\<close>

lemma apart_sub:
  assumes "apart a n b m" and "i + n' \<le> n" and "j + m' \<le> m"
  shows "apart (a + of_nat i) n' (b + of_nat j) m'"
  unfolding apart_def
proof (intro allI impI)
  fix i' j'
  assume "i' < n'" and "j' < m'"
  then have "i + i' < n" "j + j' < m" using assms(2,3) by simp_all
  then have "a + of_nat (i + i') \<noteq> b + of_nat (j + j')" using assms(1) unfolding apart_def by blast
  then show "a + of_nat i + of_nat i' \<noteq> b + of_nat j + of_nat j'" by (simp add: add.assoc)
qed

lemma apart_members:
  assumes "n \<le> d" and "d + m \<le> 2 ^ 64"
  shows "apart a n (a + of_nat d) m"
  unfolding apart_def
proof (intro allI impI notI)
  fix i j
  assume ij: "i < n" "j < m" and eq: "a + of_nat i = a + of_nat d + of_nat j"
  then have "(of_nat i :: uaddr) = of_nat (d + j)" by (simp add: add.assoc)
  then have "i = d + j" using unat_small [of i] unat_small [of "d + j"] ij assms by simp
  then show False using ij assms by simp
qed

lemma load_str_store:
  assumes "length cs \<le> 7" and "CHR 0x00 \<notin> set cs" and "length cs < n"
  shows "load_str n a (store_bytes a (str_bytes cs) f) = cs"
proof -
  define m where "m = n - Suc (length cs)"
  have n: "n = length (str_bytes cs) + m" using assms(3) by (simp add: m_def length_str_bytes)
  have "load_bytes a n (store_bytes a (str_bytes cs) f) =
      str_bytes cs @ load_bytes (a + of_nat (length (str_bytes cs))) m (store_bytes a (str_bytes cs) f)"
    unfolding n load_bytes_append using load_store_same [of "str_bytes cs" a f] assms(1) by (simp add: length_str_bytes)
  moreover have "unat (of_nat (of_char c) :: byte) = of_char c" for c :: char
    using nat_of_char_less_256 [of c] by (simp add: unsigned_of_nat take_bit_nat_eq_self)
  moreover have "(of_nat (of_char c) :: byte) \<noteq> 0" if "c \<in> set cs" for c
  proof
    assume "(of_nat (of_char c) :: byte) = 0"
    then have "unat (of_nat (of_char c) :: byte) = 0" by simp
    then have "(of_char c :: nat) = 0" using \<open>\<And>c. unat (of_nat (of_char c) :: byte) = of_char c\<close> by simp
    then have "c = char_of (0 :: nat)" by (metis char_of_char)
    then show False using that assms(2) by (simp add: char_of_def)
  qed
  then have "takeWhile (\<lambda>b. b \<noteq> 0) (map (\<lambda>c. of_nat (of_char c) :: byte) cs @ 0 # ys) = map (\<lambda>c. of_nat (of_char c)) cs" for ys
    by (subst takeWhile_append2) auto
  ultimately show ?thesis by (simp add: load_str_def str_bytes_def comp_def)
qed

section \<open>What start does to the memory\<close>

text \<open>
  The layout the theorems assume: the structure \<open>tom\<close>, the variable \<open>pname\<close> and the buffer at
  \<open>P\<close> do not overlap.
\<close>

definition kitten_layout :: "uaddr \<Rightarrow> uaddr \<Rightarrow> uaddr \<Rightarrow> bool" where
  "kitten_layout tom pname P \<longleftrightarrow> apart tom 16 pname 8 \<and> apart P 25 tom 16 \<and> apart P 25 pname 8"

text \<open>The memory before the store through the pointer that the macro computed.\<close>

definition kitten_mem :: "uaddr \<Rightarrow> uaddr \<Rightarrow> uaddr \<Rightarrow> (uaddr \<Rightarrow> byte) \<Rightarrow> uaddr \<Rightarrow> byte" where
  "kitten_mem tom pname P f =
     store_bytes pname (le_bytes P) (store_bytes P (str_bytes ''tom_cat'')
       (store_bytes (tom + 8) (le_bytes P) (store_bytes tom (le_int_bytes 1) f)))"

lemma kitten_apart:
  assumes "kitten_layout tom pname P"
  shows "apart (tom + 8) 8 tom 4" "apart P 8 (tom + 8) 8" "apart P 8 tom 4" "apart pname 8 tom 4"
    "apart pname 8 (tom + 8) 8" "apart pname 8 P 25"
proof -
  note A = assms [unfolded kitten_layout_def]
  show "apart (tom + 8) 8 tom 4"
    using apart_sym [OF apart_members [of 4 8 8 tom]] by simp
  show "apart P 8 (tom + 8) 8" using apart_sub [of P 25 tom 16 0 8 8 8] A by simp
  show "apart P 8 tom 4" using apart_sub [of P 25 tom 16 0 8 0 4] A by simp
  show "apart pname 8 tom 4" using apart_sub [of tom 16 pname 8 0 4 0 8] A by (simp add: apart_sym)
  show "apart pname 8 (tom + 8) 8" using apart_sub [of tom 16 pname 8 8 8 0 8] A by (simp add: apart_sym)
  show "apart pname 8 P 25" using A by (simp add: apart_sym)
qed

lemma kitten_mem_loads:
  assumes "kitten_layout tom pname P"
  shows "load_ptr (tom + 8) (kitten_mem tom pname P f) = P" "load_ptr pname (kitten_mem tom pname P f) = P"
    "load_str 25 P (kitten_mem tom pname P f) = ''tom_cat''" "load_int tom (kitten_mem tom pname P f) = 1"
  using kitten_apart [OF assms]
  by (simp_all add: kitten_mem_def load_ptr_store load_ptr_other load_str_other load_str_store load_int_other load_int_store)

context slab_api
begin

text \<open>The run with memory: the log and the state, for any layout.\<close>

lemma kitten_start_run:
  assumes alloc: "kmalloc_op K 25 (kern s) = (p, k)" "p \<noteq> NULL" and lay: "kitten_layout tom pname (of_nat p)"
  defines "f \<equiv> kitten_mem tom pname (of_nat p) (bytes s)"
  shows "kitten_start K tom pname s = (0, s\<lparr>kern := k, bytes := store_bytes (pname - 8) (le_int_bytes 100) f,
    klog := klog s @ [Line KERN_INFO ''name = %s'' [Str ''tom_cat''], Line KERN_INFO ''name2 = %s'' [Str ''tom_cat''],
      Line KERN_INFO ''Name3 = %s'' [Str ''tom_cat''], Line KERN_INFO ''Furry0 = %d'' [Num 1],
      Line KERN_INFO ''Furry = %d'' [Num (load_int (pname - 8) f)], Line KERN_INFO ''Furry1 = %d'' [Num 100]]\<rparr>)"
proof -
  have v: "p \<in> valid K k" using kmalloc_allocated [OF alloc] by (simp add: valid_def)
  note lo = kitten_mem_loads [OF lay, of "bytes s", folded f_def]
  note ap = kitten_apart [OF lay]
  let ?P = "of_nat p :: uaddr"
  define f2 where "f2 = store_bytes (tom + 8) (le_bytes ?P) (store_bytes tom (le_int_bytes 1) (bytes s))"
  define f3 where "f3 = store_bytes ?P (str_bytes ''tom_cat'') f2"
  have f: "f = store_bytes pname (le_bytes ?P) f3" by (simp add: f_def kitten_mem_def f3_def f2_def)
  have l2: "load_ptr (tom + 8) f2 = ?P" by (simp add: f2_def load_ptr_store)
  have l3: "load_ptr (tom + 8) f3 = ?P" "load_str 25 ?P f3 = ''tom_cat''"
    using ap(2) l2 by (simp_all add: f3_def load_ptr_other load_str_store)
  have "sint (100 :: 32 word) = 100" by simp
  then have l5: "load_int (pname - 8) (store_bytes (pname - 8) (le_int_bytes 100) f) = 100"
    by (simp only: load_int_store)
  show ?thesis
    using v alloc lo l5
    by (simp add: kitten_start_def kmalloc_def store_def container_of_def printk_def f2_def [symmetric] l2
        f3_def [symmetric] l3 f [symmetric]) (simp add: Let_def)
qed

lemma kitten_start_null:
  assumes "kmalloc_op K 25 (kern s) = (NULL, k)"
  shows "NullDeref \<in> set (faults (snd (kitten_start K tom pname s)))"
  using assms by (simp add: kitten_start_def kmalloc_def store_def deref_def env_defs Let_def)

end

section \<open>A run on the reference kernel\<close>

definition kitten_boot :: "ref_kernel kitten" where
  "kitten_boot = \<lparr>kern = ref_boot 1, klog = [], faults = [], bytes = (\<lambda>_. 7)\<rparr>"

lemma kitten_boot_alloc:
  "kmalloc_op ref_ops 25 (kern kitten_boot) = (100, (ref_boot 0)\<lparr>objs := [100]\<rparr>)"
  by (simp add: kitten_boot_def ref_eval)

text \<open>The structure at 4096; the variable right behind it, or further up.\<close>

lemma kitten_boot_layout: "kitten_layout 4096 4112 (of_nat 100)" "kitten_layout 4096 4160 (of_nat 100)"
  using apart_members [of 25 3996 16 "100 :: uaddr"] apart_members [of 25 4012 8 "100 :: uaddr"]
    apart_members [of 25 4060 8 "100 :: uaddr"] apart_members [of 16 16 8 "4096 :: uaddr"]
    apart_members [of 16 64 8 "4096 :: uaddr"]
  by (simp_all add: kitten_layout_def)

section \<open>Properties\<close>

text \<open>
  With memory for the name, \<open>start\<close> returns 0 and prints the name three times, the last time
  through the pointer \<open>container_of\<close> computed from a variable that is not inside a structure. The
  member \<open>furry\<close> it then prints through that pointer is whatever the four bytes in front of the
  variable held when the module was loaded, and storing to it overwrites them with 100; the
  structure \<open>tom\<close> is not changed. The memory of the name stays allocated.
\<close>

theorem kitten_start_correct:
  assumes "slab_api K" and "kmalloc_op K 25 (kern s) = (p, k)" and "p \<noteq> NULL"
    and "kitten_layout tom pname (of_nat p)" and "apart (of_nat p) 25 (pname - 8) 4" and "apart tom 16 (pname - 8) 4"
  shows "\<exists>s'. kitten_start K tom pname s = (0, s') \<and> faults s' = faults s \<and>
    allocated K (kern s') = insert p (allocated K (kern s)) \<and>
    klog s' = klog s @ [Line KERN_INFO ''name = %s'' [Str ''tom_cat''], Line KERN_INFO ''name2 = %s'' [Str ''tom_cat''],
      Line KERN_INFO ''Name3 = %s'' [Str ''tom_cat''], Line KERN_INFO ''Furry0 = %d'' [Num 1],
      Line KERN_INFO ''Furry = %d'' [Num (load_int (pname - 8) (bytes s))], Line KERN_INFO ''Furry1 = %d'' [Num 100]] \<and>
    load_int (container_of pname 8) (bytes s') = 100 \<and>
    load_int tom (bytes s') = 1 \<and> load_ptr (tom + 8) (bytes s') = of_nat p"
proof -
  note run = slab_api.kitten_start_run [OF assms(1-4)]
  define f where "f = kitten_mem tom pname (of_nat p) (bytes s)"
  have "apart (pname - 8) 4 pname 8" using apart_members [of 4 8 8 "pname - 8"] by simp
  then have A: "apart pname 8 (pname - 8) 4" "apart (of_nat p) 8 (pname - 8) 4" "apart (tom + 8) 8 (pname - 8) 4"
    "apart tom 4 (pname - 8) 4"
    using apart_sym apart_sub [OF assms(5), of 0 8 0 4] apart_sub [OF assms(6), of 8 8 0 4]
      apart_sub [OF assms(6), of 0 4 0 4] by simp_all
  then have garbage: "load_int (pname - 8) f = load_int (pname - 8) (bytes s)"
    by (simp add: f_def kitten_mem_def load_int_other)
  note lo = kitten_mem_loads [OF assms(4), of "bytes s", folded f_def]
  have "load_int tom (store_bytes (pname - 8) (le_int_bytes 100) f) = 1"
    "load_ptr (tom + 8) (store_bytes (pname - 8) (le_int_bytes 100) f) = of_nat p"
    using A apart_sym lo by (simp_all add: load_int_other load_ptr_other)
  moreover have "load_int (pname - 8) (store_bytes (pname - 8) (le_int_bytes 100) f) = 100"
    by (simp add: load_int_store)
  moreover have "allocated K k = insert p (allocated K (kern s))"
    by (rule slab_api.kmalloc_allocated [OF assms(1-3)])
  ultimately show ?thesis using run garbage by (simp add: f_def [symmetric] container_of_def)
qed

theorem kitten_start_correct_witness:
  "\<exists>s'. kitten_start ref_ops 4096 4160 kitten_boot = (0, s') \<and>
     Line KERN_INFO ''Furry = %d'' [Num 117901063] \<in> set (klog s') \<and> ref_allocated (kern s') = {100}"
proof -
  have ap: "apart (of_nat 100) 25 (4160 - 8) 4" "apart 4096 16 (4160 - 8) 4"
    using apart_members [of 25 4052 4 "100 :: uaddr"] apart_members [of 16 56 4 "4096 :: uaddr"] by simp_all
  have "load_bytes (4160 - 8) 4 (bytes kitten_boot) = [7, 7, 7, 7]"
    by (simp add: load_bytes_def kitten_boot_def upt_rec)
  then have "load_int (4160 - 8) (bytes kitten_boot) = 117901063"
    by (simp add: load_int_def push_bit_eq_mult)
  moreover have "allocated ref_ops (kern kitten_boot) = {}" by (simp add: kitten_boot_def ref_eval)
  ultimately show ?thesis
    using kitten_start_correct [OF ref_slab.slab_api_axioms kitten_boot_alloc _ kitten_boot_layout(2) ap]
    by (auto simp: ref_ops_simps)
qed

text \<open>
  C38. When the compiler places \<open>pname\<close> right behind \<open>tom\<close>, the four bytes in front of it are the low
  half of \<open>tom.name\<close>: the assignment to \<open>furry\<close> through the computed pointer destroys that
  pointer, replacing its low half by 100.
\<close>

theorem kitten_start_corrupts_name:
  assumes "slab_api K" and "kmalloc_op K 25 (kern s) = (p, k)" and "p \<noteq> NULL"
    and "kitten_layout tom (tom + 16) (of_nat p)" and "kitten_start K tom (tom + 16) s = (r, s')"
  shows "load_ptr (tom + 8) (bytes s') = 100 OR push_bit 32 (drop_bit 32 (of_nat p))"
proof -
  define f where "f = kitten_mem tom (tom + 16) (of_nat p) (bytes s)"
  have e: "tom + 16 - 8 = tom + 8" by simp
  have "bytes (snd (kitten_start K tom (tom + 16) s)) = store_bytes (tom + 16 - 8) (le_int_bytes 100) f"
    unfolding f_def slab_api.kitten_start_run [OF assms(1-4)] snd_conv by (simp del: arith_simps)
  then have b: "bytes s' = store_bytes (tom + 8) (le_int_bytes 100) f"
    unfolding assms(5) snd_conv e .
  have halves: "load_bytes (tom + 8) 8 g = load_bytes (tom + 8) 4 g @ load_bytes (tom + 12) 4 g" for g
    using load_bytes_append [of "tom + 8" 4 4 g] by (simp add: add.assoc)
  have hi: "load_bytes (tom + 12) 4 (bytes s') = load_bytes (tom + 12) 4 f"
    unfolding b using apart_members [of 4 4 4 "tom + 8"] by (intro load_store_other) (simp add: add.assoc)
  have lo: "load_bytes (tom + 8) 4 (bytes s') = le_int_bytes 100"
    unfolding b using load_store_same [of "le_int_bytes 100" "tom + 8" f] by simp
  have len: "length (load_bytes a 4 g) = 4" for a g by (simp add: load_bytes_def del: upt_rec_numeral)
  have P: "of_nat p = le_word (load_bytes (tom + 8) 4 f) OR push_bit 32 (le_word (load_bytes (tom + 12) 4 f))"
    using kitten_mem_loads(1) [OF assms(4), of "bytes s"]
    by (simp add: load_ptr_def f_def [symmetric] halves le_word_append len)
  have "drop_bit 32 (of_nat p) = le_word (load_bytes (tom + 12) 4 f)"
    by (simp add: P drop_bit_or le_word_half len)
  then show ?thesis by (simp add: load_ptr_def halves lo hi le_word_append le_word_int len)
qed

theorem kitten_start_corrupts_name_witness:
  "load_ptr 4104 (bytes (snd (kitten_start ref_ops 4096 4112 kitten_boot))) = 100"
proof -
  obtain r s' where run: "kitten_start ref_ops 4096 (4096 + 16) kitten_boot = (r, s')" by fastforce
  have "kitten_layout 4096 (4096 + 16) (of_nat 100)" using kitten_boot_layout(1) by simp
  then have "load_ptr (4096 + 8) (bytes s') = 100 OR push_bit 32 (drop_bit 32 (of_nat 100))"
    using run by (intro kitten_start_corrupts_name [OF ref_slab.slab_api_axioms kitten_boot_alloc]) simp_all
  then show ?thesis using run by (simp add: drop_bit_eq_div)
qed

end
