(* ===== verification/Vfs.thy ===== *)
theory Vfs
  imports Kernel_Api Chrdev_Api
begin

text \<open>
  The way from a system call to a driver. A driver fills a table \<open>struct file_operations\<close> with its
  functions and registers the table under a major number; \<open>open\<close> finds the table by the number of the
  device node, and the calls on the open file go through its entries. The entries keep the C type of
  the function they hold, since the two drivers are compiled against kernels whose tables differ.
\<close>

section \<open>C function types\<close>

datatype ctype = C_int | C_uint | C_long | C_ulong | Ptr_inode | Ptr_file | Ptr_vma

text \<open>The result type and the types of the arguments.\<close>

type_synonym csig = "ctype \<times> ctype list"

record vm_area_struct =
  vm_start :: "64 word"
  vm_end :: "64 word"
  vm_pgoff :: "64 word"

text \<open>
  A function of a driver, by its C type; \<open>'s\<close> is the state it runs in. No driver looks at the \<open>inode\<close>
  or the \<open>file\<close> it is given.
\<close>

datatype 's code =
    Fn_inode_file "'s \<Rightarrow> int \<times> 's"
  | Fn_file_vma "vm_area_struct \<Rightarrow> 's \<Rightarrow> int \<times> 's"
  | Fn_inode_file_cmd "32 word \<Rightarrow> uaddr \<Rightarrow> 's \<Rightarrow> int \<times> 's"
  | Fn_file_cmd "32 word \<Rightarrow> uaddr \<Rightarrow> 's \<Rightarrow> int \<times> 's"

fun c_type :: "'s code \<Rightarrow> csig" where
  "c_type (Fn_inode_file _) = (C_int, [Ptr_inode, Ptr_file])"
| "c_type (Fn_file_vma _) = (C_int, [Ptr_file, Ptr_vma])"
| "c_type (Fn_inode_file_cmd _) = (C_int, [Ptr_inode, Ptr_file, C_uint, C_ulong])"
| "c_type (Fn_file_cmd _) = (C_long, [Ptr_file, C_uint, C_ulong])"

section \<open>Tables of operations\<close>

datatype slot = S_open | S_release | S_mmap | S_ioctl | S_unlocked_ioctl

text \<open>\<open>f_owner\<close>: whether the table names its module as the owner, which keeps the module loaded while a file is open.\<close>

record 's file_operations =
  f_owner :: bool
  f_slots :: "slot \<rightharpoonup> 's code"

text \<open>
  The members of the table are declared by the kernel; \<open>H\<close> gives their types. \<open>fs_header\<close> states the
  declarations of \<open>linux/fs.h\<close> in the kernels that have the member.
\<close>

locale fs_header =
  fixes H :: "slot \<Rightarrow> csig"
  assumes open_type: "H S_open = (C_int, [Ptr_inode, Ptr_file])"
    and release_type: "H S_release = (C_int, [Ptr_inode, Ptr_file])"
    and mmap_type: "H S_mmap = (C_int, [Ptr_file, Ptr_vma])"
    and ioctl_type: "H S_ioctl = (C_int, [Ptr_inode, Ptr_file, C_uint, C_ulong])"
    and unlocked_ioctl_type: "H S_unlocked_ioctl = (C_long, [Ptr_file, C_uint, C_ulong])"

definition fops_typed :: "(slot \<Rightarrow> csig) \<Rightarrow> 's file_operations \<Rightarrow> bool" where
  "fops_typed H f \<longleftrightarrow> (\<forall>slot c. f_slots f slot = Some c \<longrightarrow> c_type c = H slot)"

text \<open>The version of a kernel as a number, \<open>LINUX_VERSION_CODE\<close>.\<close>

definition KERNEL_VERSION :: "nat \<Rightarrow> nat \<Rightarrow> nat \<Rightarrow> nat" where
  "KERNEL_VERSION a b c = a * 2 ^ 16 + b * 2 ^ 8 + c"

section \<open>Calls through a table\<close>

text \<open>A call through a pointer of another type than the function's is undefined; it is a fault.\<close>

definition call_inode_file :: "('k, 'z) env_scheme code \<Rightarrow> ('k, 'z) env_scheme \<Rightarrow> int \<times> ('k, 'z) env_scheme" where
  "call_inode_file c s = (case c of Fn_inode_file f \<Rightarrow> f s | _ \<Rightarrow> (-1, fault BadCall s))"

definition call_file_vma ::
  "('k, 'z) env_scheme code \<Rightarrow> vm_area_struct \<Rightarrow> ('k, 'z) env_scheme \<Rightarrow> int \<times> ('k, 'z) env_scheme" where
  "call_file_vma c vma s = (case c of Fn_file_vma f \<Rightarrow> f vma s | _ \<Rightarrow> (-1, fault BadCall s))"

definition call_inode_file_cmd ::
  "('k, 'z) env_scheme code \<Rightarrow> 32 word \<Rightarrow> uaddr \<Rightarrow> ('k, 'z) env_scheme \<Rightarrow> int \<times> ('k, 'z) env_scheme" where
  "call_inode_file_cmd c cmd arg s = (case c of Fn_inode_file_cmd f \<Rightarrow> f cmd arg s | _ \<Rightarrow> (-1, fault BadCall s))"

definition call_file_cmd ::
  "('k, 'z) env_scheme code \<Rightarrow> 32 word \<Rightarrow> uaddr \<Rightarrow> ('k, 'z) env_scheme \<Rightarrow> int \<times> ('k, 'z) env_scheme" where
  "call_file_cmd c cmd arg s = (case c of Fn_file_cmd f \<Rightarrow> f cmd arg s | _ \<Rightarrow> (-1, fault BadCall s))"

section \<open>System calls\<close>

text \<open>The computer around a driver: the drivers loaded, and what the program has printed.\<close>

record 'k machine = "'k env" +
  modules :: "fops_ref set"
  stdout :: "string list"

definition puts :: "string \<Rightarrow> ('k, 'z) machine_scheme \<Rightarrow> ('k, 'z) machine_scheme" where
  "puts line s = s\<lparr>stdout := stdout s @ [line]\<rparr>"

text \<open>
  \<open>vfs_call\<close> goes to the code of the driver whose table is \<open>r\<close>: that the driver is not loaded is a
  fault. \<open>missing\<close> is the result when the table has no such entry.
\<close>

definition vfs_call ::
  "(fops_ref \<Rightarrow> ('k, 'z) machine_scheme file_operations) \<Rightarrow> fops_ref \<Rightarrow> slot \<Rightarrow> int \<Rightarrow>
   (('k, 'z) machine_scheme code \<Rightarrow> ('k, 'z) machine_scheme \<Rightarrow> int \<times> ('k, 'z) machine_scheme) \<Rightarrow>
   ('k, 'z) machine_scheme \<Rightarrow> int \<times> ('k, 'z) machine_scheme" where
  "vfs_call tbl r slot missing call s =
     (if r \<notin> modules s then (-1, fault UnloadedCode s)
      else case f_slots (tbl r) slot of None \<Rightarrow> (missing, s) | Some c \<Rightarrow> call c s)"

text \<open>
  \<open>open\<close>: \<open>node\<close> is the major number of the device node the path leads to, and \<open>None\<close> when there is no
  node or the process may not open it. The result is the open file, which remembers its table, or
  \<open>None\<close> for a negative file descriptor.
\<close>

definition sys_open ::
  "('k, 'y) chrdev_ops_scheme \<Rightarrow> (fops_ref \<Rightarrow> ('k, 'z) machine_scheme file_operations) \<Rightarrow> int option \<Rightarrow>
   ('k, 'z) machine_scheme \<Rightarrow> fops_ref option \<times> ('k, 'z) machine_scheme" where
  "sys_open C tbl node s =
     (case Option.bind node (chrdevs C (kern s)) of
        None \<Rightarrow> (None, s)
      | Some (_, r) \<Rightarrow>
          let (rc, s) = vfs_call tbl r S_open 0 call_inode_file s in (if rc < 0 then None else Some r, s))"

text \<open>
  \<open>ioctl\<close>: the entry \<open>unlocked_ioctl\<close> is preferred to \<open>ioctl\<close>; with neither the call fails with
  \<open>ENOTTY\<close>. A negative result of the driver is -1 in the program.
\<close>

definition sys_ioctl ::
  "(fops_ref \<Rightarrow> ('k, 'z) machine_scheme file_operations) \<Rightarrow> fops_ref \<Rightarrow> 32 word \<Rightarrow> uaddr \<Rightarrow>
   ('k, 'z) machine_scheme \<Rightarrow> int \<times> ('k, 'z) machine_scheme" where
  "sys_ioctl tbl r cmd arg s =
     (let (rc, s) = (if f_slots (tbl r) S_unlocked_ioctl \<noteq> None
        then vfs_call tbl r S_unlocked_ioctl (- ENOTTY) (\<lambda>c. call_file_cmd c cmd arg) s
        else vfs_call tbl r S_ioctl (- ENOTTY) (\<lambda>c. call_inode_file_cmd c cmd arg) s)
      in (if rc < 0 then -1 else rc, s))"

text \<open>\<open>mmap\<close>: fails with \<open>ENODEV\<close> without an entry; the result says whether the area was mapped.\<close>

definition sys_mmap ::
  "(fops_ref \<Rightarrow> ('k, 'z) machine_scheme file_operations) \<Rightarrow> fops_ref \<Rightarrow> vm_area_struct \<Rightarrow>
   ('k, 'z) machine_scheme \<Rightarrow> bool \<times> ('k, 'z) machine_scheme" where
  "sys_mmap tbl r vma s =
     (let (rc, s) = vfs_call tbl r S_mmap (- ENODEV) (\<lambda>c. call_file_vma c vma) s in (rc = 0, s))"

text \<open>The last reference to an open file goes.\<close>

definition fput ::
  "(fops_ref \<Rightarrow> ('k, 'z) machine_scheme file_operations) \<Rightarrow> fops_ref \<Rightarrow> ('k, 'z) machine_scheme \<Rightarrow> ('k, 'z) machine_scheme" where
  "fput tbl r s = snd (vfs_call tbl r S_release 0 call_inode_file s)"

named_theorems vfs_defs \<open>the path of a system call to the driver\<close>

declare vfs_call_def [vfs_defs] sys_open_def [vfs_defs] sys_ioctl_def [vfs_defs] sys_mmap_def [vfs_defs]
declare fput_def [vfs_defs] call_inode_file_def [vfs_defs] call_file_vma_def [vfs_defs]
declare call_inode_file_cmd_def [vfs_defs] call_file_cmd_def [vfs_defs]

section \<open>Calls through typed tables\<close>

text \<open>What a function is, given that its type is the type of the member it is stored in.\<close>

lemma c_type_cases:
  "c_type c = (C_int, [Ptr_inode, Ptr_file]) \<longleftrightarrow> (\<exists>f. c = Fn_inode_file f)"
  "c_type c = (C_int, [Ptr_file, Ptr_vma]) \<longleftrightarrow> (\<exists>g. c = Fn_file_vma g)"
  "c_type c = (C_int, [Ptr_inode, Ptr_file, C_uint, C_ulong]) \<longleftrightarrow> (\<exists>h. c = Fn_inode_file_cmd h)"
  "c_type c = (C_long, [Ptr_file, C_uint, C_ulong]) \<longleftrightarrow> (\<exists>h. c = Fn_file_cmd h)"
  by (cases c; simp)+

text \<open>
  What holds of every function of a table holds of every call through it, if it also holds of a
  call of unloaded code, and either the table is typed or it holds of a call of the wrong type:
  \<open>P\<close> relates the state before and after.
\<close>

fun code_sat :: "('s \<Rightarrow> 's \<Rightarrow> bool) \<Rightarrow> 's code \<Rightarrow> bool" where
  "code_sat P (Fn_inode_file f) \<longleftrightarrow> (\<forall>s. P s (snd (f s)))"
| "code_sat P (Fn_file_vma f) \<longleftrightarrow> (\<forall>vma s. P s (snd (f vma s)))"
| "code_sat P (Fn_inode_file_cmd f) \<longleftrightarrow> (\<forall>cmd arg s. P s (snd (f cmd arg s)))"
| "code_sat P (Fn_file_cmd f) \<longleftrightarrow> (\<forall>cmd arg s. P s (snd (f cmd arg s)))"

definition table_sat :: "('s \<Rightarrow> 's \<Rightarrow> bool) \<Rightarrow> 's file_operations \<Rightarrow> bool" where
  "table_sat P f \<longleftrightarrow> (\<forall>slot c. f_slots f slot = Some c \<longrightarrow> code_sat P c)"

context fs_header
begin

lemma vfs_call_typed:
  assumes "fops_typed H (tbl r) \<or> (\<forall>s. P s (fault BadCall s))" and "table_sat P (tbl r)"
    and "\<And>s. P s s" and "\<And>s. P s (fault UnloadedCode s)"
  shows "P s (snd (vfs_call tbl r S_open m call_inode_file s))"
    and "P s (snd (vfs_call tbl r S_release m call_inode_file s))"
    and "P s (snd (vfs_call tbl r S_mmap m (\<lambda>c. call_file_vma c vma) s))"
    and "P s (snd (vfs_call tbl r S_ioctl m (\<lambda>c. call_inode_file_cmd c cmd arg) s))"
    and "P s (snd (vfs_call tbl r S_unlocked_ioctl m (\<lambda>c. call_file_cmd c cmd arg) s))"
proof -
  have c: "(c_type c = H slot \<or> (\<forall>s. P s (fault BadCall s))) \<and> code_sat P c" if "f_slots (tbl r) slot = Some c" for slot c
    using assms(1,2) that by (auto simp: fops_typed_def table_sat_def)
  note H = open_type release_type mmap_type ioctl_type unlocked_ioctl_type
  show "P s (snd (vfs_call tbl r S_open m call_inode_file s))"
    "P s (snd (vfs_call tbl r S_release m call_inode_file s))"
    "P s (snd (vfs_call tbl r S_mmap m (\<lambda>c. call_file_vma c vma) s))"
    "P s (snd (vfs_call tbl r S_ioctl m (\<lambda>c. call_inode_file_cmd c cmd arg) s))"
    "P s (snd (vfs_call tbl r S_unlocked_ioctl m (\<lambda>c. call_file_cmd c cmd arg) s))"
    using assms(3,4) by (auto simp: vfs_defs split: option.split code.split dest!: c simp: H c_type_cases)
qed

lemma sys_calls_typed:
  assumes "\<And>r. fops_typed H (tbl r) \<or> (\<forall>s. P s (fault BadCall s))" and "\<And>r. table_sat P (tbl r)"
    and "\<And>s. P s s" and "\<And>s. P s (fault UnloadedCode s)"
  shows "P s (snd (sys_open C tbl node s))" and "P s (snd (sys_ioctl tbl r cmd arg s))"
    and "P s (snd (sys_mmap tbl r vma s))" and "P s (fput tbl r s)"
  by (auto simp: sys_open_def sys_ioctl_def sys_mmap_def fput_def split_beta vfs_call_typed assms split: option.split)

end

text \<open>The declarations of the kernel as a function.\<close>

fun ref_fs_header :: "slot \<Rightarrow> csig" where
  "ref_fs_header S_open = (C_int, [Ptr_inode, Ptr_file])"
| "ref_fs_header S_release = (C_int, [Ptr_inode, Ptr_file])"
| "ref_fs_header S_mmap = (C_int, [Ptr_file, Ptr_vma])"
| "ref_fs_header S_ioctl = (C_int, [Ptr_inode, Ptr_file, C_uint, C_ulong])"
| "ref_fs_header S_unlocked_ioctl = (C_long, [Ptr_file, C_uint, C_ulong])"

interpretation ref_fs: fs_header ref_fs_header
  by unfold_locales simp_all

section \<open>Mapping kernel memory\<close>

text \<open>
  \<open>mappings\<close> observes the ranges mapped: user address, first page frame, size in bytes. \<open>translate\<close> is
  what the page tables say of a user address: the physical address, or nothing. A range mapped at a
  page boundary is translated to its frames, and the addresses outside as before. \<open>virt_to_phys_op\<close> has
  no law here: it is defined for directly mapped addresses only.
\<close>

record 'k remap_ops =
  virt_to_phys_op :: "64 word \<Rightarrow> 64 word"
  remap_pfn_range_op :: "vm_area_struct \<Rightarrow> 64 word \<Rightarrow> 64 word \<Rightarrow> 64 word \<Rightarrow> 'k \<Rightarrow> int \<times> 'k"
  mappings :: "'k \<Rightarrow> (64 word \<times> 64 word \<times> 64 word) set"
  translate :: "'k \<Rightarrow> 64 word \<Rightarrow> 64 word option"

locale mmap_api = slab_api K + chrdev_api C
  for K :: "('k, 'y) slab_ops_scheme" and C :: "('k, 'x) chrdev_ops_scheme" +
  fixes M :: "'k remap_ops"
  assumes remap_result: "remap_pfn_range_op M vma a pfn sz k = (r, k') \<Longrightarrow>
      mappings M k' = (if r = 0 then insert (a, pfn, sz) (mappings M k) else mappings M k)"
    and remap_translate: "remap_pfn_range_op M vma a pfn sz k = (r, k') \<Longrightarrow> take_bit 12 a = 0 \<Longrightarrow>
      translate M k' x = (if r = 0 \<and> x - a < sz then Some (push_bit 12 pfn + (x - a)) else translate M k x)"
    and remap_frame: "remap_pfn_range_op M vma a pfn sz k = (r, k') \<Longrightarrow>
      allocated K k' = allocated K k \<and> chrdevs C k' = chrdevs C k"
    and register_frame: "register_chrdev_op C maj nm f k = (r, k') \<Longrightarrow> allocated K k' = allocated K k"
    and unregister_frame: "allocated K (unregister_chrdev_op C maj nm k) = allocated K k"
    and kmalloc_devs: "kmalloc_op K n k = (p, k') \<Longrightarrow> chrdevs C k' = chrdevs C k"
    and kfree_devs: "chrdevs C (kfree_op K p k) = chrdevs C k"

end
