(* ===== verification/Ref_Devices.thy ===== *)
theory Ref_Devices
  imports Vfs
begin

text \<open>
  A reference kernel for the character drivers: registered devices, the memory of a process, an
  allocator of a given budget and mappings of page frames; and the proofs that it satisfies the
  interfaces.
\<close>

section \<open>A process and the registered devices\<close>

record ref_user =
  ru_mem :: "uaddr \<Rightarrow> byte"
  ru_ok :: "uaddr \<Rightarrow> bool"
  ru_devs :: "int \<rightharpoonup> string \<times> fops_ref"

definition ref_span :: "'z ref_user_scheme \<Rightarrow> uaddr \<Rightarrow> nat \<Rightarrow> nat" where
  "ref_span k a n = length (takeWhile (\<lambda>i. ru_ok k (a + of_nat i)) [0..<n])"

definition ref_uaccess :: "'z ref_user_scheme uaccess_ops" where
  "ref_uaccess = \<lparr>
     register_chrdev_op = (\<lambda>maj nm f k. if ru_devs k maj \<noteq> None then (- EBUSY, k)
       else (0, k\<lparr>ru_devs := (ru_devs k)(maj \<mapsto> (nm, f))\<rparr>)),
     unregister_chrdev_op = (\<lambda>maj nm k. k\<lparr>ru_devs := (ru_devs k)(maj := None)\<rparr>),
     chrdevs = ru_devs,
     copy_to_user_op = (\<lambda>a bs k. (length bs - ref_span k a (length bs),
       k\<lparr>ru_mem := store_bytes a (take (ref_span k a (length bs)) bs) (ru_mem k)\<rparr>)),
     copy_from_user_op = (\<lambda>a n k. (n - ref_span k a n, load_bytes a n (ru_mem k))),
     user_store_op = (\<lambda>a bs k. k\<lparr>ru_mem := store_bytes a bs (ru_mem k)\<rparr>),
     ubyte = ru_mem, uok = ru_ok\<rparr>"

lemma ref_span_le: "ref_span k a n \<le> n"
  unfolding ref_span_def using length_takeWhile_le [of _ "[0..<n]"] by simp

lemma ref_span_full: "n \<le> ref_span k a n \<longleftrightarrow> span_ok (ru_ok k) a n"
proof -
  have "n \<le> ref_span k a n \<longleftrightarrow> takeWhile (\<lambda>i. ru_ok k (a + of_nat i)) [0..<n] = [0..<n]"
    unfolding ref_span_def by (metis diff_zero le_antisym length_takeWhile_le length_upt order_refl takeWhile_eq_take take_all)
  also have "\<dots> \<longleftrightarrow> span_ok (ru_ok k) a n"
    by (auto simp: takeWhile_eq_all_conv span_ok_def)
  finally show ?thesis .
qed

lemma ref_uaccess_obs [simp]:
  "ubyte ref_uaccess = ru_mem" "uok ref_uaccess = ru_ok" "chrdevs ref_uaccess = ru_devs"
  by (simp_all add: ref_uaccess_def)

interpretation ref_ua: uaccess_api ref_uaccess
  by unfold_locales (auto simp: ref_uaccess_def ref_span_full ref_span_le simp del: not_None_eq split: if_splits)

section \<open>Kernel memory and mappings\<close>

text \<open>Page-aligned objects, and a list of mappings; empty ranges cannot be mapped.\<close>

record ref_mm = ref_user +
  mm_budget :: nat
  mm_objs :: "addr list"
  mm_maps :: "(64 word \<times> 64 word \<times> 64 word) list"

definition mm_fresh :: "ref_mm \<Rightarrow> addr" where
  "mm_fresh k = 4096 * Suc (fold max (mm_objs k) 0)"

definition ref_mm_slab :: "ref_mm slab_ops" where
  "ref_mm_slab = \<lparr>
     kmalloc_op = (\<lambda>n k. if mm_budget k = 0 then (NULL, k)
       else (mm_fresh k, k\<lparr>mm_budget := mm_budget k - 1, mm_objs := mm_fresh k # mm_objs k\<rparr>)),
     kfree_op = (\<lambda>p k. k\<lparr>mm_objs := removeAll p (mm_objs k)\<rparr>),
     allocated = (\<lambda>k. set (filter (\<lambda>p. p \<noteq> NULL) (mm_objs k))), statics = {}\<rparr>"

definition ref_mm_remap :: "ref_mm remap_ops" where
  "ref_mm_remap = \<lparr>
     virt_to_phys_op = (\<lambda>v. v - push_bit 12 0x1000),
     remap_pfn_range_op = (\<lambda>vma a pfn sz k. if sz = 0 then (-22, k) else (0, k\<lparr>mm_maps := (a, pfn, sz) # mm_maps k\<rparr>)),
     mappings = (\<lambda>k. set (mm_maps k)),
     translate = (\<lambda>k x. map_option (\<lambda>(a, pfn, sz). push_bit 12 pfn + (x - a)) (find (\<lambda>(a, pfn, sz). x - a < sz) (mm_maps k)))\<rparr>"

lemma mm_fresh_new: "mm_fresh k \<notin> set (mm_objs k)"
proof
  assume "mm_fresh k \<in> set (mm_objs k)"
  then have "mm_fresh k \<le> fold max (mm_objs k) 0"
    by (rule fold_max_ge)
  then show False by (simp add: mm_fresh_def)
qed

interpretation ref_map: mmap_api ref_mm_slab ref_uaccess ref_mm_remap
  by unfold_locales
    (use mm_fresh_new in \<open>auto simp: ref_mm_slab_def ref_uaccess_def ref_mm_remap_def valid_def mm_fresh_def simp del: not_None_eq split: if_splits\<close>)

end
