(* ===== verification/Ioctl.thy ===== *)
theory Ioctl
  imports Ref_Devices
begin

text \<open>
  The character driver \<open>ioctl/code.c\<close> and the program \<open>ioctl/ioctl.c\<close> that talks to it. The
  command numbers are computed as the macros of the kernel headers do; the transfer of the
  argument is at the level of bytes, since the driver and the program disagree about its size.
\<close>

section \<open>Command numbers\<close>

text \<open>The layout of a command: direction (2 bits), size (14), type (8) and number (8).\<close>

definition IOC :: "32 word \<Rightarrow> 32 word \<Rightarrow> 32 word \<Rightarrow> 32 word \<Rightarrow> 32 word" where
  "IOC dir typ nr sz = push_bit 30 dir OR push_bit 16 sz OR push_bit 8 typ OR nr"

abbreviation (input) sizeof_ptr :: "32 word" where
  "sizeof_ptr \<equiv> 8"

abbreviation char_q :: "32 word" where
  "char_q \<equiv> 113"

definition QUERY_GET_VARIABLES :: "32 word" where
  "QUERY_GET_VARIABLES = IOC 2 char_q 1 sizeof_ptr"

definition QUERY_CLR_VARIABLES :: "32 word" where
  "QUERY_CLR_VARIABLES = IOC 0 char_q 2 0"

definition QUERY_SET_VARIABLES :: "32 word" where
  "QUERY_SET_VARIABLES = IOC 1 char_q 3 sizeof_ptr"

section \<open>The driver\<close>

abbreviation majorNumber :: int where
  "majorNumber \<equiv> 150"

abbreviation DEVICE_NAME :: string where
  "DEVICE_NAME \<equiv> ''mmapchar''"

definition ioctl_init :: "('k, 'y) uaccess_ops_scheme \<Rightarrow> ('k, 'z) env_scheme \<Rightarrow> int \<times> ('k, 'z) env_scheme" where
  "ioctl_init U s =
     (let (ret, k) = register_chrdev_op U majorNumber DEVICE_NAME Fops_ioctl (kern s); s = s\<lparr>kern := k\<rparr>
      in if ret < 0 then (ret, printk KERN_ALERT ''failed to register a major number %d'' [Num ret] s)
         else (0, printk KERN_INFO ''registered with major number %d'' [Num majorNumber] s))"

definition ioctl_dev_open :: "('k, 'z) env_scheme \<Rightarrow> int \<times> ('k, 'z) env_scheme" where
  "ioctl_dev_open s = (0, printk KERN_INFO ''Device opened'' [] s)"

definition ioctl_dev_release :: "('k, 'z) env_scheme \<Rightarrow> int \<times> ('k, 'z) env_scheme" where
  "ioctl_dev_release s = (0, printk KERN_INFO ''Device successfully closed'' [] s)"

abbreviation (input) sizeof_ulong :: nat where
  "sizeof_ulong \<equiv> 8"

definition dev_ioctl ::
  "('k, 'y) uaccess_ops_scheme \<Rightarrow> 32 word \<Rightarrow> uaddr \<Rightarrow> ('k, 'z) env_scheme \<Rightarrow> int \<times> ('k, 'z) env_scheme" where
  "dev_ioctl U cmd arg s =
     (let rc = 0; a = 14 :: 64 word
      in if cmd = QUERY_GET_VARIABLES then
           let (left, k) = copy_to_user_op U arg (le_bytes a) (kern s); s = s\<lparr>kern := k\<rparr>
           in if left \<noteq> 0 then (- EACCES, printk KERN_INFO ''COPY_TO_USER FAILED'' [] s) else (rc, s)
         else if cmd = QUERY_CLR_VARIABLES then (rc, printk KERN_INFO ''CLR_VARIABLES .....'' [] s)
         else if cmd = QUERY_SET_VARIABLES then
           let (left, x) = copy_from_user_op U arg sizeof_ulong (kern s)
           in if left \<noteq> 0 then (- EACCES, printk KERN_INFO ''COPY_FROM_USER FAILED'' [] s)
              else (rc, printk KERN_INFO ''I got [%lu] from user'' [Num (uint (le_word x))] s)
         else (rc, printk KERN_INFO ''No matching IOCTL'' [] s))"

definition ioctl_exit :: "('k, 'y) uaccess_ops_scheme \<Rightarrow> ('k, 'z) env_scheme \<Rightarrow> ('k, 'z) env_scheme" where
  "ioctl_exit U s =
     printk KERN_INFO ''Goodbye, World!'' [] (upd_kern (unregister_chrdev_op U majorNumber DEVICE_NAME) s)"

text \<open>
  The operations table. It depends on the version \<open>ver\<close> of the kernel the module is compiled for
  (\<open>LINUX_VERSION_CODE\<close>); each entry has the C type of the function's prototype, and there is no
  \<open>.owner\<close>.
\<close>

definition ioctl_fops :: "nat \<Rightarrow> ('k, 'y) uaccess_ops_scheme \<Rightarrow> ('k, 'z) env_scheme file_operations" where
  "ioctl_fops ver U = \<lparr>
     f_owner = False,
     f_slots = [
       S_open \<mapsto> Fn_inode_file ioctl_dev_open,
       (if ver < KERNEL_VERSION 2 6 35 then S_ioctl else S_unlocked_ioctl) \<mapsto> Fn_file_cmd (dev_ioctl U),
       S_release \<mapsto> Fn_inode_file ioctl_dev_release]\<rparr>"

section \<open>The program\<close>

text \<open>
  \<open>q\<close> is the address of the variable \<open>q\<close>, an \<open>int\<close>, on the stack of the program. The program does not
  know which driver serves the device: the system calls go through the tables \<open>tbl\<close>.
\<close>

definition ioctl_main ::
  "('k, 'y) uaccess_ops_scheme \<Rightarrow> (fops_ref \<Rightarrow> ('k, 'z) machine_scheme file_operations) \<Rightarrow> int option \<Rightarrow> uaddr \<Rightarrow>
   ('k, 'z) machine_scheme \<Rightarrow> int \<times> ('k, 'z) machine_scheme" where
  "ioctl_main U tbl node q s =
     (let s = upd_kern (user_store_op U q (le_int_bytes 0)) s;
          (fd, s) = sys_open U tbl node s
      in case fd of
           None \<Rightarrow> (-1, puts ''make sure insmod code.ko is done'' (puts ''open failed'' s))
         | Some r \<Rightarrow>
             let s = upd_kern (user_store_op U q (le_int_bytes 140)) s;
                 (rc, s) = sys_ioctl tbl r QUERY_SET_VARIABLES q s;
                 s = (if rc = -1 then puts ''error ioctl get'' s else s);
                 s = puts ''five ... done...SET'' s
             in (0, fput tbl r s))"

section \<open>Lemmas\<close>

lemma query_values:
  "QUERY_GET_VARIABLES = 0x80087101" "QUERY_CLR_VARIABLES = 0x7102" "QUERY_SET_VARIABLES = 0x40087103"
  by (simp_all add: QUERY_GET_VARIABLES_def QUERY_CLR_VARIABLES_def QUERY_SET_VARIABLES_def IOC_def push_bit_eq_mult)

lemma query_distinct [simp]:
  "QUERY_GET_VARIABLES \<noteq> QUERY_CLR_VARIABLES" "QUERY_GET_VARIABLES \<noteq> QUERY_SET_VARIABLES"
  "QUERY_CLR_VARIABLES \<noteq> QUERY_SET_VARIABLES"
  by (simp_all add: query_values)

lemma le_bytes_14: "le_bytes 14 = [14, 0, 0, 0, 0, 0, 0, 0]"
  by (simp add: le_bytes_def upt_rec drop_bit_eq_div)

lemma le_word_high_zero:
  assumes "length bs = 4"
  shows "140 OR push_bit 32 (le_word bs) = 140 \<longleftrightarrow> (\<forall>b\<in>set bs. b = 0)"
proof -
  note hi = le_word_half(2) [OF assms]
  have "le_word bs = 0" if "140 OR push_bit 32 (le_word bs) = 140"
  proof -
    have "drop_bit 32 (140 OR push_bit 32 (le_word bs)) = drop_bit 32 140" by (simp only: that)
    moreover have "drop_bit 32 140 = (0 :: 64 word)" by (simp add: drop_bit_eq_div)
    ultimately show ?thesis by (simp only: drop_bit_or hi or.left_neutral)
  qed
  then show ?thesis using le_word_eq_0_iff [of bs] assms by auto
qed

text \<open>The entries of the table, for the newer kernels and for the older ones.\<close>

lemma ioctl_slots:
  assumes "KERNEL_VERSION 2 6 35 \<le> ver"
  shows "f_slots (ioctl_fops ver U) = [S_open \<mapsto> Fn_inode_file ioctl_dev_open,
    S_unlocked_ioctl \<mapsto> Fn_file_cmd (dev_ioctl U), S_release \<mapsto> Fn_inode_file ioctl_dev_release]"
  using assms by (simp add: ioctl_fops_def)

lemma ioctl_slots_old:
  assumes "ver < KERNEL_VERSION 2 6 35"
  shows "f_slots (ioctl_fops ver U) = [S_open \<mapsto> Fn_inode_file ioctl_dev_open,
    S_ioctl \<mapsto> Fn_file_cmd (dev_ioctl U), S_release \<mapsto> Fn_inode_file ioctl_dev_release]"
  using assms by (simp add: ioctl_fops_def)

context uaccess_api
begin

lemma dev_ioctl_get_ok:
  assumes "span_ok (uok U (kern s)) arg 8"
  shows "\<exists>k. dev_ioctl U QUERY_GET_VARIABLES arg s = (0, s\<lparr>kern := k\<rparr>) \<and>
    ubyte U k = store_bytes arg (le_bytes 14) (ubyte U (kern s)) \<and> uok U k = uok U (kern s) \<and>
    chrdevs U k = chrdevs U (kern s)"
proof -
  obtain r k where c: "copy_to_user_op U arg (le_bytes 14) (kern s) = (r, k)" by fastforce
  then show ?thesis
    using to_user [OF c] to_user_frame [OF c] assms by (intro exI [of _ k]) (simp add: dev_ioctl_def)
qed

lemma dev_ioctl_get_fault:
  assumes "\<not> span_ok (uok U (kern s)) arg 8"
  shows "\<exists>k n. dev_ioctl U QUERY_GET_VARIABLES arg s = (- EACCES, printk KERN_INFO ''COPY_TO_USER FAILED'' [] (s\<lparr>kern := k\<rparr>)) \<and>
    ubyte U k = store_bytes arg (take n (le_bytes 14)) (ubyte U (kern s)) \<and> chrdevs U k = chrdevs U (kern s)"
proof -
  obtain r k where c: "copy_to_user_op U arg (le_bytes 14) (kern s) = (r, k)" by fastforce
  then show ?thesis
    using to_user [OF c] to_user_frame [OF c] assms by (auto simp: dev_ioctl_def)
qed

lemma dev_ioctl_set:
  "dev_ioctl U QUERY_SET_VARIABLES arg s =
     (if span_ok (uok U (kern s)) arg 8
      then (0, printk KERN_INFO ''I got [%lu] from user'' [Num (uint (le_word (load_bytes arg 8 (ubyte U (kern s)))))] s)
      else (- EACCES, printk KERN_INFO ''COPY_FROM_USER FAILED'' [] s))"
proof -
  obtain r x where c: "copy_from_user_op U arg 8 (kern s) = (r, x)" by fastforce
  then show ?thesis
    using from_user [OF c] by (auto simp: dev_ioctl_def query_distinct [symmetric])
qed

text \<open>The eight bytes at the address of \<open>q\<close>: the \<open>int\<close> and the four bytes that follow it.\<close>

lemma load_behind_int:
  assumes "span_ok (uok U k) q 8"
  shows "load_bytes (q + 4) 4 (ubyte U (user_store_op U q (le_int_bytes w) k)) = load_bytes (q + 4) 4 (ubyte U k)"
proof -
  have ok: "span_ok (uok U k) q (length (le_int_bytes w))" using assms by (simp add: span_ok_def)
  have "unat ((q + 4 + of_nat i) - q) = 4 + i" if "i < 4" for i :: nat
    using unat_offset [of "4 + i" q] that by (simp add: add.assoc del: unat_offset)
  then show ?thesis
    unfolding user_store [OF ok] by (simp add: load_bytes_def store_bytes_def del: upt_rec_numeral)
qed

lemma load_after_int:
  assumes "span_ok (uok U k) q 8"
  shows "le_word (load_bytes q 8 (ubyte U (user_store_op U q (le_int_bytes w) k))) =
    ucast w OR push_bit 32 (le_word (load_bytes (q + 4) 4 (ubyte U k)))"
proof -
  have ok: "span_ok (uok U k) q (length (le_int_bytes w))" using assms by (simp add: span_ok_def)
  have lo: "load_bytes q 4 (ubyte U (user_store_op U q (le_int_bytes w) k)) = le_int_bytes w"
    using load_store_same [of "le_int_bytes w" q "ubyte U k"] by (simp add: user_store [OF ok])
  have "load_bytes q 8 f = load_bytes q 4 f @ load_bytes (q + 4) 4 f" for f
    using load_bytes_append [of q 4 4 f] by simp
  then show ?thesis by (simp add: lo load_behind_int [OF assms] le_word_append le_word_int)
qed

lemma ioctl_main_ok:
  assumes reg: "chrdevs U (kern s) majorNumber = Some (nm, Fops_ioctl)" and ld: "Fops_ioctl \<in> modules s"
    and tbl: "tbl Fops_ioctl = ioctl_fops ver U" "KERNEL_VERSION 2 6 35 \<le> ver"
    and ok: "span_ok (uok U (kern s)) q 8"
  shows "\<exists>s'. ioctl_main U tbl (Some majorNumber) q s = (0, s') \<and> stdout s' = stdout s @ [''five ... done...SET''] \<and>
     faults s' = faults s \<and>
     klog s' = klog s @ [Line KERN_INFO ''Device opened'' [], Line KERN_INFO ''I got [%lu] from user''
       [Num (uint (140 OR push_bit 32 (le_word (load_bytes (q + 4) 4 (ubyte U (kern s))))))],
       Line KERN_INFO ''Device successfully closed'' []]"
proof -
  define k1 where "k1 = user_store_op U q (le_int_bytes 0) (kern s)"
  define k2 where "k2 = user_store_op U q (le_int_bytes 140) k1"
  have ok1: "span_ok (uok U k1) q 8" and ok2: "span_ok (uok U k2) q 8"
    using ok by (simp_all add: k1_def k2_def user_store_frame)
  have reg1: "chrdevs U k1 majorNumber = Some (nm, Fops_ioctl)" using reg by (simp add: k1_def user_store_frame)
  have val: "le_word (load_bytes q 8 (ubyte U k2)) = 140 OR push_bit 32 (le_word (load_bytes (q + 4) 4 (ubyte U (kern s))))"
    unfolding k2_def load_after_int [OF ok1] unfolding k1_def load_behind_int [OF ok] by simp
  show ?thesis
    using reg1 ok2 val ld
    by (simp add: ioctl_main_def vfs_defs ioctl_slots [OF tbl(2)] tbl(1) ioctl_dev_open_def ioctl_dev_release_def
        dev_ioctl_set puts_def env_defs k1_def [symmetric] k2_def [symmetric])
qed

end

section \<open>A process on the reference kernel\<close>

definition ioctl_boot :: "ref_user machine" where
  "ioctl_boot = \<lparr>kern = \<lparr>ru_mem = (\<lambda>_. 0), ru_ok = (\<lambda>_. True), ru_devs = [150 \<mapsto> (''mmapchar'', Fops_ioctl)]\<rparr>,
     klog = [], faults = [], modules = {Fops_ioctl}, stdout = []\<rparr>"

section \<open>Properties\<close>

text \<open>
  C10. Every branch of \<open>dev_ioctl\<close>. The query stores an \<open>unsigned long\<close> of value 14, eight
  bytes, at the user's address and changes no other byte; the clearing command only logs; the
  setting command logs the \<open>unsigned long\<close> found at the address; both transfers return
  \<open>-EACCES\<close> exactly when one of the eight addresses is not mapped. Any other command is logged
  and returns 0, as if it had been carried out.
\<close>

theorem dev_ioctl_correct:
  assumes "uaccess_api U" and "dev_ioctl U cmd arg s = (rc, s')"
  shows "faults s' = faults s \<and> chrdevs U (kern s') = chrdevs U (kern s) \<and>
    (cmd = QUERY_GET_VARIABLES \<longrightarrow>
      (if span_ok (uok U (kern s)) arg 8
       then rc = 0 \<and> klog s' = klog s \<and> le_word (load_bytes arg 8 (ubyte U (kern s'))) = 14 \<and>
         (\<forall>x. unat (x - arg) \<ge> 8 \<longrightarrow> ubyte U (kern s') x = ubyte U (kern s) x)
       else rc = - EACCES \<and> klog s' = klog s @ [Line KERN_INFO ''COPY_TO_USER FAILED'' []])) \<and>
    (cmd = QUERY_CLR_VARIABLES \<longrightarrow>
      rc = 0 \<and> kern s' = kern s \<and> klog s' = klog s @ [Line KERN_INFO ''CLR_VARIABLES .....'' []]) \<and>
    (cmd = QUERY_SET_VARIABLES \<longrightarrow> kern s' = kern s \<and>
      (if span_ok (uok U (kern s)) arg 8
       then rc = 0 \<and> klog s' = klog s @ [Line KERN_INFO ''I got [%lu] from user''
         [Num (uint (le_word (load_bytes arg 8 (ubyte U (kern s)))))]]
       else rc = - EACCES \<and> klog s' = klog s @ [Line KERN_INFO ''COPY_FROM_USER FAILED'' []])) \<and>
    (cmd \<notin> {QUERY_GET_VARIABLES, QUERY_CLR_VARIABLES, QUERY_SET_VARIABLES} \<longrightarrow>
      rc = 0 \<and> kern s' = kern s \<and> klog s' = klog s @ [Line KERN_INFO ''No matching IOCTL'' []])"
proof -
  consider (get) "cmd = QUERY_GET_VARIABLES" | (set) "cmd = QUERY_SET_VARIABLES"
    | (other) "cmd \<noteq> QUERY_GET_VARIABLES" "cmd \<noteq> QUERY_SET_VARIABLES" by blast
  then show ?thesis
  proof cases
    case get
    show ?thesis
    proof (cases "span_ok (uok U (kern s)) arg 8")
      case True
      then obtain k where k: "s' = s\<lparr>kern := k\<rparr>" "rc = 0" "chrdevs U k = chrdevs U (kern s)"
        "ubyte U k = store_bytes arg (le_bytes 14) (ubyte U (kern s))"
        using uaccess_api.dev_ioctl_get_ok [OF assms(1) True] assms(2) get by auto
      then show ?thesis
        using True get load_store_same [of "le_bytes 14" arg "ubyte U (kern s)"] by (simp add: store_bytes_def)
    next
      case False
      then obtain k where "rc = - EACCES" "s' = printk KERN_INFO ''COPY_TO_USER FAILED'' [] (s\<lparr>kern := k\<rparr>)"
        "chrdevs U k = chrdevs U (kern s)"
        using uaccess_api.dev_ioctl_get_fault [OF assms(1) False] assms(2) get by fastforce
      then show ?thesis using False get by simp
    qed
  next
    case set
    then show ?thesis
      using uaccess_api.dev_ioctl_set [OF assms(1), of arg s] assms(2) query_distinct [symmetric]
      by (cases "span_ok (uok U (kern s)) arg 8") auto
  next
    case other
    then have "rc = 0" and "s' = printk KERN_INFO (if cmd = QUERY_CLR_VARIABLES then ''CLR_VARIABLES .....''
        else ''No matching IOCTL'') [] s"
      using assms(2) by (simp_all add: dev_ioctl_def split: if_splits)
    then show ?thesis using other by simp
  qed
qed

theorem dev_ioctl_correct_witness:
  "\<exists>s'. dev_ioctl ref_uaccess QUERY_GET_VARIABLES 4096 ioctl_boot = (0, s') \<and>
     le_word (load_bytes 4096 8 (ru_mem (kern s'))) = 14"
proof -
  obtain rc s' where run: "dev_ioctl ref_uaccess QUERY_GET_VARIABLES 4096 ioctl_boot = (rc, s')" by fastforce
  have "span_ok (uok ref_uaccess (kern ioctl_boot)) 4096 8"
    by (simp_all add: span_ok_def ioctl_boot_def ref_uaccess_def)
  then show ?thesis
    using dev_ioctl_correct [OF ref_ua.uaccess_api_axioms run] run by simp
qed

text \<open>
  The query and the type of its command disagree: the command is declared with an \<open>int\<close>, four
  bytes, and a successful query also overwrites the four bytes that follow it in the memory of
  the process, with zeros.
\<close>

theorem dev_ioctl_get_overruns_int:
  assumes "uaccess_api U" and "dev_ioctl U QUERY_GET_VARIABLES arg s = (0, s')"
  shows "load_bytes arg 4 (ubyte U (kern s')) = le_int_bytes 14 \<and>
    load_bytes (arg + 4) 4 (ubyte U (kern s')) = [0, 0, 0, 0]"
proof -
  have "span_ok (uok U (kern s)) arg 8"
    using uaccess_api.dev_ioctl_get_fault [OF assms(1), of s arg] assms(2) by fastforce
  then have "load_bytes arg 8 (ubyte U (kern s')) = le_bytes 14"
    using uaccess_api.dev_ioctl_get_ok [OF assms(1), of s arg] assms(2) load_store_same [of "le_bytes 14" arg "ubyte U (kern s)"]
    by auto
  then have "load_bytes arg 4 (ubyte U (kern s')) @ load_bytes (arg + 4) 4 (ubyte U (kern s')) = [14, 0, 0, 0] @ [0, 0, 0, 0]"
    using load_bytes_append [of arg 4 4 "ubyte U (kern s')"] by (simp add: le_bytes_14)
  moreover have "le_int_bytes 14 = [14, 0, 0, 0]"
    by (simp add: le_int_bytes_def upt_rec drop_bit_eq_div)
  moreover have "length (load_bytes arg 4 (ubyte U (kern s'))) = length [14, 0, 0, 0 :: byte]"
    by (simp add: load_bytes_def del: upt_rec_numeral)
  ultimately show ?thesis by (simp add: append_eq_append_conv del: append.simps)
qed

theorem dev_ioctl_get_overruns_int_witness:
  "\<exists>s s'. ru_mem (kern s) 4100 = 255 \<and> dev_ioctl ref_uaccess QUERY_GET_VARIABLES 4096 s = (0, s') \<and>
     load_bytes 4100 4 (ru_mem (kern (s' :: ref_user machine))) = [0, 0, 0, 0]"
proof -
  define s where "s = upd_kern (\<lambda>k. k\<lparr>ru_mem := (\<lambda>_. 255)\<rparr>) ioctl_boot"
  have ok: "span_ok (uok ref_uaccess (kern s)) 4096 8" "ru_mem (kern s) 4100 = 255"
    by (simp_all add: span_ok_def ioctl_boot_def ref_uaccess_def s_def)
  obtain k where run: "dev_ioctl ref_uaccess QUERY_GET_VARIABLES 4096 s = (0, s\<lparr>kern := k\<rparr>)"
    using ref_ua.dev_ioctl_get_ok [OF ok(1)] by auto
  show ?thesis
    using dev_ioctl_get_overruns_int [OF ref_ua.uaccess_api_axioms run] run ok by auto
qed

text \<open>
  C36. The program and the driver together. When the driver is registered, the device opens and
  the eight bytes at the address of \<open>q\<close> are mapped, \<open>main\<close> returns 0 and the driver logs the
  number whose low half is 140 and whose high half is the four bytes that lie behind the
  variable; it is 140, the number the program sent, exactly if those four bytes are zero.
\<close>

theorem ioctl_main_sends:
  assumes "uaccess_api U" and "chrdevs U (kern s) majorNumber = Some (nm, Fops_ioctl)" and "Fops_ioctl \<in> modules s"
    and "tbl Fops_ioctl = ioctl_fops ver U" and "KERNEL_VERSION 2 6 35 \<le> ver"
    and "span_ok (uok U (kern s)) q 8"
  shows "let behind = load_bytes (q + 4) 4 (ubyte U (kern s)); x = 140 OR push_bit 32 (le_word behind) in
    (\<exists>s'. ioctl_main U tbl (Some majorNumber) q s = (0, s') \<and> stdout s' = stdout s @ [''five ... done...SET''] \<and>
     faults s' = faults s \<and>
     klog s' = klog s @ [Line KERN_INFO ''Device opened'' [], Line KERN_INFO ''I got [%lu] from user'' [Num (uint x)],
       Line KERN_INFO ''Device successfully closed'' []]) \<and>
     (x = 140 \<longleftrightarrow> (\<forall>b\<in>set behind. b = 0))"
  unfolding Let_def
proof (rule conjI [OF uaccess_api.ioctl_main_ok [where tbl = tbl, OF assms]])
  show "140 OR push_bit 32 (le_word (load_bytes (q + 4) 4 (ubyte U (kern s)))) = 140 \<longleftrightarrow>
      (\<forall>b\<in>set (load_bytes (q + 4) 4 (ubyte U (kern s))). b = 0)"
    by (rule le_word_high_zero) (simp add: load_bytes_def del: upt_rec_numeral)
qed

theorem ioctl_main_sends_witness:
  "\<exists>s'. ioctl_main ref_uaccess (\<lambda>_. ioctl_fops (KERNEL_VERSION 3 10 0) ref_uaccess) (Some 150) 4096 ioctl_boot = (0, s') \<and>
     Line KERN_INFO ''I got [%lu] from user'' [Num 140] \<in> set (klog s')"
proof -
  have pre: "chrdevs ref_uaccess (kern ioctl_boot) majorNumber = Some (''mmapchar'', Fops_ioctl)"
      "Fops_ioctl \<in> modules ioctl_boot" "KERNEL_VERSION 2 6 35 \<le> KERNEL_VERSION 3 10 0"
      "span_ok (uok ref_uaccess (kern ioctl_boot)) 4096 8"
    by (simp_all add: span_ok_def ioctl_boot_def ref_uaccess_def KERNEL_VERSION_def)
  have "load_bytes (4096 + 4) 4 (ubyte ref_uaccess (kern ioctl_boot)) = [0, 0, 0, 0]"
    by (simp add: load_bytes_def ref_uaccess_def ioctl_boot_def upt_rec)
  then show ?thesis
    using ioctl_main_sends [OF ref_ua.uaccess_api_axioms pre(1,2) refl pre(3,4)] by (auto simp: Let_def)
qed

text \<open>
  Loading and unloading. \<open>ioctl_init\<close> either registers the device and returns 0, and then
  \<open>ioctl_exit\<close> takes the registration back, leaving the devices as they were; or it passes on the
  negative result of the registration and has registered nothing.
\<close>

theorem ioctl_init_exit:
  assumes "uaccess_api U" and "ioctl_init U s = (rc, s')"
  shows "rc = 0 \<and> chrdevs U (kern s) 150 = None \<and>
      chrdevs U (kern s') = (chrdevs U (kern s))(150 \<mapsto> (''mmapchar'', Fops_ioctl)) \<and>
      chrdevs U (kern (ioctl_exit U s')) = chrdevs U (kern s) \<and>
      klog (ioctl_exit U s') = klog s @ [Line KERN_INFO ''registered with major number %d'' [Num 150],
        Line KERN_INFO ''Goodbye, World!'' []]
    \<or> rc < 0 \<and> chrdevs U (kern s') = chrdevs U (kern s) \<and>
      klog s' = klog s @ [Line KERN_ALERT ''failed to register a major number %d'' [Num rc]]"
proof -
  have C: "chrdev_api U" using assms(1) by (simp add: uaccess_api_def)
  obtain ret k where r: "register_chrdev_op U majorNumber DEVICE_NAME Fops_ioctl (kern s) = (ret, k)" by fastforce
  note reg = chrdev_api.register_result [OF C r] chrdev_api.register_unregister [OF C r]
  show ?thesis
    using reg assms(2) r by (cases "ret < 0") (auto simp: ioctl_init_def ioctl_exit_def)
qed

theorem ioctl_init_exit_witness:
  "\<exists>s'. ioctl_init ref_uaccess (ioctl_boot\<lparr>kern := (kern ioctl_boot)\<lparr>ru_devs := Map.empty\<rparr>\<rparr>) = (0, s') \<and>
     ru_devs (kern (ioctl_exit ref_uaccess s')) = Map.empty"
proof -
  let ?s = "ioctl_boot\<lparr>kern := (kern ioctl_boot)\<lparr>ru_devs := Map.empty\<rparr>\<rparr>"
  obtain rc s' where run: "ioctl_init ref_uaccess ?s = (rc, s')" by fastforce
  then have "rc = 0" by (auto simp: ioctl_init_def ref_uaccess_def)
  then have "chrdevs ref_uaccess (kern (ioctl_exit ref_uaccess s')) = chrdevs ref_uaccess (kern ?s)"
    using ioctl_init_exit [OF ref_ua.uaccess_api_axioms run] by simp
  then show ?thesis using run \<open>rc = 0\<close> by (simp add: ref_uaccess_def)
qed

end
