(* ===== verification/Mmap.thy ===== *)
theory Mmap
  imports Ref_Devices
begin

text \<open>
  The character driver \<open>mmap/code.c\<close>, which maps a kernel buffer into a user process, and the
  program \<open>mmap/mmap.c\<close> that uses it. Page arithmetic is on 64-bit words. The allocator, the
  device registration and \<open>remap_pfn_range\<close> are the kernel's.
\<close>

abbreviation (input) PAGE_SHIFT :: nat where
  "PAGE_SHIFT \<equiv> 12"

section \<open>The driver\<close>

record 'k mmap_drv = "'k machine" +
  buffer :: addr

abbreviation (input) mmap_major :: int where
  "mmap_major \<equiv> 150"

abbreviation (input) mmap_name :: string where
  "mmap_name \<equiv> ''mmapchar''"

abbreviation (input) SIZE :: nat where
  "SIZE \<equiv> 4096"

definition mmap_example_init ::
  "('k, 'y) slab_ops_scheme \<Rightarrow> ('k, 'x) chrdev_ops_scheme \<Rightarrow> ('k, 'z) mmap_drv_scheme \<Rightarrow> int \<times> ('k, 'z) mmap_drv_scheme" where
  "mmap_example_init K C s =
     (let (ret, k) = register_chrdev_op C mmap_major mmap_name Fops_mmap (kern s); s = s\<lparr>kern := k\<rparr>
      in if ret < 0 then (ret, printk KERN_ALERT ''failed to register a major number %d'' [Num ret] s)
         else
           let s = printk KERN_INFO ''registered correctly with major number %d'' [Num mmap_major] s;
               (p, s) = kmalloc K SIZE s;
               s = s\<lparr>buffer := p\<rparr>
           in if buffer s = NULL then (-1, printk KERN_ALERT ''failed to allocate memory '' [] s)
              else (0, s))"

definition mmap_dev_open :: "('k, 'z) mmap_drv_scheme \<Rightarrow> int \<times> ('k, 'z) mmap_drv_scheme" where
  "mmap_dev_open s = (0, printk KERN_INFO ''Device opened'' [] s)"

definition mmap_dev_release :: "('k, 'y) slab_ops_scheme \<Rightarrow> ('k, 'z) mmap_drv_scheme \<Rightarrow> int \<times> ('k, 'z) mmap_drv_scheme" where
  "mmap_dev_release K s =
     (let s = (if buffer s \<noteq> NULL then kfree K (buffer s) s else s)
      in (0, printk KERN_INFO ''Device successfully closed'' [] s))"

definition dev_mmap ::
  "'k remap_ops \<Rightarrow> vm_area_struct \<Rightarrow> ('k, 'z) mmap_drv_scheme \<Rightarrow> int \<times> ('k, 'z) mmap_drv_scheme" where
  "dev_mmap M vma s =
     (let offset = push_bit PAGE_SHIFT (vm_pgoff vma);
          sz = vm_end vma - vm_start vma;
          s = printk KERN_INFO ''Nothing for mmap now %lu %lu'' [Num (uint sz), Num (uint offset)] s;
          pfn = drop_bit PAGE_SHIFT (virt_to_phys_op M (of_nat (buffer s) + offset));
          (r, k) = remap_pfn_range_op M vma (vm_start vma) pfn sz (kern s);
          s = s\<lparr>kern := k\<rparr>
      in if r \<noteq> 0 then (- EAGAIN, printk KERN_INFO ''mmap allocation FAILED '' [] s)
         else (0, printk KERN_INFO ''mmap allocation PASSED '' [] s))"

definition mmap_example_exit ::
  "('k, 'y) slab_ops_scheme \<Rightarrow> ('k, 'x) chrdev_ops_scheme \<Rightarrow> ('k, 'z) mmap_drv_scheme \<Rightarrow> ('k, 'z) mmap_drv_scheme" where
  "mmap_example_exit K C s =
     (let s = (if buffer s \<noteq> NULL then kfree K (buffer s) s else s);
          s = upd_kern (unregister_chrdev_op C mmap_major mmap_name) s
      in printk KERN_INFO ''Goodbye, World!'' [] s)"

text \<open>The operations table: the entries with the types of their prototypes, and no \<open>.owner\<close>.\<close>

definition mmap_fops :: "('k, 'y) slab_ops_scheme \<Rightarrow> 'k remap_ops \<Rightarrow> ('k, 'z) mmap_drv_scheme file_operations" where
  "mmap_fops K M = \<lparr>
     f_owner = False,
     f_slots = [
       S_open \<mapsto> Fn_inode_file mmap_dev_open,
       S_mmap \<mapsto> Fn_file_vma (dev_mmap M),
       S_release \<mapsto> Fn_inode_file (mmap_dev_release K)]\<rparr>"

section \<open>The program\<close>

text \<open>
  The physical memory. The program reaches it through the page tables: an access to an address that
  is not translated is a bus error.
\<close>

record 'k mmap_user = "'k mmap_drv" +
  phys :: "64 word \<Rightarrow> char"

definition user_write :: "'k remap_ops \<Rightarrow> 64 word \<Rightarrow> char \<Rightarrow> 'k mmap_user \<Rightarrow> 'k mmap_user option" where
  "user_write M a c s = map_option (\<lambda>p. s\<lparr>phys := (phys s)(p := c)\<rparr>) (translate M (kern s) a)"

definition user_read :: "'k remap_ops \<Rightarrow> 64 word \<Rightarrow> 'k mmap_user \<Rightarrow> char option" where
  "user_read M a s = map_option (phys s) (translate M (kern s) a)"

text \<open>
  The result is \<open>None\<close> when the process is killed by a bus error, which closes its files. \<open>a\<close>: the
  address the kernel chooses for the mapping. The driver's \<open>release\<close> runs when the last reference to
  the open file goes: at \<open>close\<close> when nothing is mapped, and at the end of the process when a mapping
  still refers to the file.
\<close>

definition mmap_main ::
  "('k, 'y) chrdev_ops_scheme \<Rightarrow> 'k remap_ops \<Rightarrow> (fops_ref \<Rightarrow> 'k mmap_user file_operations) \<Rightarrow> int option \<Rightarrow> 64 word \<Rightarrow>
   'k mmap_user \<Rightarrow> int option \<times> 'k mmap_user" where
  "mmap_main C M tbl node a s =
     (let (fd, s) = sys_open C tbl node s
      in case fd of
           None \<Rightarrow> (Some (-1), puts ''make sure insmod code.ko is done'' (puts ''open failed'' s))
         | Some r \<Rightarrow>
             let (mapped, s) = sys_mmap tbl r \<lparr>vm_start = a, vm_end = a + 4096, vm_pgoff = 0\<rparr> s
             in if \<not> mapped then
                  let s = puts ''Failed to mmap'' s
                  in (Some (-1), fput tbl r s)
                else
                  let s = puts ''ALL OK'' s
                  in case user_write M a (CHR ''A'') s of
                       None \<Rightarrow> (None, fput tbl r s)
                     | Some s \<Rightarrow>
                         (case user_read M a s of
                            None \<Rightarrow> (None, fput tbl r s)
                          | Some c \<Rightarrow> (Some 0, fput tbl r (puts (''Char = ['' @ [c] @ '']'') s))))"

lemma user_write_faults: "user_write M a c s = Some t \<Longrightarrow> faults t = faults s"
  by (auto simp: user_write_def)

section \<open>The driver on a kernel that keeps its contract\<close>

context mmap_api
begin

text \<open>The first release of the buffer succeeds; every later one is a second free.\<close>

lemma release_first:
  assumes "buffer s \<in> allocated K (kern s)"
  shows "faults (snd (mmap_dev_release K s)) = faults s"
    and "buffer s \<notin> allocated K (kern (snd (mmap_dev_release K s)))"
    and "buffer (snd (mmap_dev_release K s)) = buffer s"
    and "chrdevs C (kern (snd (mmap_dev_release K s))) = chrdevs C (kern s)"
proof -
  have "buffer s \<noteq> NULL" using assms valid_nonnull valid_allocated by metis
  then show "faults (snd (mmap_dev_release K s)) = faults s"
    "buffer s \<notin> allocated K (kern (snd (mmap_dev_release K s)))"
    "buffer (snd (mmap_dev_release K s)) = buffer s"
    "chrdevs C (kern (snd (mmap_dev_release K s))) = chrdevs C (kern s)"
    using assms kfree_releases [OF assms] by (simp_all add: mmap_dev_release_def kfree_def kfree_devs env_defs)
qed

lemma release_again:
  assumes "buffer s \<notin> allocated K (kern s)" and "buffer s \<noteq> NULL"
  shows "faults (snd (mmap_dev_release K s)) = faults s @ [BadFree (buffer s)]"
    and "kern (snd (mmap_dev_release K s)) = kern s"
    and "buffer (snd (mmap_dev_release K s)) = buffer s"
  using assms by (simp_all add: mmap_dev_release_def kfree_def env_defs)

end

context mmap_api
begin

text \<open>The two outcomes of \<open>dev_mmap\<close>, and what it does not touch.\<close>

lemma dev_mmap_cases:
  obtains rc k ls where "dev_mmap M vma s = (rc, s\<lparr>kern := k, klog := klog s @ ls\<rparr>)"
    "allocated K k = allocated K (kern s)"
    "rc = 0 \<and> mappings M k = insert (vm_start vma,
        drop_bit 12 (virt_to_phys_op M (of_nat (buffer s) + push_bit 12 (vm_pgoff vma))), vm_end vma - vm_start vma)
      (mappings M (kern s)) \<or> rc = - EAGAIN \<and> mappings M k = mappings M (kern s)"
    "\<And>x. rc = 0 \<Longrightarrow> take_bit 12 (vm_start vma) = 0 \<Longrightarrow> x - vm_start vma < vm_end vma - vm_start vma \<Longrightarrow>
      translate M k x = Some (push_bit 12 (drop_bit 12 (virt_to_phys_op M (of_nat (buffer s) + push_bit 12 (vm_pgoff vma)))) +
        (x - vm_start vma))"
proof -
  let ?pfn = "drop_bit 12 (virt_to_phys_op M (of_nat (buffer s) + push_bit 12 (vm_pgoff vma)))"
  obtain r k where r: "remap_pfn_range_op M vma (vm_start vma) ?pfn (vm_end vma - vm_start vma) (kern s) = (r, k)"
    by fastforce
  show thesis
    using remap_result [OF r] remap_frame [OF r] remap_translate [OF r] r
    by (cases "r = 0") (rule that, simp add: dev_mmap_def Let_def printk_def, simp, simp, simp)+
qed

end

text \<open>The calls that reach the driver through its table.\<close>

lemma mmap_calls:
  assumes "tbl Fops_mmap = mmap_fops K M"
  shows "vfs_call tbl Fops_mmap S_open m call_inode_file s =
      (if Fops_mmap \<in> modules s then mmap_dev_open s else (-1, fault UnloadedCode s))"
    and "vfs_call tbl Fops_mmap S_release m call_inode_file s =
      (if Fops_mmap \<in> modules s then mmap_dev_release K s else (-1, fault UnloadedCode s))"
    and "vfs_call tbl Fops_mmap S_mmap m (\<lambda>c. call_file_vma c vma) s =
      (if Fops_mmap \<in> modules s then dev_mmap M vma s else (-1, fault UnloadedCode s))"
  by (simp_all add: assms vfs_call_def mmap_fops_def call_inode_file_def call_file_vma_def)

text \<open>A session of a process that opens and closes the device.\<close>

definition mmap_session :: "('k, 'y) slab_ops_scheme \<Rightarrow> ('k, 'z) mmap_drv_scheme \<Rightarrow> ('k, 'z) mmap_drv_scheme" where
  "mmap_session K s = snd (mmap_dev_release K (snd (mmap_dev_open s)))"

context mmap_api
begin

lemma sessions:
  assumes "buffer s \<in> allocated K (kern s)"
  shows "faults ((mmap_session K ^^ n) s) = faults s @ replicate (n - 1) (BadFree (buffer s)) \<and>
    buffer ((mmap_session K ^^ n) s) = buffer s \<and>
    (buffer s \<in> allocated K (kern ((mmap_session K ^^ n) s)) \<longleftrightarrow> n = 0)"
proof (induction n)
  case 0
  then show ?case using assms by simp
next
  case (Suc n)
  let ?t = "snd (mmap_dev_open ((mmap_session K ^^ n) s))"
  have t: "faults ?t = faults s @ replicate (n - 1) (BadFree (buffer s))" "buffer ?t = buffer s"
    "buffer ?t \<in> allocated K (kern ?t) \<longleftrightarrow> n = 0"
    using Suc.IH by (simp_all add: mmap_dev_open_def printk_def)
  have step: "(mmap_session K ^^ Suc n) s = snd (mmap_dev_release K ?t)" by (simp add: mmap_session_def)
  have null: "buffer s \<noteq> NULL" using assms valid_nonnull valid_allocated by metis
  show ?case
  proof (cases "n = 0")
    case True
    then show ?thesis using release_first [of ?t] t step by simp
  next
    case False
    then have "BadFree (buffer s) # replicate (n - 1) (BadFree (buffer s)) = replicate n (BadFree (buffer s))"
      by (simp flip: replicate_Suc)
    then show ?thesis using False release_again [of ?t] t step null
      by (simp add: replicate_append_same)
  qed
qed

end

section \<open>Page arithmetic\<close>

text \<open>Adding a page offset to a page-aligned address and taking the page number, modulo wrap-around.\<close>

lemma page_of_sum: "drop_bit 12 (push_bit 12 P + push_bit 12 g :: 64 word) = take_bit 52 (P + g)"
proof -
  have "drop_bit 12 (push_bit 12 (P + g)) = take_bit 52 (P + g)"
    by (rule bit_word_eqI) (auto simp: bit_simps)
  then show ?thesis by (simp add: push_bit_add)
qed

lemma page_same_iff:
  assumes "take_bit 52 P = (P :: 64 word)"
  shows "take_bit 52 (P + g) = P \<longleftrightarrow> take_bit 52 g = 0"
proof -
  have shift: "take_bit 52 x = take_bit 52 y \<longleftrightarrow> push_bit 12 x = push_bit 12 y" for x y :: "64 word"
  proof
    have "push_bit 12 z = push_bit 12 (take_bit 52 z)" for z :: "64 word"
      by (rule bit_word_eqI) (auto simp: bit_simps)
    then show "take_bit 52 x = take_bit 52 y \<Longrightarrow> push_bit 12 x = push_bit 12 y" by metis
    show "push_bit 12 x = push_bit 12 y \<Longrightarrow> take_bit 52 x = take_bit 52 y"
      using page_of_sum [of x 0] page_of_sum [of y 0] by simp
  qed
  have "take_bit 52 (P + g) = P \<longleftrightarrow> push_bit 12 (P + g) = push_bit 12 P"
    using shift [of "P + g" P] assms by simp
  also have "\<dots> \<longleftrightarrow> push_bit 12 g = push_bit 12 0" by (simp add: push_bit_add)
  also have "\<dots> \<longleftrightarrow> take_bit 52 g = 0" using shift [of g 0] by simp
  finally show ?thesis .
qed

section \<open>The driver on the reference kernel\<close>

definition mmap_boot :: "nat \<Rightarrow> ref_mm mmap_user" where
  "mmap_boot n = \<lparr>kern = \<lparr>ru_mem = (\<lambda>_. 0), ru_ok = (\<lambda>_. True), ru_devs = Map.empty,
     mm_budget = n, mm_objs = [], mm_maps = []\<rparr>, klog = [], faults = [],
     modules = {}, stdout = [], buffer = NULL, phys = (\<lambda>_. CHR ''0'')\<rparr>"

text \<open>The driver loaded, with the buffer at 4096.\<close>

definition mmap_loaded :: "ref_mm mmap_user" where
  "mmap_loaded = (mmap_boot 0)\<lparr>kern := (kern (mmap_boot 0))\<lparr>ru_devs := [150 \<mapsto> (''mmapchar'', Fops_mmap)], mm_objs := [4096]\<rparr>,
     modules := {Fops_mmap}, buffer := 4096\<rparr>"

lemma mmap_loaded_simps:
  "faults mmap_loaded = []" "stdout mmap_loaded = []" "buffer mmap_loaded = 4096" "Fops_mmap \<in> modules mmap_loaded"
  "buffer mmap_loaded \<in> allocated ref_mm_slab (kern mmap_loaded)"
  "chrdevs ref_uaccess (kern mmap_loaded) 150 = Some (''mmapchar'', Fops_mmap)"
  by (simp_all add: mmap_loaded_def mmap_boot_def ref_mm_slab_def)

section \<open>Properties\<close>

text \<open>
  Loading the mmap driver has three outcomes. It returns 0 with the device registered and a
  buffer freshly allocated; or a negative result of the registration is passed on and nothing has
  changed; or the allocation fails and it returns -1, and then the device stays registered
  although the module is not loaded.
\<close>

theorem mmap_init_outcomes:
  assumes "mmap_api K C M" and "mmap_example_init K C s = (rc, s')"
  shows "faults s' = faults s \<and> modules s' = modules s \<and>
    (rc = 0 \<and> buffer s' \<in> allocated K (kern s') \<and> buffer s' \<notin> valid K (kern s) \<and>
       allocated K (kern s') = insert (buffer s') (allocated K (kern s)) \<and>
       chrdevs C (kern s) 150 = None \<and>
       chrdevs C (kern s') = (chrdevs C (kern s))(150 \<mapsto> (''mmapchar'', Fops_mmap))
     \<or> rc < 0 \<and> allocated K (kern s') = allocated K (kern s) \<and>
       (buffer s' = buffer s \<and> chrdevs C (kern s') = chrdevs C (kern s)
        \<or> rc = -1 \<and> buffer s' = NULL \<and>
          chrdevs C (kern s) 150 = None \<and>
          chrdevs C (kern s') = (chrdevs C (kern s))(150 \<mapsto> (''mmapchar'', Fops_mmap))))"
proof -
  note A = assms(1)
  have SC: "slab_api K" "chrdev_api C" using A by (simp_all add: mmap_api_def)
  obtain ret k where reg: "register_chrdev_op C 150 ''mmapchar'' Fops_mmap (kern s) = (ret, k)" by fastforce
  note reg' = chrdev_api.register_result [OF SC(2) reg] mmap_api.register_frame [OF A reg]
  define t where "t = printk KERN_INFO ''registered correctly with major number %d'' [Num 150] (s\<lparr>kern := k\<rparr>)"
  have t: "kern t = k" "faults t = faults s" "modules t = modules s" by (simp_all add: t_def printk_def)
  obtain p t' where m: "kmalloc K 4096 t = (p, t')" by fastforce
  show ?thesis
  proof (cases "ret < 0")
    case True
    then have "rc = ret" "s' = printk KERN_ALERT ''failed to register a major number %d'' [Num ret] (s\<lparr>kern := k\<rparr>)"
      using assms(2) reg by (auto simp add: mmap_example_init_def)
    then show ?thesis using True reg' by (simp add: printk_def)
  next
    case False
    then have run: "mmap_example_init K C s = (if p = NULL
        then (-1, printk KERN_ALERT ''failed to allocate memory '' [] (t'\<lparr>buffer := p\<rparr>)) else (0, t'\<lparr>buffer := p\<rparr>))"
      using reg m by (simp add: mmap_example_init_def t_def [symmetric])
    from m show ?thesis
    proof (cases rule: slab_api.kmalloc_cases [OF SC(1), consumes 1])
      case (1 k')
      then show ?thesis
        using run assms(2) False reg' t mmap_api.kmalloc_devs [OF A 1(4)] by (auto simp: printk_def)
    next
      case (2 k')
      then show ?thesis
        using run assms(2) False reg' t mmap_api.kmalloc_devs [OF A 2(5)] by (auto simp: valid_def)
    qed
  qed
qed

theorem mmap_init_outcomes_witness:
  "\<exists>s'. mmap_example_init ref_mm_slab ref_uaccess (mmap_boot 0) = (-1, s') \<and>
     ru_devs (kern s') 150 = Some (''mmapchar'', Fops_mmap)"
proof -
  obtain rc s' where run: "mmap_example_init ref_mm_slab ref_uaccess (mmap_boot 0) = (rc, s')" by fastforce
  have "rc = -1" and "ru_devs (kern s') \<noteq> Map.empty"
    using run by (auto simp: mmap_example_init_def mmap_boot_def ref_mm_slab_def ref_uaccess_def kmalloc_def env_defs)
  then show ?thesis
    using mmap_init_outcomes [OF ref_map.mmap_api_axioms run] run
    by (auto simp: ref_uaccess_def mmap_boot_def)
qed

text \<open>
  C12. The release operation frees the buffer but keeps the pointer. Unloading after \<open>n\<close> sessions
  that opened and closed the device commits \<open>n\<close> double frees, so only a module that was never
  used unloads cleanly; from the first session on the buffer is not allocated any more.
\<close>

theorem mmap_sessions_double_free:
  assumes "mmap_api K C M" and "buffer s \<in> allocated K (kern s)"
  shows "faults (mmap_example_exit K C ((mmap_session K ^^ n) s)) = faults s @ replicate n (BadFree (buffer s)) \<and>
    (buffer s \<in> allocated K (kern ((mmap_session K ^^ n) s)) \<longleftrightarrow> n = 0)"
proof -
  note S = mmap_api.sessions [OF assms, of n]
  have "slab_api K" using assms(1) by (simp add: mmap_api_def)
  then have null: "buffer s \<noteq> NULL" using slab_api.valid_nonnull assms(2) valid_allocated by metis
  have "replicate n b = replicate (n - 1) b @ [b]" if "n \<noteq> 0" for b :: fault
    using that by (cases n) (simp_all add: replicate_append_same)
  then show ?thesis
    using S null by (cases "n = 0") (simp_all add: mmap_example_exit_def kfree_def)
qed

theorem mmap_sessions_double_free_witness:
  "faults (mmap_example_exit ref_mm_slab ref_uaccess ((mmap_session ref_mm_slab ^^ 2) mmap_loaded)) =
     [BadFree 4096, BadFree 4096]"
  using mmap_sessions_double_free [OF ref_map.mmap_api_axioms mmap_loaded_simps(5), of 2]
  by (simp add: mmap_loaded_simps(1,3) numeral_2_eq_2)

text \<open>
  C21. What \<open>dev_mmap\<close> maps, as long as the address it computes, the buffer plus the offset, is a
  directly mapped one, for which \<open>virt_to_phys\<close> is the subtraction of a constant. For a page-aligned
  buffer in page \<open>P\<close> of the physical memory it asks for the range from page \<open>P + vm_pgoff\<close> on, modulo
  the wrap-around of the shifted offset, of the size of the whole area, and reports the kernel's
  answer; an area at a page boundary is then translated to these frames. Nothing compares the offset
  with the size of the buffer, which is one page: the first page mapped is the buffer's exactly if the
  offset is a multiple of \<open>2 ^ 52\<close>, and every other offset maps memory of someone else.
\<close>

theorem dev_mmap_window:
  assumes "mmap_api K C M" and "\<And>v. v \<in> direct \<Longrightarrow> virt_to_phys_op M v = v - page_offset"
    and "of_nat (buffer s) \<in> direct" and "of_nat (buffer s) + push_bit 12 (vm_pgoff vma) \<in> direct"
    and "virt_to_phys_op M (of_nat (buffer s)) = push_bit 12 P" and "take_bit 52 P = P"
    and "dev_mmap M vma s = (rc, s')"
  shows "(rc = 0 \<and> mappings M (kern s') = insert (vm_start vma, take_bit 52 (P + vm_pgoff vma), vm_end vma - vm_start vma)
            (mappings M (kern s)) \<and>
          (\<forall>x. take_bit 12 (vm_start vma) = 0 \<and> x - vm_start vma < vm_end vma - vm_start vma \<longrightarrow>
            translate M (kern s') x = Some (push_bit 12 (take_bit 52 (P + vm_pgoff vma)) + (x - vm_start vma)))
          \<or> rc = - EAGAIN \<and> mappings M (kern s') = mappings M (kern s)) \<and>
    (take_bit 52 (P + vm_pgoff vma) = P \<longleftrightarrow> take_bit 52 (vm_pgoff vma) = 0) \<and>
    allocated K (kern s') = allocated K (kern s) \<and> faults s' = faults s"
proof -
  have "virt_to_phys_op M (of_nat (buffer s) + push_bit 12 (vm_pgoff vma)) =
      virt_to_phys_op M (of_nat (buffer s)) + push_bit 12 (vm_pgoff vma)"
    using assms(2) [OF assms(3)] assms(2) [OF assms(4)] by simp
  then have pfn: "drop_bit 12 (virt_to_phys_op M (of_nat (buffer s) + push_bit 12 (vm_pgoff vma))) =
      take_bit 52 (P + vm_pgoff vma)"
    unfolding assms(5) by (simp add: page_of_sum)
  show ?thesis
    by (rule mmap_api.dev_mmap_cases [OF assms(1), of vma s])
      (use assms(7) page_same_iff [OF assms(6)] in \<open>auto simp: pfn\<close>)
qed

theorem dev_mmap_window_witness:
  "\<exists>s s'. dev_mmap ref_mm_remap \<lparr>vm_start = 0x10000, vm_end = 0x11000, vm_pgoff = 1\<rparr> (s :: ref_mm mmap_user) = (0, s') \<and>
     virt_to_phys_op ref_mm_remap (of_nat (buffer s)) = push_bit 12 (0x20 :: 64 word) \<and>
     mappings ref_mm_remap (kern s') = {(0x10000, 0x21, 0x1000)}"
proof -
  define s where "s = (mmap_boot 0)\<lparr>buffer := 0x1020000\<rparr>"
  define vma where "vma = \<lparr>vm_start = 0x10000, vm_end = 0x11000, vm_pgoff = 1 :: 64 word\<rparr>"
  obtain rc s' where run: "dev_mmap ref_mm_remap vma s = (rc, s')" by fastforce
  have b: "virt_to_phys_op ref_mm_remap (of_nat (buffer s)) = push_bit 12 (0x20 :: 64 word)"
    and tb: "take_bit 52 0x20 = (0x20 :: 64 word)" "take_bit 52 0x21 = (0x21 :: 64 word)"
    by (simp_all add: s_def ref_mm_remap_def push_bit_eq_mult take_bit_eq_mod)
  have v: "v \<in> UNIV \<Longrightarrow> virt_to_phys_op ref_mm_remap v = v - push_bit 12 0x1000" for v by (simp add: ref_mm_remap_def)
  have "rc = 0" using run by (auto simp: dev_mmap_def ref_mm_remap_def vma_def Let_def split: if_splits)
  moreover have "mappings ref_mm_remap (kern s) = {}" by (simp add: s_def mmap_boot_def ref_mm_remap_def)
  ultimately have "mappings ref_mm_remap (kern s') = {(0x10000, 0x21, 0x1000)}"
    using dev_mmap_window [OF ref_map.mmap_api_axioms v UNIV_I UNIV_I b tb(1) run] tb(2) by (simp add: vma_def)
  then show ?thesis using run b \<open>rc = 0\<close> unfolding vma_def by blast
qed

text \<open>
  C37. The program against the driver, with the device opened, a live buffer at a page boundary, and an
  address of the mapping at one. If the mapping succeeds it returns 0, having printed \<open>ALL OK\<close> and the
  character it stored: the store went to the first byte of the driver's buffer, as the only byte of
  the physical memory, and was read back from there. Otherwise it prints the failure and returns -1.
  It is never killed by a bus error. In both cases the driver's release has freed the buffer, without
  a fault, and left the pointer to it.
\<close>

theorem mmap_main_correct:
  assumes "mmap_api K C M" and "chrdevs C (kern s) 150 = Some (nm, Fops_mmap)" and "Fops_mmap \<in> modules s"
    and "tbl Fops_mmap = mmap_fops K M" and "buffer s \<in> allocated K (kern s)"
    and "take_bit 12 a = 0" and "take_bit 12 (virt_to_phys_op M (of_nat (buffer s))) = 0"
  shows "\<exists>rc s'. mmap_main C M tbl (Some 150) a s = (Some rc, s') \<and> faults s' = faults s \<and>
    buffer s' = buffer s \<and> buffer s \<notin> allocated K (kern s') \<and>
    (rc = 0 \<and> stdout s' = stdout s @ [''ALL OK'', ''Char = [A]''] \<and>
       phys s' = (phys s)(virt_to_phys_op M (of_nat (buffer s)) := CHR ''A'')
     \<or> rc = -1 \<and> stdout s' = stdout s @ [''Failed to mmap''] \<and> phys s' = phys s)"
proof -
  define s1 where "s1 = snd (mmap_dev_open s)"
  have s1: "mmap_dev_open s = (0, s1)" "kern s1 = kern s" "faults s1 = faults s" "buffer s1 = buffer s"
      "stdout s1 = stdout s" "modules s1 = modules s" "phys s1 = phys s"
    by (simp_all add: s1_def mmap_dev_open_def printk_def)
  let ?p = "virt_to_phys_op M (of_nat (buffer s))" and ?vma = "\<lparr>vm_start = a, vm_end = a + 4096, vm_pgoff = 0\<rparr>"
  have page: "push_bit 12 (drop_bit 12 ?p) = ?p" using assms(7) bits_ident [of 12 ?p] by simp
  obtain rc k ls where run: "dev_mmap M ?vma s1 = (rc, s1\<lparr>kern := k, klog := klog s1 @ ls\<rparr>)"
    and k: "allocated K k = allocated K (kern s1)" "rc = 0 \<or> rc = - EAGAIN" "rc = 0 \<Longrightarrow> translate M k a = Some ?p"
  proof (rule mmap_api.dev_mmap_cases [OF assms(1), of ?vma s1])
    fix rc k ls
    assume "dev_mmap M ?vma s1 = (rc, s1\<lparr>kern := k, klog := klog s1 @ ls\<rparr>)" "allocated K k = allocated K (kern s1)"
      "rc = 0 \<and> mappings M k = insert (vm_start ?vma, drop_bit 12 (virt_to_phys_op M (of_nat (buffer s1) + push_bit 12 (vm_pgoff ?vma))),
          vm_end ?vma - vm_start ?vma) (mappings M (kern s1)) \<or> rc = - EAGAIN \<and> mappings M k = mappings M (kern s1)"
      "\<And>x. rc = 0 \<Longrightarrow> take_bit 12 (vm_start ?vma) = 0 \<Longrightarrow> x - vm_start ?vma < vm_end ?vma - vm_start ?vma \<Longrightarrow>
        translate M k x = Some (push_bit 12 (drop_bit 12 (virt_to_phys_op M (of_nat (buffer s1) + push_bit 12 (vm_pgoff ?vma)))) +
          (x - vm_start ?vma))"
    moreover from this(4) [of a] have "rc = 0 \<Longrightarrow> translate M k a = Some ?p" using assms(6) s1(4) page by simp
    ultimately show thesis using that by blast
  qed
  define s2 where "s2 = s1\<lparr>kern := k, klog := klog s1 @ ls\<rparr>"
  define s3 where "s3 = (if rc \<noteq> 0 then puts ''Failed to mmap'' s2
    else puts ''Char = [A]'' ((puts ''ALL OK'' s2)\<lparr>phys := (phys s2)(?p := CHR ''A'')\<rparr>))"
  have s3: "kern s3 = k" "faults s3 = faults s" "buffer s3 = buffer s" "modules s3 = modules s"
    "stdout s3 = stdout s @ (if rc \<noteq> 0 then [''Failed to mmap''] else [''ALL OK'', ''Char = [A]''])"
    "phys s3 = (if rc \<noteq> 0 then phys s else (phys s)(?p := CHR ''A''))"
    using s1 by (simp_all add: s3_def s2_def puts_def)
  have access: "translate M (kern s2) a = Some ?p" if "rc = 0" using that k(3) by (simp add: s2_def)
  have "mmap_main C M tbl (Some 150) a s = (Some (if rc \<noteq> 0 then -1 else 0), fput tbl Fops_mmap s3)"
    using assms(2,3) s1 access
    by (simp add: mmap_main_def sys_open_def sys_mmap_def mmap_calls [where tbl = tbl, OF assms(4)] run s2_def [symmetric]
        s3_def puts_def user_write_def user_read_def)
  then have main: "mmap_main C M tbl (Some 150) a s = (Some (if rc \<noteq> 0 then -1 else 0), snd (mmap_dev_release K s3))"
    using s3(4) assms(3) by (simp add: fput_def mmap_calls [where tbl = tbl, OF assms(4)])
  have live: "buffer s3 \<in> allocated K (kern s3)" using s3 k s1 assms(5) by simp
  have "stdout (snd (mmap_dev_release K s3)) = stdout s3" "phys (snd (mmap_dev_release K s3)) = phys s3"
    by (simp_all add: mmap_dev_release_def kfree_def env_defs)
  then show ?thesis
    using main mmap_api.release_first [OF assms(1) live] s3 k(2) by (cases "rc = 0") auto
qed

theorem mmap_main_correct_witness:
  "\<exists>s'. mmap_main ref_uaccess ref_mm_remap (\<lambda>_. mmap_fops ref_mm_slab ref_mm_remap) (Some 150) 0x10000 mmap_loaded = (Some 0, s') \<and>
     faults s' = [] \<and> stdout s' = [''ALL OK'', ''Char = [A]''] \<and>
     phys s' (virt_to_phys_op ref_mm_remap 4096) = CHR ''A''"
proof -
  let ?tbl = "\<lambda>_. mmap_fops ref_mm_slab ref_mm_remap" and ?vma = "\<lparr>vm_start = 0x10000, vm_end = 0x10000 + 4096, vm_pgoff = 0\<rparr>"
  have ok: "fst (sys_mmap ?tbl Fops_mmap ?vma s)" if "Fops_mmap \<in> modules s" for s :: "ref_mm mmap_user"
    using that by (simp add: sys_mmap_def mmap_calls [where tbl = ?tbl, OF refl] split_beta)
      (simp add: dev_mmap_def ref_mm_remap_def Let_def)
  have "fst (mmap_main ref_uaccess ref_mm_remap ?tbl (Some 150) 0x10000 mmap_loaded) \<noteq> Some (-1)"
    using mmap_loaded_simps(4,6) ok [of "snd (mmap_dev_open mmap_loaded)"]
    by (simp add: mmap_main_def sys_open_def mmap_calls [where tbl = ?tbl, OF refl] mmap_dev_open_def
        Let_def split_beta printk_def split: option.splits)
  moreover have "take_bit 12 (0x10000 :: 64 word) = 0"
    "take_bit 12 (virt_to_phys_op ref_mm_remap (of_nat (buffer mmap_loaded))) = (0 :: 64 word)"
    by (simp_all add: mmap_loaded_simps(3) ref_mm_remap_def push_bit_eq_mult take_bit_eq_mod)
  ultimately show ?thesis
    using mmap_main_correct [where tbl = ?tbl, OF ref_map.mmap_api_axioms mmap_loaded_simps(6,4) refl mmap_loaded_simps(5),
        of "0x10000"] by (auto simp: mmap_loaded_simps(1-3))
qed

end
