(* ===== verification/Step_System.thy ===== *)
theory Step_System
  imports Lkb_Prelude
begin

text \<open>
  Transition systems, for the modules whose parts run concurrently: the states that steps reach
  from an initial one, and four contracts. An invariant system has a predicate that the initial
  state satisfies and every step keeps; a terminating system has in addition a measure that every
  step makes smaller. A quiescent system does nothing any more once it is gone. A forward simulation relates the states of a system to those of an abstract
  one.
\<close>

inductive reachable :: "'s \<Rightarrow> ('s \<Rightarrow> 's \<Rightarrow> bool) \<Rightarrow> 's \<Rightarrow> bool" for boot step where
  init: "reachable boot step boot"
| step: "reachable boot step s \<Longrightarrow> step s t \<Longrightarrow> reachable boot step t"

lemma reachable_iff: "reachable boot step s \<longleftrightarrow> step\<^sup>*\<^sup>* boot s"
proof
  show "reachable boot step s \<Longrightarrow> step\<^sup>*\<^sup>* boot s"
    by (induction rule: reachable.induct) (auto intro: rtranclp.rtrancl_into_rtrancl)
  show "step\<^sup>*\<^sup>* boot s \<Longrightarrow> reachable boot step s"
    by (induction rule: rtranclp.induct) (auto intro: reachable.intros)
qed

locale invariant_system =
  fixes boot :: 's and step :: "'s \<Rightarrow> 's \<Rightarrow> bool" and inv :: "'s \<Rightarrow> bool"
  assumes inv_boot: "inv boot"
    and inv_step: "step s t \<Longrightarrow> inv s \<Longrightarrow> inv t"
begin

lemma reach_inv: "reachable boot step s \<Longrightarrow> inv s"
  by (induction rule: reachable.induct) (auto intro: inv_boot inv_step)

lemma run_inv:
  assumes "run 0 = boot" and "\<And>i. step (run i) (run (Suc i))"
  shows "inv (run i)"
proof (induction i)
  case 0
  then show ?case by (simp only: assms(1) inv_boot)
next
  case (Suc i)
  then show ?case by (rule inv_step [OF assms(2)])
qed

end

locale terminating_system = invariant_system +
  fixes rank :: "'a \<Rightarrow> nat"
  assumes rank_step: "step s t \<Longrightarrow> inv s \<Longrightarrow> rank t < rank s"
begin

lemma no_infinite_run: "\<nexists>run. run 0 = boot \<and> (\<forall>i. step (run i) (run (Suc i)))"
proof
  assume "\<exists>run. run 0 = boot \<and> (\<forall>i. step (run i) (run (Suc i)))"
  then obtain run where run: "run 0 = boot" "\<And>i. step (run i) (run (Suc i))" by blast
  have "rank (run (Suc i)) < rank (run i)" for i
    by (rule rank_step [OF run(2) run_inv [OF run]])
  then show False using no_descent [of "rank \<circ> run"] by simp
qed

text \<open>From every reachable state some state in which nothing can run is reachable.\<close>

lemma reaches_end: "inv s \<Longrightarrow> \<exists>t. step\<^sup>*\<^sup>* s t \<and> (\<nexists>u. step t u)"
proof (induction "rank s" arbitrary: s rule: less_induct)
  case less
  show ?case
  proof (cases "\<exists>u. step s u")
    case True
    then obtain u where u: "step s u" by blast
    then obtain t where "step\<^sup>*\<^sup>* u t" "\<nexists>v. step t v" using less rank_step inv_step by blast
    then show ?thesis using u by (meson converse_rtranclp_into_rtranclp)
  qed blast
qed

end

text \<open>
  A module is quiescent after it has been unloaded: no step from a reachable state in which it is
  gone changes anything.
\<close>

definition quiescent_after :: "'s \<Rightarrow> ('s \<Rightarrow> 's \<Rightarrow> bool) \<Rightarrow> ('s \<Rightarrow> bool) \<Rightarrow> bool" where
  "quiescent_after boot step gone \<longleftrightarrow> (\<forall>s t. reachable boot step s \<longrightarrow> gone s \<longrightarrow> step s t \<longrightarrow> t = s)"

lemma not_quiescent: "reachable boot step s \<Longrightarrow> gone s \<Longrightarrow> step s t \<Longrightarrow> t \<noteq> s \<Longrightarrow> \<not> quiescent_after boot step gone"
  unfolding quiescent_after_def by blast

locale quiescent_system = invariant_system +
  fixes gone :: "'a \<Rightarrow> bool"
  assumes gone_step: "inv s \<Longrightarrow> gone s \<Longrightarrow> step s t \<Longrightarrow> t = s"
begin

lemma quiescent: "quiescent_after boot step gone"
  unfolding quiescent_after_def using gone_step reach_inv by blast

lemma gone_for_good:
  assumes "reachable boot step s" and "gone s" and "step\<^sup>*\<^sup>* s t"
  shows "t = s"
  using assms(3) by (induction rule: rtranclp_induct) (use gone_step [OF reach_inv [OF assms(1)] assms(2)] in blast)+

end

text \<open>
  Refinement: a relation between the states of a concrete and of an abstract system that every
  concrete step keeps, the abstract system answering with any number of steps.
\<close>

locale forward_simulation =
  fixes cboot :: 'c and cstep :: "'c \<Rightarrow> 'c \<Rightarrow> bool" and aboot :: 'a and astep :: "'a \<Rightarrow> 'a \<Rightarrow> bool"
    and R :: "'c \<Rightarrow> 'a \<Rightarrow> bool"
  assumes sim_boot: "R cboot aboot"
    and sim_step: "cstep c c' \<Longrightarrow> R c a \<Longrightarrow> \<exists>a'. astep\<^sup>*\<^sup>* a a' \<and> R c' a'"
begin

lemma sim_reach: "reachable cboot cstep c \<Longrightarrow> \<exists>a. reachable aboot astep a \<and> R c a"
proof (induction rule: reachable.induct)
  case init
  show ?case by (intro exI [of _ aboot] conjI reachable.init sim_boot)
next
  case (step c c')
  from step.IH obtain a where a: "reachable aboot astep a" "R c a" by blast
  obtain a' where a': "astep\<^sup>*\<^sup>* a a'" "R c' a'" using sim_step [OF step.hyps(2) a(2)] by blast
  have "reachable aboot astep a'" using a(1) a'(1) unfolding reachable_iff by simp
  then show ?case using a'(2) by blast
qed

end

end
