(* ===== verification/Devices.thy ===== *)
theory Devices
  imports Ioctl Mmap Step_System
begin

text \<open>
  The two character drivers on one computer. Both register the major number 150 under the name
  \<open>mmapchar\<close>, and both programs open the same device node, so that the drivers meet in the table of
  registered devices. Loading, unloading and the system calls of any number of processes are the
  steps of a transition system, each carried out by the definitions of the drivers.
\<close>

section \<open>The drivers of the computer\<close>

definition dev_table ::
  "nat \<Rightarrow> ('k, 'x) uaccess_ops_scheme \<Rightarrow> ('k, 'y) slab_ops_scheme \<Rightarrow> 'k remap_ops \<Rightarrow> fops_ref \<Rightarrow> 'k mmap_user file_operations" where
  "dev_table ver U K M r = (case r of Fops_ioctl \<Rightarrow> ioctl_fops ver U | Fops_mmap \<Rightarrow> mmap_fops K M)"

text \<open>
  The module loader of the kernel. \<open>insmod\<close> brings the initial values of the module's variables and
  runs its init function (\<open>module_init\<close>); the module stays loaded unless the result is negative, and
  then its variables vanish with it. \<open>rmmod\<close> runs its exit function (\<open>module_exit\<close>).
\<close>

definition insmod ::
  "('k, 'x) uaccess_ops_scheme \<Rightarrow> ('k, 'y) slab_ops_scheme \<Rightarrow> fops_ref \<Rightarrow> 'k mmap_user \<Rightarrow> int \<times> 'k mmap_user" where
  "insmod U K m s =
     (let (rc, t) = (case m of
        Fops_ioctl \<Rightarrow> ioctl_init U s
      | Fops_mmap \<Rightarrow> mmap_example_init K U (s\<lparr>buffer := NULL\<rparr>))
      in (rc, if rc < 0 then t\<lparr>buffer := buffer s\<rparr> else t\<lparr>modules := insert m (modules t)\<rparr>))"

definition rmmod ::
  "('k, 'x) uaccess_ops_scheme \<Rightarrow> ('k, 'y) slab_ops_scheme \<Rightarrow> fops_ref \<Rightarrow> 'k mmap_user \<Rightarrow> 'k mmap_user" where
  "rmmod U K m s =
     (let s = (case m of Fops_ioctl \<Rightarrow> ioctl_exit U s | Fops_mmap \<Rightarrow> mmap_example_exit K U s)
      in s\<lparr>modules := modules s - {m}\<rparr>)"

section \<open>The transition system\<close>

text \<open>
  \<open>files\<close>: the open files, each with its table and the number of references to it, which are the
  descriptor and the mappings.
\<close>

record 'k devices =
  mach :: "'k mmap_user"
  files :: "(fops_ref \<times> nat) list"

text \<open>A module that owns its table is not unloaded while one of its files is open.\<close>

definition pinned :: "(fops_ref \<Rightarrow> 's file_operations) \<Rightarrow> fops_ref \<Rightarrow> (fops_ref \<times> nat) list \<Rightarrow> bool" where
  "pinned tbl m fs \<longleftrightarrow> f_owner (tbl m) \<and> m \<in> fst ` set fs"

inductive device_step ::
  "nat \<Rightarrow> ('k, 'x) uaccess_ops_scheme \<Rightarrow> ('k, 'y) slab_ops_scheme \<Rightarrow> 'k remap_ops \<Rightarrow> 'k devices \<Rightarrow> 'k devices \<Rightarrow> bool"
  for ver U K M where
  ds_insmod: "m \<notin> modules (mach d) \<Longrightarrow> device_step ver U K M d (d\<lparr>mach := snd (insmod U K m (mach d))\<rparr>)"
| ds_rmmod: "m \<in> modules (mach d) \<Longrightarrow> \<not> pinned (dev_table ver U K M) m (files d) \<Longrightarrow>
    device_step ver U K M d (d\<lparr>mach := rmmod U K m (mach d)\<rparr>)"
| ds_open: "sys_open U (dev_table ver U K M) node (mach d) = (fd, s) \<Longrightarrow>
    device_step ver U K M d (d\<lparr>mach := s, files := files d @ (case fd of None \<Rightarrow> [] | Some r \<Rightarrow> [(r, 1)])\<rparr>)"
| ds_ioctl: "i < length (files d) \<Longrightarrow> files d ! i = (r, n) \<Longrightarrow>
    device_step ver U K M d (d\<lparr>mach := snd (sys_ioctl (dev_table ver U K M) r cmd arg (mach d))\<rparr>)"
| ds_mmap: "i < length (files d) \<Longrightarrow> files d ! i = (r, n) \<Longrightarrow>
    sys_mmap (dev_table ver U K M) r vma (mach d) = (mapped, s) \<Longrightarrow>
    device_step ver U K M d (d\<lparr>mach := s, files := (if mapped then (files d)[i := (r, Suc n)] else files d)\<rparr>)"
| ds_drop: "i < length (files d) \<Longrightarrow> files d ! i = (r, Suc (Suc n)) \<Longrightarrow>
    device_step ver U K M d (d\<lparr>files := (files d)[i := (r, Suc n)]\<rparr>)"
| ds_release: "i < length (files d) \<Longrightarrow> files d ! i = (r, 1) \<Longrightarrow>
    device_step ver U K M d (d\<lparr>mach := fput (dev_table ver U K M) r (mach d), files := take i (files d) @ drop (Suc i) (files d)\<rparr>)"
| ds_store: "device_step ver U K M d (d\<lparr>mach := upd_kern (user_store_op U a bs) (mach d)\<rparr>)"
| ds_poke: "user_write M a c (mach d) = Some s \<Longrightarrow> device_step ver U K M d (d\<lparr>mach := s\<rparr>)"
| ds_print: "device_step ver U K M d (d\<lparr>mach := puts line (mach d)\<rparr>)"

locale devices_api = mmap_api K U M + uaccess_api U
  for K :: "('k, 'y) slab_ops_scheme" and U :: "('k, 'x) uaccess_ops_scheme" and M :: "'k remap_ops" +
  assumes user_store_alloc: "allocated K (user_store_op U a bs k) = allocated K k"
    and user_store_maps: "mappings M (user_store_op U a bs k) = mappings M k"
    and kfree_maps: "mappings M (kfree_op K p k) = mappings M k"

interpretation ref_dev: devices_api ref_mm_slab ref_uaccess ref_mm_remap
  by unfold_locales (simp_all add: ref_mm_slab_def ref_uaccess_def ref_mm_remap_def)

section \<open>What every call keeps\<close>

text \<open>Inside the drivers nothing changes the registered devices or the modules loaded.\<close>

definition same_devs :: "('k, 'x) chrdev_ops_scheme \<Rightarrow> ('k, 'z) machine_scheme \<Rightarrow> ('k, 'z) machine_scheme \<Rightarrow> bool" where
  "same_devs C s t \<longleftrightarrow> chrdevs C (kern t) = chrdevs C (kern s) \<and> modules t = modules s"

lemma same_devs_simps [simp]:
  "same_devs C s s" "same_devs C s (fault f s)" "same_devs C s (printk l fmt as s)" "same_devs C s (puts line s)"
  by (simp_all add: same_devs_def env_defs puts_def)

context devices_api
begin

lemma dev_ioctl_same: "same_devs U s (snd (dev_ioctl U cmd arg s))"
proof -
  obtain r k where c: "copy_to_user_op U arg (le_bytes 14) (kern s) = (r, k)" by fastforce
  show ?thesis
    using to_user_frame [OF c] c by (simp add: same_devs_def dev_ioctl_def Let_def split_beta printk_def query_distinct [symmetric])
qed

lemma dev_mmap_same: "same_devs U s (snd (dev_mmap M vma s))"
  using remap_frame by (simp add: same_devs_def dev_mmap_def Let_def split_beta printk_def) (metis prod.collapse)

lemma mmap_release_same: "same_devs U s (snd (mmap_dev_release K s))"
  by (simp add: same_devs_def mmap_dev_release_def kfree_def env_defs kfree_devs)

lemma table_same: "table_sat (same_devs U) (dev_table ver U K M r)"
  by (cases r) (auto simp: table_sat_def dev_table_def ioctl_fops_def mmap_fops_def ioctl_dev_open_def ioctl_dev_release_def
      mmap_dev_open_def dev_ioctl_same dev_mmap_same mmap_release_same split: if_splits)

lemmas sys_same = ref_fs.sys_calls_typed [where P = "same_devs U" and tbl = "dev_table ver U K M",
    OF disjI2 table_same, simplified] for ver

text \<open>Loading and unloading, for either driver.\<close>

lemma insmod_result:
  assumes "insmod U K m s = (rc, s')"
  obtains (loaded) "\<not> rc < 0" "chrdevs U (kern s) 150 = None" "modules s' = insert m (modules s)"
      "chrdevs U (kern s') = (chrdevs U (kern s))(150 \<mapsto> (''mmapchar'', m))"
  | (refused) "rc < 0" "same_devs U s s'"
  | (half) "rc < 0" "m = Fops_mmap" "chrdevs U (kern s) 150 = None" "modules s' = modules s"
      "chrdevs U (kern s') = (chrdevs U (kern s))(150 \<mapsto> (''mmapchar'', m))"
proof (cases m)
  case Fops_ioctl
  obtain s1 where run: "ioctl_init U s = (rc, s1)"
    and s': "s' = (if rc < 0 then s1\<lparr>buffer := buffer s\<rparr> else s1\<lparr>modules := insert m (modules s1)\<rparr>)"
    using assms Fops_ioctl by (auto simp: insmod_def Let_def split: prod.splits)
  have "modules s1 = modules s" using run by (auto simp: ioctl_init_def env_defs split_beta Let_def split: if_splits)
  then show thesis
    using ioctl_init_exit [OF uaccess_api_axioms run] loaded refused s' Fops_ioctl by (cases "rc < 0") (auto simp: same_devs_def)
next
  case Fops_mmap
  obtain s1 where run: "mmap_example_init K U (s\<lparr>buffer := NULL\<rparr>) = (rc, s1)"
    and s': "s' = (if rc < 0 then s1\<lparr>buffer := buffer s\<rparr> else s1\<lparr>modules := insert m (modules s1)\<rparr>)"
    using assms Fops_mmap by (auto simp: insmod_def Let_def split: prod.splits)
  show thesis
    using mmap_init_outcomes [OF mmap_api_axioms run] loaded refused half s' Fops_mmap
    by (cases "rc < 0") (auto simp: same_devs_def)
qed

lemma rmmod_result:
  "chrdevs U (kern (rmmod U K m s)) = (chrdevs U (kern s))(150 := None)" "modules (rmmod U K m s) = modules s - {m}"
  by (cases m; simp add: rmmod_def ioctl_exit_def mmap_example_exit_def unregister_result kfree_def kfree_devs env_defs)+

text \<open>Every step loads, unloads, or leaves the devices alone.\<close>

lemma device_step_devs:
  assumes "device_step ver U K M d t"
  obtains (ins) m where "m \<notin> modules (mach d)" "mach t = snd (insmod U K m (mach d))" "files t = files d"
  | (rem) m where "m \<in> modules (mach d)" "mach t = rmmod U K m (mach d)" "files t = files d"
  | (same) "same_devs U (mach d) (mach t)"
  using assms
proof cases
  case (ds_open node fd s)
  then show thesis using same sys_same(1) [of "mach d" U ver node] by simp
next
  case (ds_mmap i r n vma mapped s)
  then show thesis using same sys_same(3) [of "mach d" ver r vma] by simp
next
  case (ds_store a bs)
  then show thesis using same by (simp add: same_devs_def user_store_frame upd_kern_def)
next
  case (ds_poke a c s)
  then show thesis using same by (auto simp: same_devs_def user_write_def)
qed (use ins rem same sys_same in auto)

end

section \<open>The invariant\<close>

text \<open>Before anything happens no driver is registered or loaded and no file is open.\<close>

definition devices_boot :: "('k, 'x) chrdev_ops_scheme \<Rightarrow> 'k devices \<Rightarrow> bool" where
  "devices_boot C d \<longleftrightarrow> chrdevs C (kern (mach d)) = Map.empty \<and> modules (mach d) = {} \<and> files d = []"

text \<open>
  Nothing is registered and loaded; or one driver is, under the number 150; or the table of the
  mmap driver is registered without the driver being loaded.
\<close>

definition devices_inv :: "('k, 'x) chrdev_ops_scheme \<Rightarrow> 'k devices \<Rightarrow> bool" where
  "devices_inv C d \<longleftrightarrow>
     chrdevs C (kern (mach d)) = Map.empty \<and> modules (mach d) = {} \<or>
     (\<exists>m. chrdevs C (kern (mach d)) = [150 \<mapsto> (''mmapchar'', m)] \<and>
       (modules (mach d) = {m} \<or> modules (mach d) = {} \<and> m = Fops_mmap))"

locale devices_run = devices_api K U M
  for K :: "('k, 'y) slab_ops_scheme" and U :: "('k, 'x) uaccess_ops_scheme" and M :: "'k remap_ops" +
  fixes ver :: nat and d0 :: "'k devices"
  assumes boot: "devices_boot U d0"
begin

lemma devices_inv_step:
  assumes "device_step ver U K M d t" and "devices_inv U d"
  shows "devices_inv U t"
  using assms(1)
proof (cases rule: device_step_devs)
  case (ins m)
  obtain rc s where run: "insmod U K m (mach d) = (rc, s)" by fastforce
  then show ?thesis
    by (cases rule: insmod_result) (use assms(2) ins run in \<open>auto simp: devices_inv_def same_devs_def\<close>)
next
  case (rem m)
  then show ?thesis using assms(2) by (auto simp: devices_inv_def rmmod_result)
next
  case same
  then show ?thesis using assms(2) by (simp add: devices_inv_def same_devs_def)
qed

end

sublocale devices_run \<subseteq> inv: invariant_system d0 "device_step ver U K M" "devices_inv U"
  by unfold_locales (use boot devices_inv_step in \<open>auto simp: devices_inv_def devices_boot_def\<close>)

text \<open>The computer with the reference kernel, in which \<open>n\<close> allocations succeed.\<close>

definition ref_devices :: "nat \<Rightarrow> ref_mm devices" where
  "ref_devices n = \<lparr>mach = mmap_boot n, files = []\<rparr>"

lemma ref_devices_boot: "devices_boot ref_uaccess (ref_devices n)"
  by (simp add: devices_boot_def ref_devices_def mmap_boot_def)

interpretation ref_run: devices_run ref_mm_slab ref_uaccess ref_mm_remap "KERNEL_VERSION 3 10 0" "ref_devices n" for n
  by unfold_locales (rule ref_devices_boot)

context devices_run
begin

lemmas reach_inv = inv.reach_inv

text \<open>While a table is registered under the number no driver can be loaded.\<close>

lemma insmod_refused:
  assumes "chrdevs U (kern s) 150 \<noteq> None"
  shows "\<exists>rc k. insmod U K m s =
      (rc, s\<lparr>kern := k, klog := klog s @ [Line KERN_ALERT ''failed to register a major number %d'' [Num rc]]\<rparr>) \<and>
    rc < 0 \<and> chrdevs U k = chrdevs U (kern s) \<and> allocated K k = allocated K (kern s)"
proof -
  obtain rc k where r: "register_chrdev_op U 150 ''mmapchar'' m (kern s) = (rc, k)" by fastforce
  have "rc < 0" "chrdevs U k = chrdevs U (kern s)" using register_taken [OF r _ assms] by simp_all
  moreover have "allocated K k = allocated K (kern s)" by (rule register_frame [OF r])
  ultimately show ?thesis
    using r by (intro exI [of _ rc] exI [of _ k], cases m)
      (simp_all add: insmod_def ioctl_init_def mmap_example_init_def printk_def)
qed

lemma insmod_taken:
  assumes "chrdevs U (kern s) 150 \<noteq> None"
  shows "fst (insmod U K m s) < 0 \<and> same_devs U s (snd (insmod U K m s))"
  using insmod_refused [OF assms, of m] by (auto simp: same_devs_def)

text \<open>The state a failed load of the mmap driver leaves is kept by every step.\<close>

lemma stale_step:
  assumes "device_step ver U K M d t" and "modules (mach d) = {}"
    and "chrdevs U (kern (mach d)) = [150 \<mapsto> (''mmapchar'', Fops_mmap)]"
  shows "modules (mach t) = {} \<and> chrdevs U (kern (mach t)) = [150 \<mapsto> (''mmapchar'', Fops_mmap)]"
  using assms(1)
proof (cases rule: device_step_devs)
  case (ins m)
  then show ?thesis using insmod_taken [of "mach d" m] assms(2,3) by (simp add: same_devs_def)
qed (use assms(2,3) in \<open>simp_all add: same_devs_def\<close>)

lemma stale_steps:
  assumes "(device_step ver U K M)\<^sup>*\<^sup>* d t" and "modules (mach d) = {}"
    and "chrdevs U (kern (mach d)) = [150 \<mapsto> (''mmapchar'', Fops_mmap)]"
  shows "modules (mach t) = {} \<and> chrdevs U (kern (mach t)) = [150 \<mapsto> (''mmapchar'', Fops_mmap)]"
  using assms by (induction rule: rtranclp_induct) (auto dest: stale_step)

end

lemma devices_runI: "devices_api K U M \<Longrightarrow> devices_boot U d0 \<Longrightarrow> devices_run K U M d0"
  by (simp add: devices_run_def devices_run_axioms_def)

lemmas devices_reach_inv = devices_run.reach_inv [OF devices_runI]

section \<open>Calls that reach the ioctl driver\<close>

lemma ioctl_calls:
  assumes "tbl Fops_ioctl = ioctl_fops ver U"
  shows "vfs_call tbl Fops_ioctl S_open m call_inode_file s =
      (if Fops_ioctl \<in> modules s then ioctl_dev_open s else (-1, fault UnloadedCode s))"
    and "vfs_call tbl Fops_ioctl S_release m call_inode_file s =
      (if Fops_ioctl \<in> modules s then ioctl_dev_release s else (-1, fault UnloadedCode s))"
    and "vfs_call tbl Fops_ioctl S_mmap m (\<lambda>c. call_file_vma c vma) s =
      (if Fops_ioctl \<in> modules s then (m, s) else (-1, fault UnloadedCode s))"
    and "KERNEL_VERSION 2 6 35 \<le> ver \<Longrightarrow> sys_ioctl tbl Fops_ioctl cmd arg s =
      (if Fops_ioctl \<in> modules s then let (rc, s) = dev_ioctl U cmd arg s in (if rc < 0 then -1 else rc, s)
       else (-1, fault UnloadedCode s))"
    and "ver < KERNEL_VERSION 2 6 35 \<Longrightarrow> sys_ioctl tbl Fops_ioctl cmd arg s =
      (-1, fault (if Fops_ioctl \<in> modules s then BadCall else UnloadedCode) s)"
  by (simp_all add: assms vfs_call_def ioctl_fops_def call_inode_file_def call_file_vma_def call_file_cmd_def
      call_inode_file_cmd_def sys_ioctl_def)

lemma dev_table_refs [simp]:
  "dev_table ver U K M Fops_ioctl = ioctl_fops ver U" "dev_table ver U K M Fops_mmap = mmap_fops K M"
  by (simp_all add: dev_table_def)

lemmas dev_table_calls = ioctl_calls [where tbl = "dev_table ver U K M" for ver U K M, OF dev_table_refs(1)]
  mmap_calls [where tbl = "dev_table ver U K M" for ver U K M, OF dev_table_refs(2)]

text \<open>No function of a driver is called with the wrong type through a typed table.\<close>

definition no_bad_call :: "('k, 'z) env_scheme \<Rightarrow> ('k, 'z) env_scheme \<Rightarrow> bool" where
  "no_bad_call s t \<longleftrightarrow> (BadCall \<in> set (faults t) \<longrightarrow> BadCall \<in> set (faults s))"

lemma no_bad_call_simps:
  "no_bad_call s (printk l fmt as s)" "no_bad_call s (snd (dev_ioctl U cmd arg s))" "no_bad_call u (snd (dev_mmap M vma u))"
  "no_bad_call u (snd (mmap_dev_release K u))"
  by (simp_all add: no_bad_call_def dev_ioctl_def dev_mmap_def mmap_dev_release_def kfree_def Let_def split_beta)

lemma table_no_bad_call: "table_sat no_bad_call (dev_table ver U K M r)"
  by (cases r) (auto simp: table_sat_def dev_table_def ioctl_fops_def mmap_fops_def ioctl_dev_open_def ioctl_dev_release_def
      mmap_dev_open_def no_bad_call_simps split: if_splits)

context fs_header
begin

lemma ioctl_fops_typed: "fops_typed H (ioctl_fops ver U) \<longleftrightarrow> KERNEL_VERSION 2 6 35 \<le> ver"
proof (cases "KERNEL_VERSION 2 6 35 \<le> ver")
  case True
  then show ?thesis by (simp add: fops_typed_def ioctl_slots open_type release_type unlocked_ioctl_type)
next
  case False
  then have "f_slots (ioctl_fops ver U) S_ioctl = Some (Fn_file_cmd (dev_ioctl U))" by (simp add: ioctl_slots_old)
  moreover have "c_type (Fn_file_cmd (dev_ioctl U)) \<noteq> H S_ioctl" by (simp add: ioctl_type)
  ultimately show ?thesis using False by (auto simp: fops_typed_def simp del: c_type.simps)
qed

lemma mmap_fops_typed: "fops_typed H (mmap_fops K M)"
  by (simp add: fops_typed_def mmap_fops_def open_type release_type mmap_type)

end

lemma sys_no_bad_call:
  assumes "KERNEL_VERSION 2 6 35 \<le> ver"
  shows "no_bad_call s (snd (sys_open C (dev_table ver U K M) node s))"
    and "no_bad_call s (snd (sys_ioctl (dev_table ver U K M) r cmd arg s))"
    and "no_bad_call s (snd (sys_mmap (dev_table ver U K M) r vma s))"
    and "no_bad_call s (fput (dev_table ver U K M) r s)"
proof -
  have "fops_typed ref_fs_header (dev_table ver U K M r)" for r
    using ref_fs.ioctl_fops_typed [of ver U] ref_fs.mmap_fops_typed [of K M] assms by (cases r) simp_all
  note calls = ref_fs.sys_calls_typed [where P = no_bad_call and tbl = "dev_table ver U K M", OF disjI1 [OF this] table_no_bad_call]
  show "no_bad_call s (snd (sys_open C (dev_table ver U K M) node s))"
    "no_bad_call s (snd (sys_ioctl (dev_table ver U K M) r cmd arg s))"
    "no_bad_call s (snd (sys_mmap (dev_table ver U K M) r vma s))"
    "no_bad_call s (fput (dev_table ver U K M) r s)"
    by (rule calls; simp add: no_bad_call_def)+
qed

lemma insmod_rmmod_no_bad_call: "no_bad_call s (snd (insmod U K m s))" "no_bad_call s (rmmod U K m s)"
proof -
  show "no_bad_call s (rmmod U K m s)"
    by (cases m) (simp_all add: no_bad_call_def rmmod_def ioctl_exit_def mmap_example_exit_def kfree_def env_defs)
  show "no_bad_call s (snd (insmod U K m s))"
    by (cases m) (simp_all add: no_bad_call_def insmod_def ioctl_init_def mmap_example_init_def kmalloc_def env_defs split_beta Let_def)
qed

lemma device_step_no_bad_call:
  assumes "device_step ver U K M d t" and "KERNEL_VERSION 2 6 35 \<le> ver"
  shows "no_bad_call (mach d) (mach t)"
  using assms(1)
proof cases
  case (ds_open node fd s)
  then show ?thesis using sys_no_bad_call(1) [OF assms(2), of "mach d" U U K M node] by simp
next
  case (ds_mmap i r n vma mapped s)
  then show ?thesis using sys_no_bad_call(3) [OF assms(2), of "mach d" U K M r vma] by simp
next
  case (ds_poke a c s)
  then show ?thesis by (simp add: no_bad_call_def user_write_faults)
qed (use sys_no_bad_call [OF assms(2)] insmod_rmmod_no_bad_call in \<open>simp_all add: no_bad_call_def puts_def\<close>)

section \<open>Sequences of steps\<close>

lemma open_loaded:
  assumes "m \<in> modules s" and "chrdevs C (kern s) 150 = Some (nm, m)"
  shows "sys_open C (dev_table ver U K M) (Some 150) s = (Some m, printk KERN_INFO ''Device opened'' [] s)"
  using assms by (cases m) (simp_all add: sys_open_def dev_table_calls ioctl_dev_open_def mmap_dev_open_def)

lemma fput_unloaded: "m \<notin> modules s \<Longrightarrow> fput tbl m s = fault UnloadedCode s"
  by (simp add: fput_def vfs_call_def)

lemma rmmod_faults: "\<exists>fs. faults (rmmod U K m s) = faults s @ fs"
  by (cases m) (auto simp: rmmod_def ioctl_exit_def mmap_example_exit_def kfree_def env_defs)

lemma not_pinned [simp]: "\<not> pinned (dev_table ver U K M) m fs"
  by (cases m) (simp_all add: pinned_def ioctl_fops_def mmap_fops_def)

text \<open>The last file is closed.\<close>

lemma step_release_last:
  "device_step ver U K M \<lparr>mach = s, files = fs @ [(r, 1)]\<rparr> \<lparr>mach = fput (dev_table ver U K M) r s, files = fs\<rparr>"
  using ds_release [of "length fs" "\<lparr>mach = s, files = fs @ [(r, 1)]\<rparr>" r] by simp

text \<open>A process with the file it has opened as the last one.\<close>

lemma steps_with_file:
  fixes fs r
  defines "D \<equiv> \<lambda>n x. \<lparr>mach = x, files = fs @ [(r, n)]\<rparr>"
  shows "device_step ver U K M (D n s) (D n (upd_kern (user_store_op U a bs) s))"
    and "device_step ver U K M (D n s) (D n (puts line s))"
    and "user_write M a c s = Some s' \<Longrightarrow> device_step ver U K M (D n s) (D n s')"
    and "device_step ver U K M (D n s) (D n (snd (sys_ioctl (dev_table ver U K M) r cmd arg s)))"
    and "sys_mmap (dev_table ver U K M) r vma s = (True, s') \<Longrightarrow> device_step ver U K M (D n s) (D (Suc n) s')"
    and "sys_mmap (dev_table ver U K M) r vma s = (False, s') \<Longrightarrow> device_step ver U K M (D n s) (D n s')"
    and "device_step ver U K M (D (Suc (Suc n)) s) (D (Suc n) s)"
proof -
  have i: "length fs < length (files (D n x))" "files (D n x) ! length fs = (r, n)" for n x by (simp_all add: D_def)
  show "device_step ver U K M (D n s) (D n (upd_kern (user_store_op U a bs) s))"
    "device_step ver U K M (D n s) (D n (puts line s))"
    using ds_store [of ver U K M "D n s"] ds_print [of ver U K M "D n s"] by (simp_all add: D_def)
  show "device_step ver U K M (D n s) (D n s')" if "user_write M a c s = Some s'"
    using ds_poke [of M a c "D n s" s' ver U K] that by (simp add: D_def)
  show "device_step ver U K M (D n s) (D n (snd (sys_ioctl (dev_table ver U K M) r cmd arg s)))"
    using ds_ioctl [OF i, of ver U K M] by (simp add: D_def)
  show "device_step ver U K M (D n s) (D (Suc n) s')" if "sys_mmap (dev_table ver U K M) r vma s = (True, s')"
    using ds_mmap [OF i, where vma = vma and mapped = True and s = s'] that by (simp add: D_def)
  show "device_step ver U K M (D n s) (D n s')" if "sys_mmap (dev_table ver U K M) r vma s = (False, s')"
    using ds_mmap [OF i, where vma = vma and mapped = False and s = s'] that by (simp add: D_def)
  show "device_step ver U K M (D (Suc (Suc n)) s) (D (Suc n) s)"
    using ds_drop [OF i, of ver U K M] by (simp add: D_def)
qed

text \<open>The programs are sequences of steps.\<close>

lemma ioctl_main_run:
  "(device_step ver U K M)\<^sup>*\<^sup>* \<lparr>mach = s, files = fs\<rparr>
     \<lparr>mach = snd (ioctl_main U (dev_table ver U K M) node q s), files = fs\<rparr>"
proof -
  let ?tbl = "dev_table ver U K M" and ?step = "device_step ver U K M"
  define s1 where "s1 = upd_kern (user_store_op U q (le_int_bytes 0)) s"
  obtain fd s2 where o: "sys_open U ?tbl node s1 = (fd, s2)" by fastforce
  have start: "?step \<lparr>mach = s, files = fs\<rparr> \<lparr>mach = s1, files = fs\<rparr>"
    using ds_store [of ver U K M "\<lparr>mach = s, files = fs\<rparr>"] by (simp add: s1_def)
  show ?thesis
  proof (cases fd)
    case None
    have p: "?step \<lparr>mach = x, files = fs\<rparr> \<lparr>mach = puts line x, files = fs\<rparr>" for x line
      using ds_print [of ver U K M "\<lparr>mach = x, files = fs\<rparr>"] by simp
    have "?step \<lparr>mach = s1, files = fs\<rparr> \<lparr>mach = s2, files = fs\<rparr>"
      using ds_open [of U ver K M node "\<lparr>mach = s1, files = fs\<rparr>" fd s2] o None by simp
    moreover have "snd (ioctl_main U ?tbl node q s) = puts ''make sure insmod code.ko is done'' (puts ''open failed'' s2)"
      using o None by (simp add: ioctl_main_def s1_def [symmetric])
    ultimately show ?thesis
      using start p [of s2 "''open failed''"] p [of "puts ''open failed'' s2" "''make sure insmod code.ko is done''"]
      by (simp only:)
  next
    case (Some r)
    let ?D = "\<lambda>x. \<lparr>mach = x, files = fs @ [(r, 1 :: nat)]\<rparr>"
    define s3 where "s3 = upd_kern (user_store_op U q (le_int_bytes 140)) s2"
    obtain rc s4 where c: "sys_ioctl ?tbl r QUERY_SET_VARIABLES q s3 = (rc, s4)" by fastforce
    define s5 where "s5 = (if rc = -1 then puts ''error ioctl get'' s4 else s4)"
    have main: "snd (ioctl_main U ?tbl node q s) = fput ?tbl r (puts ''five ... done...SET'' s5)"
      using o Some c by (simp add: ioctl_main_def s1_def [symmetric] s3_def [symmetric] s5_def Let_def)
    have "?step \<lparr>mach = s1, files = fs\<rparr> (?D s2)"
      using ds_open [of U ver K M node "\<lparr>mach = s1, files = fs\<rparr>" fd s2] o Some by simp
    moreover have "?step (?D s2) (?D s3)" unfolding s3_def by (rule steps_with_file(1))
    moreover have "?step (?D s3) (?D s4)"
      using steps_with_file(4) [of ver U K M s3 fs r 1 QUERY_SET_VARIABLES q] c by simp
    moreover have "?step\<^sup>*\<^sup>* (?D s4) (?D s5)" unfolding s5_def by (auto intro: steps_with_file(2))
    moreover have "?step (?D s5) (?D (puts ''five ... done...SET'' s5))" by (rule steps_with_file(2))
    ultimately show ?thesis
      unfolding main using start step_release_last [of ver U K M "puts ''five ... done...SET'' s5" fs r]
      by (meson r_into_rtranclp rtranclp_trans)
  qed
qed

lemma mmap_main_run:
  "(device_step ver U K M)\<^sup>*\<^sup>* \<lparr>mach = s, files = fs\<rparr>
     \<lparr>mach = snd (mmap_main U M (dev_table ver U K M) node a s), files = fs\<rparr>"
proof -
  let ?tbl = "dev_table ver U K M" and ?step = "device_step ver U K M"
  obtain fd s2 where o: "sys_open U ?tbl node s = (fd, s2)" by fastforce
  note step_open = ds_open [of U ver K M node "\<lparr>mach = s, files = fs\<rparr>" fd s2]
  show ?thesis
  proof (cases fd)
    case None
    have p: "?step \<lparr>mach = x, files = fs\<rparr> \<lparr>mach = puts line x, files = fs\<rparr>" for x line
      using ds_print [of ver U K M "\<lparr>mach = x, files = fs\<rparr>"] by simp
    have "?step \<lparr>mach = s, files = fs\<rparr> \<lparr>mach = s2, files = fs\<rparr>"
      using step_open o None by simp
    moreover have "snd (mmap_main U M ?tbl node a s) = puts ''make sure insmod code.ko is done'' (puts ''open failed'' s2)"
      using o None by (simp add: mmap_main_def)
    ultimately show ?thesis
      using p [of s2 "''open failed''"] p [of "puts ''open failed'' s2" "''make sure insmod code.ko is done''"]
      by (simp only:)
  next
    case (Some r)
    let ?D = "\<lambda>n x. \<lparr>mach = x, files = fs @ [(r, n :: nat)]\<rparr>"
    obtain mapped s3 where m: "sys_mmap ?tbl r \<lparr>vm_start = a, vm_end = a + 4096, vm_pgoff = 0\<rparr> s2 = (mapped, s3)" by fastforce
    have opened: "?step \<lparr>mach = s, files = fs\<rparr> (?D 1 s2)" using step_open o Some by simp
    show ?thesis
    proof (cases mapped)
      case False
      have "snd (mmap_main U M ?tbl node a s) = fput ?tbl r (puts ''Failed to mmap'' s3)"
        using o Some m False by (simp add: mmap_main_def)
      moreover have "?step (?D 1 s2) (?D 1 s3)" using m False by (auto intro: steps_with_file(6))
      moreover have "?step (?D 1 s3) (?D 1 (puts ''Failed to mmap'' s3))" by (rule steps_with_file(2))
      ultimately show ?thesis
        using opened step_release_last [of ver U K M "puts ''Failed to mmap'' s3" fs r] by (simp only:)
    next
      case True
      let ?ok = "puts ''ALL OK'' s3"
      have mapped: "?step (?D 1 s2) (?D (Suc 1) s3)" "?step (?D (Suc 1) s3) (?D (Suc 1) ?ok)"
        using m True by (auto intro: steps_with_file(5) steps_with_file(2))
      have exit: "?step (?D (Suc 1) x) (?D 1 x)" "?step (?D 1 x) \<lparr>mach = fput ?tbl r x, files = fs\<rparr>" for x
        using steps_with_file(7) [of ver U K M x fs r 0] step_release_last [of ver U K M x fs r] by simp_all
      have main: "mmap_main U M ?tbl node a s = (case user_write M a (CHR ''A'') ?ok of None \<Rightarrow> (None, fput ?tbl r ?ok)
          | Some s \<Rightarrow> (case user_read M a s of None \<Rightarrow> (None, fput ?tbl r s)
             | Some c \<Rightarrow> (Some 0, fput ?tbl r (puts (''Char = ['' @ [c] @ '']'') s))))"
        by (simp add: mmap_main_def o Some m True Let_def)
      show ?thesis
      proof (cases "user_write M a (CHR ''A'') ?ok")
        case None
        then have "snd (mmap_main U M ?tbl node a s) = fput ?tbl r ?ok" by (simp add: main)
        then show ?thesis using opened mapped exit [of ?ok] by (simp only:)
      next
        case (Some s4)
        then have poke: "?step (?D (Suc 1) ?ok) (?D (Suc 1) s4)" by (rule steps_with_file(3))
        obtain c where "user_read M a s4 = Some c" using Some by (auto simp: user_write_def user_read_def)
        then have "snd (mmap_main U M ?tbl node a s) = fput ?tbl r (puts (''Char = ['' @ [c] @ '']'') s4)"
          using Some by (simp add: main)
        moreover have "?step (?D (Suc 1) s4) (?D (Suc 1) (puts (''Char = ['' @ [c] @ '']'') s4))" by (rule steps_with_file(2))
        ultimately show ?thesis using opened mapped poke exit [of "puts (''Char = ['' @ [c] @ '']'') s4"] by (simp only:)
      qed
    qed
  qed
qed

text \<open>The ioctl program on the mmap driver: the table has no entry for \<open>ioctl\<close>, and the close frees the buffer.\<close>

lemma ioctl_main_on_mmap:
  assumes "devices_api K U M" and "tbl = dev_table ver U K M"
    and "chrdevs U (kern s) 150 = Some (nm, Fops_mmap)" and "Fops_mmap \<in> modules s"
    and "buffer s \<in> allocated K (kern s)"
  shows "\<exists>s'. ioctl_main U tbl (Some 150) q s = (0, s') \<and> stdout s' = stdout s @ [''error ioctl get'', ''five ... done...SET''] \<and>
    faults s' = faults s \<and> same_devs U s s' \<and> buffer s' = buffer s \<and> buffer s \<notin> allocated K (kern s') \<and>
    mappings M (kern s') = mappings M (kern s)"
proof -
  define s1 where "s1 = upd_kern (user_store_op U q (le_int_bytes 0)) s"
  define s3 where "s3 = puts ''five ... done...SET'' (puts ''error ioctl get''
    (upd_kern (user_store_op U q (le_int_bytes 140)) (printk KERN_INFO ''Device opened'' [] s1)))"
  have ua: "uaccess_api U" and mm: "mmap_api K U M" using assms(1) by (simp_all add: devices_api_def)
  have s1: "chrdevs U (kern s1) 150 = Some (nm, Fops_mmap)" "Fops_mmap \<in> modules s1"
    using assms(3,4) by (simp_all add: s1_def uaccess_api.user_store_frame [OF ua] upd_kern_def)
  have ioctl: "sys_ioctl tbl Fops_mmap cmd arg x = (-1, x)" if "Fops_mmap \<in> modules x" for cmd arg x
    using that by (simp add: assms(2) sys_ioctl_def vfs_call_def mmap_fops_def)
  have s3: "stdout s3 = stdout s @ [''error ioctl get'', ''five ... done...SET'']" "faults s3 = faults s"
      "same_devs U s s3" "buffer s3 = buffer s" "modules s3 = modules s" "allocated K (kern s3) = allocated K (kern s)"
      "mappings M (kern s3) = mappings M (kern s)"
    by (simp_all add: s3_def s1_def puts_def env_defs same_devs_def uaccess_api.user_store_frame [OF ua]
        devices_api.user_store_alloc [OF assms(1)] devices_api.user_store_maps [OF assms(1)])
  have "ioctl_main U tbl (Some 150) q s = (0, fput tbl Fops_mmap s3)"
    using open_loaded [OF s1(2,1), of ver U K M] assms(4)
    by (simp add: ioctl_main_def s1_def [symmetric] assms(2) [symmetric] ioctl Let_def s3_def)
       (simp add: ioctl s1_def env_defs)
  also have "fput tbl Fops_mmap s3 = snd (mmap_dev_release K s3)"
    using assms(4) s3(5) by (simp add: fput_def assms(2) dev_table_calls)
  finally have main: "ioctl_main U tbl (Some 150) q s = (0, snd (mmap_dev_release K s3))" .
  have live: "buffer s3 \<in> allocated K (kern s3)" using assms(5) s3 by simp
  have "stdout (snd (mmap_dev_release K s3)) = stdout s3" by (simp add: mmap_dev_release_def kfree_def env_defs)
  moreover have "mappings M (kern (snd (mmap_dev_release K s3))) = mappings M (kern s3)"
    by (simp add: mmap_dev_release_def kfree_def devices_api.kfree_maps [OF assms(1)])
  moreover have "same_devs U s3 (snd (mmap_dev_release K s3))" by (rule devices_api.mmap_release_same [OF assms(1)])
  ultimately show ?thesis
    using main mmap_api.release_first [OF mm live] s3 by (auto simp: same_devs_def)
qed

text \<open>The mmap program on the ioctl driver: the table has no entry for \<open>mmap\<close>.\<close>

lemma mmap_main_on_ioctl:
  assumes "tbl = dev_table ver U K M" and "chrdevs C (kern s) 150 = Some (nm, Fops_ioctl)" and "Fops_ioctl \<in> modules s"
  shows "\<exists>s'. mmap_main C M tbl (Some 150) a s = (Some (-1), s') \<and> stdout s' = stdout s @ [''Failed to mmap''] \<and>
    faults s' = faults s \<and> kern s' = kern s \<and> modules s' = modules s"
  using open_loaded [OF assms(3,2), of ver U K M] assms(3)
  by (simp add: mmap_main_def assms(1) sys_mmap_def fput_def dev_table_calls ioctl_dev_release_def puts_def printk_def)

text \<open>A successful \<open>mmap\<close> on the mmap driver maps frames of the buffer, or beyond it, and changes nothing else.\<close>

lemma sys_mmap_maps:
  assumes "devices_api K U M" and "Fops_mmap \<in> modules s" and "sys_mmap (dev_table ver U K M) Fops_mmap vma s = (True, s')"
  shows "same_devs U s s' \<and> buffer s' = buffer s \<and> faults s' = faults s \<and> allocated K (kern s') = allocated K (kern s) \<and>
    (vm_start vma, drop_bit 12 (virt_to_phys_op M (of_nat (buffer s) + push_bit 12 (vm_pgoff vma))), vm_end vma - vm_start vma)
      \<in> mappings M (kern s')"
proof -
  have mm: "mmap_api K U M" using assms(1) by (simp add: devices_api_def)
  have run: "dev_mmap M vma s = (0, s')"
    using assms(2,3) by (simp add: sys_mmap_def dev_table_calls split_beta prod_eq_iff)
  show ?thesis
    by (rule mmap_api.dev_mmap_cases [OF mm, of vma s])
      (use run devices_api.dev_mmap_same [OF assms(1), of s vma] in auto)
qed

section \<open>Orderly use of the ioctl driver\<close>

text \<open>Open files belong to loaded drivers, and the mmap driver has not been registered.\<close>

definition orderly :: "('k, 'x) chrdev_ops_scheme \<Rightarrow> 'k devices \<Rightarrow> bool" where
  "orderly C d \<longleftrightarrow> fst ` set (files d) \<subseteq> modules (mach d) \<and> (\<forall>nm. chrdevs C (kern (mach d)) 150 \<noteq> Some (nm, Fops_mmap))"

lemma insmod_faults: "faults (snd (insmod U K m s)) = faults s"
  by (cases m) (simp_all add: insmod_def ioctl_init_def mmap_example_init_def kmalloc_def env_defs split_beta Let_def)

lemma not_mmap: "m \<noteq> Fops_mmap \<longleftrightarrow> m = Fops_ioctl"
  by (cases m) simp_all

text \<open>Calls on a loaded ioctl driver commit no fault.\<close>

lemma ioctl_driver_calls:
  assumes "KERNEL_VERSION 2 6 35 \<le> ver" and "Fops_ioctl \<in> modules s"
  shows "faults (snd (sys_ioctl (dev_table ver U K M) Fops_ioctl cmd arg s)) = faults s"
    and "faults (snd (sys_mmap (dev_table ver U K M) Fops_ioctl vma s)) = faults s"
    and "faults (fput (dev_table ver U K M) Fops_ioctl s) = faults s"
    and "faults (rmmod U K Fops_ioctl s) = faults s"
  using assms by (simp_all add: dev_table_calls sys_mmap_def fput_def ioctl_dev_release_def rmmod_def ioctl_exit_def env_defs
      dev_ioctl_def Let_def split_beta)

context devices_run
begin

lemma orderly_cases:
  assumes "devices_inv U d" and "orderly U d"
  obtains (idle) "modules (mach d) = {}" "chrdevs U (kern (mach d)) = Map.empty" "files d = []"
  | (used) "modules (mach d) = {Fops_ioctl}" "chrdevs U (kern (mach d)) = [150 \<mapsto> (''mmapchar'', Fops_ioctl)]"
      "\<And>i r n. i < length (files d) \<Longrightarrow> files d ! i = (r, n) \<Longrightarrow> r = Fops_ioctl"
proof (cases "modules (mach d) = {}")
  case True
  then show thesis using assms idle by (auto simp: devices_inv_def orderly_def)
next
  case False
  then have m: "modules (mach d) = {Fops_ioctl}" "chrdevs U (kern (mach d)) = [150 \<mapsto> (''mmapchar'', Fops_ioctl)]"
    using assms not_mmap by (auto simp: devices_inv_def orderly_def)
  have "r = Fops_ioctl" if "i < length (files d)" "files d ! i = (r, n)" for i r n
    using assms(2) m(1) nth_mem [OF that(1)] that(2) by (force simp: orderly_def)
  then show thesis using used m by blast
qed

lemma orderly_step_faults:
  assumes "device_step ver U K M d t" and "devices_inv U d" and "orderly U d" and "KERNEL_VERSION 2 6 35 \<le> ver"
  shows "faults (mach t) = faults (mach d)"
proof -
  from assms(2,3) show ?thesis
  proof (cases rule: orderly_cases)
    case idle
    have o: "sys_open U tbl node (mach d) = (None, mach d)" for tbl node using idle(2) by (simp add: sys_open_def)
    from assms(1) show ?thesis
      by (cases rule: device_step.cases) (simp_all add: idle insmod_faults o puts_def user_write_faults)
  next
    case used
    have o: "faults (snd (sys_open U (dev_table ver U K M) node (mach d))) = faults (mach d)" for node
      by (cases node) (simp_all add: sys_open_def used(1,2) dev_table_calls ioctl_dev_open_def)
    have "Fops_ioctl \<in> modules (mach d)" using used(1) by simp
    note calls = ioctl_driver_calls [OF assms(4) this]
    from assms(1) show ?thesis
    proof (cases rule: device_step.cases)
      case (ds_open node fd s)
      then show ?thesis using o [of node] by simp
    next
      case (ds_mmap i r n vma mapped s)
      then show ?thesis using used(3) [OF ds_mmap(2,3)] calls(2) [of U K M vma] by simp
    next
      case (ds_ioctl i r n cmd arg)
      then show ?thesis using used(3) [OF ds_ioctl(2,3)] calls(1) by simp
    next
      case (ds_release i r)
      then show ?thesis using used(3) [OF ds_release(2,3)] calls(3) by simp
    qed (simp_all add: used(1) calls insmod_faults puts_def user_write_faults)
  qed
qed

end

section \<open>Runs on the reference kernel\<close>

abbreviation ref_step :: "nat \<Rightarrow> ref_mm devices \<Rightarrow> ref_mm devices \<Rightarrow> bool" where
  "ref_step ver \<equiv> device_step ver ref_uaccess ref_mm_slab ref_mm_remap"

definition ref_loaded :: "fops_ref \<Rightarrow> nat \<Rightarrow> ref_mm devices" where
  "ref_loaded m n = (ref_devices n)\<lparr>mach := snd (insmod ref_uaccess ref_mm_slab m (mach (ref_devices n)))\<rparr>"

lemma ref_loaded_reachable: "reachable (ref_devices n) (ref_step ver) (ref_loaded m n)"
  unfolding ref_loaded_def
  by (rule reachable.step [where step = "ref_step ver", OF reachable.init ds_insmod]) (simp add: ref_devices_def mmap_boot_def)

lemma ref_loaded_ioctl:
  "modules (mach (ref_loaded Fops_ioctl n)) = {Fops_ioctl}" "faults (mach (ref_loaded Fops_ioctl n)) = []"
  by (simp_all add: ref_loaded_def ref_devices_def mmap_boot_def insmod_def ioctl_init_def ref_uaccess_def Let_def printk_def)

lemma ref_insmod_fails:
  "insmod ref_uaccess ref_mm_slab Fops_mmap (mach (ref_devices 0)) = (-1, mach (ref_loaded Fops_mmap 0))"
  "register_chrdev_op ref_uaccess 150 ''mmapchar'' Fops_mmap (kern (mach (ref_devices 0))) =
     (0, (kern (mach (ref_devices 0)))\<lparr>ru_devs := [150 \<mapsto> (''mmapchar'', Fops_mmap)]\<rparr>)"
  "fst (kmalloc_op ref_mm_slab 4096 ((kern (mach (ref_devices 0)))\<lparr>ru_devs := [150 \<mapsto> (''mmapchar'', Fops_mmap)]\<rparr>)) = NULL"
  by (simp_all add: ref_loaded_def ref_devices_def mmap_boot_def insmod_def mmap_example_init_def kmalloc_def
      ref_uaccess_def ref_mm_slab_def Let_def printk_def)

lemma ref_loaded_mmap:
  "modules (mach (ref_loaded Fops_mmap 1)) = {Fops_mmap}" "buffer (mach (ref_loaded Fops_mmap 1)) = 4096"
  "4096 \<in> allocated ref_mm_slab (kern (mach (ref_loaded Fops_mmap 1)))"
  "files (ref_loaded Fops_mmap 1) = []" "faults (mach (ref_loaded Fops_mmap 1)) = []"
  by (simp_all add: ref_loaded_def ref_devices_def mmap_boot_def insmod_def mmap_example_init_def kmalloc_def
      ref_uaccess_def ref_mm_slab_def mm_fresh_def Let_def printk_def)

lemma ref_sys_mmap:
  assumes "Fops_mmap \<in> modules s" and "vm_end vma \<noteq> vm_start vma"
  shows "fst (sys_mmap (dev_table ver ref_uaccess ref_mm_slab ref_mm_remap) Fops_mmap vma s)"
  using assms by (simp add: sys_mmap_def dev_table_calls split_beta) (simp add: dev_mmap_def ref_mm_remap_def Let_def)

section \<open>Properties\<close>

text \<open>
  C9. The drivers exclude each other. In every state reachable by loading, unloading and system
  calls in any order, at most one of them is loaded, and what is registered under 150 is its table;
  while it is loaded, loading the other one fails with the result of the registration, which is
  logged, and beside the line in the log leaves everything as it is: the registered devices, the
  memory allocated, the modules, their variables, the faults and the output. The only other
  registration that can exist is the table of the mmap driver while no driver is loaded.
\<close>

theorem devices_exclusive:
  assumes "devices_api K U M" and "devices_boot U d0" and "reachable d0 (device_step ver U K M) d"
  shows "(\<forall>m\<in>modules (mach d). modules (mach d) = {m} \<and> chrdevs U (kern (mach d)) = [150 \<mapsto> (''mmapchar'', m)] \<and>
      (\<forall>n. n \<noteq> m \<longrightarrow> (\<exists>rc k. rc < 0 \<and> insmod U K n (mach d) = (rc, (mach d)\<lparr>kern := k,
          klog := klog (mach d) @ [Line KERN_ALERT ''failed to register a major number %d'' [Num rc]]\<rparr>) \<and>
        chrdevs U k = chrdevs U (kern (mach d)) \<and> allocated K k = allocated K (kern (mach d))))) \<and>
    (modules (mach d) = {} \<longrightarrow>
      chrdevs U (kern (mach d)) = Map.empty \<or> chrdevs U (kern (mach d)) = [150 \<mapsto> (''mmapchar'', Fops_mmap)])"
proof -
  note R = devices_runI [OF assms(1,2)]
  have "devices_inv U d" by (rule devices_reach_inv [OF assms(1-3)])
  then show ?thesis
    using devices_run.insmod_refused [OF R, of "mach d"] by (auto simp: devices_inv_def) blast
qed

theorem devices_exclusive_witness:
  "\<exists>d. reachable (ref_devices 1) (ref_step (KERNEL_VERSION 3 10 0)) d \<and> modules (mach d) = {Fops_ioctl} \<and>
     (\<exists>rc s. insmod ref_uaccess ref_mm_slab Fops_mmap (mach d) = (rc, s) \<and> rc < 0)"
proof -
  note R = ref_loaded_reachable [of 1 "KERNEL_VERSION 3 10 0" Fops_ioctl]
  show ?thesis
    using devices_exclusive [OF ref_dev.devices_api_axioms ref_devices_boot R] ref_loaded_ioctl(1) [of 1] R by fastforce
qed

text \<open>
  C19. What a failed load of the mmap driver leaves behind. If its registration succeeds and the
  allocation of the buffer fails, the load fails with -1, and from that moment on, whatever is done, no driver can be loaded any more:
  the number 150 stays registered with the table of a module that is not there, and every attempt to
  open the device executes code that is not loaded.
\<close>

theorem mmap_failed_load_blocks:
  assumes "devices_api K U M" and "devices_boot U d0" and "reachable d0 (device_step ver U K M) d"
    and "register_chrdev_op U 150 ''mmapchar'' Fops_mmap (kern (mach d)) = (0, k)" and "fst (kmalloc_op K 4096 k) = NULL"
    and "insmod U K Fops_mmap (mach d) = (rc, s)" and "(device_step ver U K M)\<^sup>*\<^sup>* (d\<lparr>mach := s\<rparr>) t"
  shows "rc = -1 \<and> modules (mach t) = {} \<and> chrdevs U (kern (mach t)) = [150 \<mapsto> (''mmapchar'', Fops_mmap)] \<and>
    (\<forall>m. fst (insmod U K m (mach t)) < 0) \<and>
    sys_open U (dev_table ver U K M) (Some 150) (mach t) = (None, fault UnloadedCode (mach t))"
proof -
  note R = devices_runI [OF assms(1,2)]
  have "devices_inv U d" by (rule devices_reach_inv [OF assms(1-3)])
  moreover have C: "chrdev_api U" and mm: "mmap_api K U M" using assms(1) by (simp_all add: devices_api_def mmap_api_def)
  note reg = chrdev_api.register_result [OF C assms(4)]
  ultimately have d: "modules (mach d) = {}" "chrdevs U (kern (mach d)) = Map.empty"
    by (auto simp: devices_inv_def)
  obtain k' where k': "kmalloc_op K 4096 k = (NULL, k')" using assms(5) by (cases "kmalloc_op K 4096 k") simp
  have "rc = -1 \<and> modules s = {} \<and> kern s = k'"
    using assms(4,6) k' d by (auto simp: insmod_def mmap_example_init_def kmalloc_def env_defs)
  moreover have "chrdevs U k' = [150 \<mapsto> (''mmapchar'', Fops_mmap)]"
    using reg mmap_api.kmalloc_devs [OF mm k'] d by simp
  ultimately have rc: "rc = -1" and "modules s = {} \<and> chrdevs U (kern s) = [150 \<mapsto> (''mmapchar'', Fops_mmap)]" by simp_all
  then have t: "modules (mach t) = {} \<and> chrdevs U (kern (mach t)) = [150 \<mapsto> (''mmapchar'', Fops_mmap)]"
    using devices_run.stale_steps [OF R assms(7)] by simp
  then show ?thesis
    using rc devices_run.insmod_taken [OF R, of "mach t"] by (simp add: sys_open_def vfs_call_def)
qed

theorem mmap_failed_load_blocks_witness:
  "fst (insmod ref_uaccess ref_mm_slab Fops_ioctl (mach (ref_loaded Fops_mmap 0))) < 0 \<and>
   faults (snd (sys_open ref_uaccess (dev_table (KERNEL_VERSION 3 10 0) ref_uaccess ref_mm_slab ref_mm_remap) (Some 150)
     (mach (ref_loaded Fops_mmap 0)))) = faults (mach (ref_loaded Fops_mmap 0)) @ [UnloadedCode]"
proof -
  have d: "(ref_devices 0)\<lparr>mach := mach (ref_loaded Fops_mmap 0)\<rparr> = ref_loaded Fops_mmap 0" by (simp add: ref_loaded_def)
  show ?thesis
    using mmap_failed_load_blocks [OF ref_dev.devices_api_axioms ref_devices_boot reachable.init ref_insmod_fails(2,3)
        ref_insmod_fails(1) rtranclp.rtrancl_refl, where ver = "KERNEL_VERSION 3 10 0"]
    by (simp add: d)
qed

text \<open>
  C17. Neither table names an owner. In every reachable state in which a driver is loaded, a process
  can open the device, the driver can be unloaded in spite of the open file, and the close then
  executes code that is not there.
\<close>

theorem rmmod_under_open_file:
  assumes "devices_api K U M" and "devices_boot U d0" and "reachable d0 (device_step ver U K M) d"
    and "m \<in> modules (mach d)"
  shows "\<exists>t fs. (device_step ver U K M)\<^sup>*\<^sup>* d t \<and> files t = files d \<and> modules (mach t) = {} \<and>
    faults (mach t) = faults (mach d) @ fs @ [UnloadedCode]"
proof -
  let ?step = "device_step ver U K M"
  have "devices_inv U d" by (rule devices_reach_inv [OF assms(1-3)])
  then have d: "modules (mach d) = {m}" "chrdevs U (kern (mach d)) 150 = Some (''mmapchar'', m)"
    using assms(4) by (auto simp: devices_inv_def)
  define s1 where "s1 = printk KERN_INFO ''Device opened'' [] (mach d)"
  define s2 where "s2 = rmmod U K m s1"
  have s: "modules s1 = {m}" "faults s1 = faults (mach d)" "modules s2 = {}"
    using d by (simp_all add: s1_def s2_def printk_def devices_api.rmmod_result [OF assms(1)])
  have "?step d \<lparr>mach = s1, files = files d @ [(m, 1)]\<rparr>"
    using ds_open [OF open_loaded [OF assms(4) d(2)], of ver K M] by (cases d) (simp add: s1_def)
  moreover have "?step \<lparr>mach = s1, files = files d @ [(m, 1)]\<rparr> \<lparr>mach = s2, files = files d @ [(m, 1)]\<rparr>"
    using ds_rmmod [of m "\<lparr>mach = s1, files = files d @ [(m, 1)]\<rparr>" ver U K M] s(1) by (simp add: s2_def)
  moreover have "?step \<lparr>mach = s2, files = files d @ [(m, 1)]\<rparr> \<lparr>mach = fault UnloadedCode s2, files = files d\<rparr>"
    using step_release_last [of ver U K M s2 "files d" m] s(3) by (simp add: fput_unloaded)
  ultimately have "?step\<^sup>*\<^sup>* d \<lparr>mach = fault UnloadedCode s2, files = files d\<rparr>" by simp
  then show ?thesis using rmmod_faults [of U K m s1] s by (fastforce simp: s2_def fault_def)
qed

theorem rmmod_under_open_file_witness:
  "\<exists>t fs. (ref_step (KERNEL_VERSION 3 10 0))\<^sup>*\<^sup>* (ref_loaded Fops_ioctl 0) t \<and> faults (mach t) = fs @ [UnloadedCode]"
  using rmmod_under_open_file [OF ref_dev.devices_api_axioms ref_devices_boot
      ref_loaded_reachable [of 0 "KERNEL_VERSION 3 10 0" Fops_ioctl], of Fops_ioctl] ref_loaded_ioctl [of 0] by auto

text \<open>
  C13. The types of the table entries. Against the declarations of the kernel the table of the mmap
  driver is always well typed, and the table of the ioctl driver exactly when the module is compiled
  for a kernel from 2.6.35 on. If it is, no system call in any reachable state calls a function
  through a pointer of another type; if it is not, every \<open>ioctl\<close> on the device does.
\<close>

theorem fops_types:
  assumes "fs_header H" and "BadCall \<notin> set (faults (mach d0))"
  shows "fops_typed H (dev_table ver U K M Fops_mmap) \<and>
    (fops_typed H (dev_table ver U K M Fops_ioctl) \<longleftrightarrow> KERNEL_VERSION 2 6 35 \<le> ver) \<and>
    (fops_typed H (dev_table ver U K M Fops_ioctl) \<longrightarrow>
      (\<forall>d. reachable d0 (device_step ver U K M) d \<longrightarrow> BadCall \<notin> set (faults (mach d)))) \<and>
    (\<not> fops_typed H (dev_table ver U K M Fops_ioctl) \<longrightarrow>
      (\<forall>s cmd arg. Fops_ioctl \<in> modules s \<longrightarrow>
        sys_ioctl (dev_table ver U K M) Fops_ioctl cmd arg s = (-1, fault BadCall s)))"
proof -
  have typed: "fops_typed H (dev_table ver U K M Fops_mmap)"
      "fops_typed H (dev_table ver U K M Fops_ioctl) \<longleftrightarrow> KERNEL_VERSION 2 6 35 \<le> ver"
    using fs_header.ioctl_fops_typed [OF assms(1)] fs_header.mmap_fops_typed [OF assms(1)] by simp_all
  have safe: "BadCall \<notin> set (faults (mach d))"
    if "KERNEL_VERSION 2 6 35 \<le> ver" and "reachable d0 (device_step ver U K M) d" for d
    using that(2)
  proof (induction rule: reachable.induct)
    case (step s t)
    then show ?case using device_step_no_bad_call [OF step.hyps(2) that(1)] by (simp add: no_bad_call_def)
  qed (rule assms(2))
  have old: "sys_ioctl (dev_table ver U K M) Fops_ioctl cmd arg s = (-1, fault BadCall s)"
    if "\<not> KERNEL_VERSION 2 6 35 \<le> ver" and "Fops_ioctl \<in> modules s" for s cmd arg
    using dev_table_calls(5) [of ver U K M cmd arg s] that by simp
  show ?thesis using typed safe old by (simp only: simp_thms) simp
qed

theorem fops_types_witness:
  "\<not> fops_typed ref_fs_header (dev_table (KERNEL_VERSION 2 6 18) ref_uaccess ref_mm_slab ref_mm_remap Fops_ioctl) \<and>
   faults (snd (sys_ioctl (dev_table (KERNEL_VERSION 2 6 18) ref_uaccess ref_mm_slab ref_mm_remap) Fops_ioctl
     QUERY_SET_VARIABLES 4096 (mach (ref_loaded Fops_ioctl 0)))) = [BadCall]"
proof -
  have "BadCall \<notin> set (faults (mach (ref_devices 0)))" by (simp add: ref_devices_def mmap_boot_def)
  note T = fops_types [OF ref_fs.fs_header_axioms this, of "KERNEL_VERSION 2 6 18" ref_uaccess ref_mm_slab ref_mm_remap]
  have "\<not> KERNEL_VERSION 2 6 35 \<le> KERNEL_VERSION 2 6 18" by (simp add: KERNEL_VERSION_def)
  then show ?thesis using T ref_loaded_ioctl [of 0] by simp
qed

text \<open>
  C39. The programs on the wrong driver. With the mmap driver loaded, the ioctl program reports the
  failed call, returns 0 all the same, and its close has freed the driver's buffer; with the ioctl
  driver loaded, the mmap program reports that the mapping failed and returns -1. Neither is a fault,
  and neither changes the registered devices.
\<close>

theorem programs_on_wrong_driver:
  assumes "devices_api K U M" and "chrdevs U (kern s) 150 = Some (nm, m)" and "m \<in> modules s"
  shows "(m = Fops_mmap \<and> buffer s \<in> allocated K (kern s) \<longrightarrow>
      (\<exists>s'. ioctl_main U (dev_table ver U K M) (Some 150) q s = (0, s') \<and>
        stdout s' = stdout s @ [''error ioctl get'', ''five ... done...SET''] \<and>
        faults s' = faults s \<and> same_devs U s s' \<and> buffer s' = buffer s \<and> buffer s \<notin> allocated K (kern s'))) \<and>
    (m = Fops_ioctl \<longrightarrow>
      (\<exists>s'. mmap_main U M (dev_table ver U K M) (Some 150) a s = (Some (-1), s') \<and> stdout s' = stdout s @ [''Failed to mmap''] \<and>
        faults s' = faults s \<and> kern s' = kern s \<and> modules s' = modules s))"
proof (intro conjI impI)
  assume "m = Fops_mmap \<and> buffer s \<in> allocated K (kern s)"
  with assms(2,3) show "\<exists>s'. ioctl_main U (dev_table ver U K M) (Some 150) q s = (0, s') \<and>
      stdout s' = stdout s @ [''error ioctl get'', ''five ... done...SET''] \<and>
      faults s' = faults s \<and> same_devs U s s' \<and> buffer s' = buffer s \<and> buffer s \<notin> allocated K (kern s')"
    using ioctl_main_on_mmap [OF assms(1) refl, of s nm ver q] by auto
next
  assume "m = Fops_ioctl"
  with assms(2,3) show "\<exists>s'. mmap_main U M (dev_table ver U K M) (Some 150) a s = (Some (-1), s') \<and>
      stdout s' = stdout s @ [''Failed to mmap''] \<and> faults s' = faults s \<and> kern s' = kern s \<and> modules s' = modules s"
    by (intro mmap_main_on_ioctl [OF refl, of U s nm]) simp_all
qed

theorem programs_on_wrong_driver_witness:
  "\<exists>s'. ioctl_main ref_uaccess (dev_table (KERNEL_VERSION 3 10 0) ref_uaccess ref_mm_slab ref_mm_remap) (Some 150) 8192 mmap_loaded = (0, s') \<and>
     stdout s' = [''error ioctl get'', ''five ... done...SET''] \<and> 4096 \<notin> allocated ref_mm_slab (kern s')"
  using programs_on_wrong_driver [OF ref_dev.devices_api_axioms mmap_loaded_simps(6,4), of "KERNEL_VERSION 3 10 0" 8192]
    mmap_loaded_simps(1,2,3,5) by auto

text \<open>
  C15. The ioctl driver by itself is safe. Compiled for a kernel from 2.6.35 on, in every run in which
  no driver is unloaded under an open file and the mmap driver is not registered, no step commits a
  fault: no unloaded code, no call of the wrong type, no bad free.
\<close>

theorem ioctl_driver_safe:
  assumes "devices_api K U M" and "devices_boot U d0" and "KERNEL_VERSION 2 6 35 \<le> ver"
    and "reachable d0 (\<lambda>d t. device_step ver U K M d t \<and> orderly U t) d"
  shows "faults (mach d) = faults (mach d0)"
proof -
  note R = devices_runI [OF assms(1,2)]
  have "orderly U d0" "devices_inv U d0" using assms(2) by (simp_all add: devices_boot_def orderly_def devices_inv_def)
  then have "invariant_system d0 (\<lambda>d t. device_step ver U K M d t \<and> orderly U t)
      (\<lambda>d. devices_inv U d \<and> orderly U d \<and> faults (mach d) = faults (mach d0))"
    using devices_run.devices_inv_step [OF R] devices_run.orderly_step_faults [OF R _ _ _ assms(3)] by unfold_locales auto
  from invariant_system.reach_inv [OF this assms(4)] show ?thesis by simp
qed

theorem ioctl_driver_safe_witness:
  "\<exists>d. modules (mach d) = {Fops_ioctl} \<and> faults (mach d) = [] \<and>
     reachable (ref_devices 0) (\<lambda>d t. ref_step (KERNEL_VERSION 3 10 0) d t \<and> orderly ref_uaccess t) d"
proof -
  let ?d = "ref_loaded Fops_ioctl 0"
  have "ref_step (KERNEL_VERSION 3 10 0) (ref_devices 0) ?d"
    unfolding ref_loaded_def by (rule ds_insmod) (simp add: ref_devices_def mmap_boot_def)
  moreover have "orderly ref_uaccess ?d"
    by (simp add: orderly_def ref_loaded_def ref_devices_def mmap_boot_def insmod_def ioctl_init_def ref_uaccess_def Let_def printk_def)
  ultimately have R: "reachable (ref_devices 0) (\<lambda>d t. ref_step (KERNEL_VERSION 3 10 0) d t \<and> orderly ref_uaccess t) ?d"
    using reachable.step [where boot = "ref_devices 0" and t = ?d and
        step = "\<lambda>d t. ref_step (KERNEL_VERSION 3 10 0) d t \<and> orderly ref_uaccess t", OF reachable.init] by simp
  have "KERNEL_VERSION 2 6 35 \<le> KERNEL_VERSION 3 10 0" by (simp add: KERNEL_VERSION_def)
  from ioctl_driver_safe [OF ref_dev.devices_api_axioms ref_devices_boot this R] show ?thesis
    using R ref_loaded_ioctl(1) [of 0] by (auto simp: ref_devices_def mmap_boot_def)
qed

text \<open>
  C16. Memory of the kernel is freed while a process has it mapped. In every reachable state with the
  mmap driver loaded and its buffer allocated, if a process can open the device and map an area,
  then a second process that merely runs the program \<open>ioctl.c\<close> takes the system to a state in which
  the first one still has its file open and the frame of the buffer mapped, but the buffer is free.
  The run commits no fault in the kernel.
\<close>

theorem mapping_outlives_buffer:
  assumes "devices_api K U M" and "devices_boot U d0" and "reachable d0 (device_step ver U K M) d"
    and "Fops_mmap \<in> modules (mach d)" and "buffer (mach d) \<in> allocated K (kern (mach d))"
    and "sys_mmap (dev_table ver U K M) Fops_mmap vma (printk KERN_INFO ''Device opened'' [] (mach d)) = (True, s)"
  shows "\<exists>t. (device_step ver U K M)\<^sup>*\<^sup>* d t \<and> files t = files d @ [(Fops_mmap, 2)] \<and>
    mach t = snd (ioctl_main U (dev_table ver U K M) (Some 150) q s) \<and>
    (vm_start vma, drop_bit 12 (virt_to_phys_op M (of_nat (buffer (mach d)) + push_bit 12 (vm_pgoff vma))),
      vm_end vma - vm_start vma) \<in> mappings M (kern (mach t)) \<and>
    buffer (mach d) \<notin> allocated K (kern (mach t)) \<and> faults (mach t) = faults (mach d)"
proof -
  let ?step = "device_step ver U K M" and ?tbl = "dev_table ver U K M"
  have "devices_inv U d" by (rule devices_reach_inv [OF assms(1-3)])
  then have d: "chrdevs U (kern (mach d)) 150 = Some (''mmapchar'', Fops_mmap)"
    using assms(4) by (auto simp: devices_inv_def)
  define s1 where "s1 = printk KERN_INFO ''Device opened'' [] (mach d)"
  have s1: "kern s1 = kern (mach d)" "buffer s1 = buffer (mach d)" "modules s1 = modules (mach d)" "faults s1 = faults (mach d)"
    by (simp_all add: s1_def printk_def)
  note s = sys_mmap_maps [OF assms(1) _ assms(6) [folded s1_def]]
  have ready: "chrdevs U (kern s) 150 = Some (''mmapchar'', Fops_mmap)" "Fops_mmap \<in> modules s" "buffer s \<in> allocated K (kern s)"
    using s s1 d assms(4,5) by (simp_all add: same_devs_def)
  note B = ioctl_main_on_mmap [OF assms(1) refl ready, of ver q]
  let ?fs = "files d @ [(Fops_mmap, 2)]"
  have "?step d \<lparr>mach = s1, files = files d @ [(Fops_mmap, 1)]\<rparr>"
    using ds_open [OF open_loaded [OF assms(4) d], of ver K M] by (cases d) (simp add: s1_def)
  moreover have "?step \<lparr>mach = s1, files = files d @ [(Fops_mmap, 1)]\<rparr> \<lparr>mach = s, files = ?fs\<rparr>"
    using steps_with_file(5) [of ver U K M Fops_mmap vma s1 s "files d" 1] assms(6) by (simp add: s1_def numeral_2_eq_2)
  moreover have "?step\<^sup>*\<^sup>* \<lparr>mach = s, files = ?fs\<rparr> \<lparr>mach = snd (ioctl_main U ?tbl (Some 150) q s), files = ?fs\<rparr>"
    by (rule ioctl_main_run)
  ultimately have "?step\<^sup>*\<^sup>* d \<lparr>mach = snd (ioctl_main U ?tbl (Some 150) q s), files = ?fs\<rparr>" by simp
  then show ?thesis
    using B s s1 assms(4) by (intro exI [of _ "\<lparr>mach = snd (ioctl_main U ?tbl (Some 150) q s), files = ?fs\<rparr>"]) auto
qed

theorem mapping_outlives_buffer_witness:
  "\<exists>t. (ref_step (KERNEL_VERSION 3 10 0))\<^sup>*\<^sup>* (ref_loaded Fops_mmap 1) t \<and> files t = [(Fops_mmap, 2)] \<and>
     mappings ref_mm_remap (kern (mach t)) \<noteq> {} \<and> 4096 \<notin> allocated ref_mm_slab (kern (mach t)) \<and> faults (mach t) = []"
proof -
  let ?d = "ref_loaded Fops_mmap 1" and ?tbl = "dev_table (KERNEL_VERSION 3 10 0) ref_uaccess ref_mm_slab ref_mm_remap"
  let ?vma = "\<lparr>vm_start = 0x10000, vm_end = 0x11000, vm_pgoff = 0 :: 64 word\<rparr>"
  have pre: "Fops_mmap \<in> modules (mach ?d)" "buffer (mach ?d) \<in> allocated ref_mm_slab (kern (mach ?d))"
    using ref_loaded_mmap(1,2,3) by simp_all
  have "fst (sys_mmap ?tbl Fops_mmap ?vma (printk KERN_INFO ''Device opened'' [] (mach ?d)))"
    by (rule ref_sys_mmap) (use pre(1) in \<open>simp_all add: printk_def\<close>)
  then have m: "sys_mmap ?tbl Fops_mmap ?vma (printk KERN_INFO ''Device opened'' [] (mach ?d)) =
      (True, snd (sys_mmap ?tbl Fops_mmap ?vma (printk KERN_INFO ''Device opened'' [] (mach ?d))))"
    by (simp add: prod_eq_iff)
  obtain t where t: "(ref_step (KERNEL_VERSION 3 10 0))\<^sup>*\<^sup>* ?d t" "files t = files ?d @ [(Fops_mmap, 2)]"
    "mappings ref_mm_remap (kern (mach t)) \<noteq> {}" "buffer (mach ?d) \<notin> allocated ref_mm_slab (kern (mach t))"
    "faults (mach t) = faults (mach ?d)"
    using mapping_outlives_buffer [OF ref_dev.devices_api_axioms ref_devices_boot ref_loaded_reachable pre m, of 8192] by blast
  show ?thesis
    by (rule exI [of _ t]) (use t ref_loaded_mmap(2,4,5) in simp)
qed

end
