(* ===== verification/Interrupt01.thy ===== *)
theory Interrupt01
  imports Step_System
begin

text \<open>
  The module \<open>interrupt01/code.c\<close>: a handler on a shared interrupt line that only observes.
  Interrupts arrive between any two statements of \<open>code_init\<close> and \<open>code_cleanup\<close>, so the model is
  a step relation. The kernel's table of interrupt actions is the argument \<open>Q\<close>, the address of
  \<open>my_dev_id\<close>, which identifies the module's action, the argument \<open>dev\<close>.
\<close>

section \<open>The kernel's interrupt lines\<close>

text \<open>
  \<open>irq_actions\<close> observes the registered actions: the line and the device identifier. A line may be
  shared, and the other actions on it belong to other drivers.
\<close>

record 'k irq_ops =
  request_irq_op :: "int \<Rightarrow> string \<Rightarrow> addr \<Rightarrow> 'k \<Rightarrow> int \<times> 'k"
  synchronize_irq_op :: "int \<Rightarrow> 'k \<Rightarrow> 'k"
  free_irq_op :: "int \<Rightarrow> addr \<Rightarrow> 'k \<Rightarrow> 'k"
  irq_actions :: "'k \<Rightarrow> (int \<times> addr) set"

locale irq_api =
  fixes Q :: "('k, 'y) irq_ops_scheme"
  assumes request_ok: "request_irq_op Q n nm d k = (0, k') \<Longrightarrow> irq_actions Q k' = insert (n, d) (irq_actions Q k)"
    and request_error: "request_irq_op Q n nm d k = (r, k') \<Longrightarrow> r \<noteq> 0 \<Longrightarrow> irq_actions Q k' = irq_actions Q k"
    and synchronize_actions: "irq_actions Q (synchronize_irq_op Q n k) = irq_actions Q k"
    and free_actions: "irq_actions Q (free_irq_op Q n d k) = irq_actions Q k - {(n, d)}"

section \<open>The module\<close>

abbreviation (input) irq19 :: int where "irq19 \<equiv> 19"

text \<open>
  The next statement: of \<open>code_init\<close>, whose result is the argument of \<open>I_returned\<close> when it fails;
  idle after loading; of \<open>code_cleanup\<close>; gone.
\<close>

datatype irq_pc = I_hello | I_request | I_returned int | I_loaded | C_sync | C_free | C_gone

record 'k interrupt01 = "'k env" +
  irq_pc :: irq_pc

definition my_interrupt :: "'k interrupt01 \<Rightarrow> irqreturn \<times> 'k interrupt01" where
  "my_interrupt s = (IRQ_NONE, printk KERN_INFO ''inside interrupt'' [] s)"

fun code_init_stmt :: "('k, 'y) irq_ops_scheme \<Rightarrow> addr \<Rightarrow> irq_pc \<Rightarrow> 'k interrupt01 \<Rightarrow> 'k interrupt01 option" where
  "code_init_stmt Q dev I_hello s =
     Some ((printk KERN_INFO ''***** Hello world! Interrupt ***** '' [] s)\<lparr>irq_pc := I_request\<rparr>)"
| "code_init_stmt Q dev I_request s =
     (let (r, k) = request_irq_op Q irq19 ''my_interrupt'' dev (kern s); s = s\<lparr>kern := k\<rparr>
      in if r \<noteq> 0 then Some ((printk KERN_INFO ''request_irq error %d'' [Num irq19] s)\<lparr>irq_pc := I_returned (- EIO)\<rparr>)
         else Some (s\<lparr>irq_pc := I_loaded\<rparr>))"
| "code_init_stmt Q dev _ s = None"

text \<open>The first statement runs when the loaded module is removed.\<close>

fun code_cleanup_stmt :: "('k, 'y) irq_ops_scheme \<Rightarrow> addr \<Rightarrow> irq_pc \<Rightarrow> 'k interrupt01 \<Rightarrow> 'k interrupt01 option" where
  "code_cleanup_stmt Q dev I_loaded s =
     Some ((printk KERN_INFO ''Cleaning up module.'' [] s)\<lparr>irq_pc := C_sync\<rparr>)"
| "code_cleanup_stmt Q dev C_sync s = Some ((upd_kern (synchronize_irq_op Q irq19) s)\<lparr>irq_pc := C_free\<rparr>)"
| "code_cleanup_stmt Q dev C_free s = Some ((upd_kern (free_irq_op Q irq19 dev) s)\<lparr>irq_pc := C_gone\<rparr>)"
| "code_cleanup_stmt Q dev _ s = None"

text \<open>An interrupt on line \<open>n\<close> calls the handler when the module's action is registered on it.\<close>

definition raise_irq :: "('k, 'y) irq_ops_scheme \<Rightarrow> addr \<Rightarrow> int \<Rightarrow> 'k interrupt01 \<Rightarrow> 'k interrupt01" where
  "raise_irq Q dev n s = (if (n, dev) \<in> irq_actions Q (kern s) then snd (my_interrupt s) else s)"

inductive irq_step :: "('k, 'y) irq_ops_scheme \<Rightarrow> addr \<Rightarrow> 'k interrupt01 \<Rightarrow> 'k interrupt01 \<Rightarrow> bool"
  for Q :: "('k, 'y) irq_ops_scheme" and dev :: addr where
  init: "code_init_stmt Q dev (irq_pc s) s = Some t \<Longrightarrow> irq_step Q dev s t"
| cleanup: "code_cleanup_stmt Q dev (irq_pc s) s = Some t \<Longrightarrow> irq_step Q dev s t"
| interrupt: "irq_step Q dev s (raise_irq Q dev n s)"

definition irq_boot :: "'k \<Rightarrow> 'k interrupt01" where
  "irq_boot k = \<lparr>kern = k, klog = [], faults = [], irq_pc = I_hello\<rparr>"

abbreviation irq_reach :: "('k, 'y) irq_ops_scheme \<Rightarrow> addr \<Rightarrow> 'k \<Rightarrow> 'k interrupt01 \<Rightarrow> bool" where
  "irq_reach Q dev k0 \<equiv> reachable (irq_boot k0) (irq_step Q dev)"

lemmas irq_reach_step = reachable.step [where boot = "irq_boot k0" and step = "irq_step Q dev"] for Q dev k0

inductive_cases irq_stepE: "irq_step Q dev s t"

section \<open>Invariant\<close>

text \<open>The messages, and the log a state may have: the handler's lines are only where it is registered.\<close>

definition hello_line :: logline where "hello_line = Line KERN_INFO ''***** Hello world! Interrupt ***** '' []"
definition inside_line :: logline where "inside_line = Line KERN_INFO ''inside interrupt'' []"
definition cleaning_line :: logline where "cleaning_line = Line KERN_INFO ''Cleaning up module.'' []"
definition error_line :: logline where "error_line = Line KERN_INFO ''request_irq error %d'' [Num irq19]"

lemmas irq_lines = hello_line_def [symmetric] inside_line_def [symmetric] cleaning_line_def [symmetric]
  error_line_def [symmetric]

fun irq_log_ok :: "irq_pc \<Rightarrow> logline list \<Rightarrow> bool" where
  "irq_log_ok I_hello l \<longleftrightarrow> l = []"
| "irq_log_ok I_request l \<longleftrightarrow> l = [hello_line]"
| "irq_log_ok (I_returned r) l \<longleftrightarrow> r = - EIO \<and> l = [hello_line, error_line]"
| "irq_log_ok I_loaded l \<longleftrightarrow> (\<exists>n. l = hello_line # replicate n inside_line)"
| "irq_log_ok _ l \<longleftrightarrow> (\<exists>n m. l = hello_line # replicate n inside_line @ cleaning_line # replicate m inside_line)"

definition registered :: "irq_pc \<Rightarrow> bool" where
  "registered p \<longleftrightarrow> p \<in> {I_loaded, C_sync, C_free}"

definition irq_inv :: "('k, 'y) irq_ops_scheme \<Rightarrow> addr \<Rightarrow> 'k \<Rightarrow> 'k interrupt01 \<Rightarrow> bool" where
  "irq_inv Q dev k0 s \<longleftrightarrow> faults s = [] \<and> irq_log_ok (irq_pc s) (klog s) \<and>
     irq_actions Q (kern s) = irq_actions Q k0 \<union> (if registered (irq_pc s) then {(irq19, dev)} else {})"

lemma replicate_snoc: "replicate n x @ [x] = replicate (Suc n) x"
  by (simp add: replicate_append_same)

text \<open>A registered handler may add its line at any time.\<close>

lemma irq_log_inside:
  assumes "irq_log_ok p l" and "registered p"
  shows "irq_log_ok p (l @ [inside_line])"
  using assms by (cases p) (auto simp: registered_def replicate_snoc simp del: replicate.simps, blast+)

context irq_api
begin

lemma irq_inv_raise:
  assumes "irq_inv Q dev k0 s" and "\<forall>n. (n, dev) \<notin> irq_actions Q k0"
  shows "irq_inv Q dev k0 (raise_irq Q dev n s)"
proof (cases "(n, dev) \<in> irq_actions Q (kern s)")
  case True
  then have "registered (irq_pc s)" using assms by (auto simp: irq_inv_def split: if_splits)
  then show ?thesis
    using assms(1) True irq_log_inside by (simp add: irq_inv_def raise_irq_def my_interrupt_def printk_def irq_lines)
next
  case False
  then show ?thesis using assms(1) by (simp add: raise_irq_def)
qed

lemma irq_inv_init:
  assumes "irq_inv Q dev k0 s" and "code_init_stmt Q dev (irq_pc s) s = Some t"
  shows "irq_inv Q dev k0 t"
proof (cases "irq_pc s = I_request")
  case True
  obtain r k where r: "request_irq_op Q irq19 ''my_interrupt'' dev (kern s) = (r, k)" by fastforce
  note I = assms(1) [unfolded irq_inv_def True irq_log_ok.simps registered_def]
  show ?thesis
  proof (cases "r = 0")
    case r0: True
    then have "t = s\<lparr>kern := k, irq_pc := I_loaded\<rparr>" using assms(2) r by (simp add: True)
    moreover have "irq_log_ok I_loaded [hello_line]" by simp
    ultimately show ?thesis using I request_ok r unfolding r0 by (simp add: irq_inv_def registered_def)
  next
    case False
    then have "t = s\<lparr>kern := k, klog := klog s @ [error_line], irq_pc := I_returned (- EIO)\<rparr>"
      using assms(2) r by (simp add: True printk_def error_line_def)
    then show ?thesis using I request_error [OF r False] by (simp add: irq_inv_def registered_def)
  qed
next
  case False
  then have pc: "irq_pc s = I_hello" using assms(2) by (cases "irq_pc s") simp_all
  then have "t = s\<lparr>klog := klog s @ [hello_line], irq_pc := I_request\<rparr>"
    using assms(2) by (simp add: printk_def hello_line_def)
  then show ?thesis using assms(1) pc by (simp add: irq_inv_def registered_def)
qed

lemma irq_inv_cleanup:
  assumes "irq_inv Q dev k0 s" and "code_cleanup_stmt Q dev (irq_pc s) s = Some t" and "(irq19, dev) \<notin> irq_actions Q k0"
  shows "irq_inv Q dev k0 t"
proof (cases "irq_pc s = I_loaded")
  case True
  then obtain n where "klog s = hello_line # replicate n inside_line" using assms(1) by (auto simp: irq_inv_def)
  then have "irq_log_ok C_sync (klog s @ [cleaning_line])" by (simp, intro exI [of _ n] exI [of _ 0]) simp
  moreover have "t = s\<lparr>klog := klog s @ [cleaning_line], irq_pc := C_sync\<rparr>"
    using assms(2) by (simp add: True printk_def cleaning_line_def)
  ultimately show ?thesis using assms(1) True by (simp add: irq_inv_def registered_def del: irq_log_ok.simps)
next
  case False
  then consider "irq_pc s = C_sync" "t = s\<lparr>kern := synchronize_irq_op Q irq19 (kern s), irq_pc := C_free\<rparr>"
    | "irq_pc s = C_free" "t = s\<lparr>kern := free_irq_op Q irq19 dev (kern s), irq_pc := C_gone\<rparr>"
    using assms(2) by (cases "irq_pc s") (auto simp: upd_kern_def)
  then show ?thesis
    by cases (use assms(1,3) in \<open>simp_all add: irq_inv_def registered_def synchronize_actions free_actions\<close>)
qed

lemma irq_system:
  assumes "\<forall>n. (n, dev) \<notin> irq_actions Q k0"
  shows "invariant_system (irq_boot k0) (irq_step Q dev) (irq_inv Q dev k0)"
proof unfold_locales
  show "irq_inv Q dev k0 (irq_boot k0)" by (simp add: irq_inv_def irq_boot_def registered_def)
  show "irq_inv Q dev k0 t" if "irq_step Q dev s t" "irq_inv Q dev k0 s" for s t
    using that(1) by (cases rule: irq_step.cases) (use that(2) assms in \<open>auto intro: irq_inv_init irq_inv_cleanup irq_inv_raise\<close>)
qed

lemma irq_quiescent:
  assumes "\<forall>n. (n, dev) \<notin> irq_actions Q k0"
  shows "quiescent_system (irq_boot k0) (irq_step Q dev) (irq_inv Q dev k0) (\<lambda>s. irq_pc s = C_gone)"
proof (intro quiescent_system.intro quiescent_system_axioms.intro irq_system assms)
  fix s t
  assume "irq_inv Q dev k0 s" "irq_pc s = C_gone" "irq_step Q dev s t"
  from this(3,1,2) show "t = s"
    using assms by (cases rule: irq_step.cases) (auto simp: raise_irq_def irq_inv_def registered_def)
qed

end

section \<open>A reference interrupt controller\<close>

text \<open>A table of at most four actions.\<close>

definition ref_irq :: "(int \<times> addr) list irq_ops" where
  "ref_irq = \<lparr>
     request_irq_op = (\<lambda>n nm d k. if length k < 4 then (0, (n, d) # k) else (-16, k)),
     synchronize_irq_op = (\<lambda>n k. k), free_irq_op = (\<lambda>n d k. removeAll (n, d) k), irq_actions = set\<rparr>"

interpretation ref_irqs: irq_api ref_irq
  by unfold_locales (auto simp: ref_irq_def split: if_splits)

interpretation ref_irq_module: quiescent_system "irq_boot []" "irq_step ref_irq 7" "irq_inv ref_irq 7 []"
  "\<lambda>s. irq_pc s = C_gone"
  by (rule ref_irqs.irq_quiescent) (simp add: ref_irq_def)

text \<open>A run of the module: load, an interrupt, unload, an interrupt in between.\<close>

definition irq_run :: "(int \<times> addr) list \<Rightarrow> (int \<times> addr) list interrupt01" where
  "irq_run k =
     (let s = the (code_init_stmt ref_irq 7 I_hello (irq_boot k));
          s = the (code_init_stmt ref_irq 7 I_request s);
          s = raise_irq ref_irq 7 19 s;
          s = the (code_cleanup_stmt ref_irq 7 I_loaded s);
          s = raise_irq ref_irq 7 19 s;
          s = the (code_cleanup_stmt ref_irq 7 C_sync s);
          s = the (code_cleanup_stmt ref_irq 7 C_free s)
      in raise_irq ref_irq 7 19 s)"

lemma irq_run_reach: "length k < 4 \<Longrightarrow> irq_reach ref_irq 7 k (irq_run k)" "length k < 4 \<Longrightarrow> irq_pc (irq_run k) = C_gone"
proof -
  assume k: "length k < 4"
  have pcs: "irq_pc (raise_irq Q d n s) = irq_pc s" for Q :: "((int \<times> addr) list) irq_ops" and d n s
    by (simp add: raise_irq_def my_interrupt_def printk_def)
  show "irq_pc (irq_run k) = C_gone" using k by (simp add: irq_run_def irq_boot_def pcs ref_irq_def)
  have init: "irq_reach ref_irq 7 k (the (code_init_stmt ref_irq 7 p s))"
    if "irq_reach ref_irq 7 k s" "irq_pc s = p" "code_init_stmt ref_irq 7 p s \<noteq> None" for s p
    using that by (auto intro: irq_reach_step [OF _ irq_step.init])
  have clean: "irq_reach ref_irq 7 k (the (code_cleanup_stmt ref_irq 7 p s))"
    if "irq_reach ref_irq 7 k s" "irq_pc s = p" "code_cleanup_stmt ref_irq 7 p s \<noteq> None" for s p
    using that by (auto intro: irq_reach_step [OF _ irq_step.cleanup])
  have raise: "irq_reach ref_irq 7 k (raise_irq ref_irq 7 19 s)" if "irq_reach ref_irq 7 k s" for s
    by (rule irq_reach_step [OF that irq_step.interrupt])
  show "irq_reach ref_irq 7 k (irq_run k)"
    unfolding irq_run_def Let_def using k
    by (intro raise init clean reachable.init) (simp_all add: pcs irq_boot_def ref_irq_def printk_def)
qed

section \<open>Properties\<close>

text \<open>
  C25. In every execution, with interrupts at any time, the module's handler is registered exactly
  from the successful \<open>request_irq\<close> to \<open>free_irq\<close>, and only there does it write its message: none
  before the module is loaded or after a failed registration, which returns \<open>-EIO\<close>, and none once
  it is unloaded, when interrupts change nothing. The actions of the other drivers on the line are
  untouched throughout.
\<close>

theorem interrupt01_reachable:
  assumes "irq_api Q" and "\<forall>n. (n, dev) \<notin> irq_actions Q k0" and "irq_reach Q dev k0 s"
  shows "irq_log_ok (irq_pc s) (klog s) \<and> faults s = [] \<and>
    ((irq19, dev) \<in> irq_actions Q (kern s) \<longleftrightarrow> registered (irq_pc s)) \<and>
    irq_actions Q (kern s) - {(irq19, dev)} = irq_actions Q k0 \<and>
    (irq_pc s = C_gone \<longrightarrow> (\<forall>t. irq_step Q dev s t \<longrightarrow> t = s))"
proof -
  have inv: "irq_inv Q dev k0 s" by (rule invariant_system.reach_inv [OF irq_api.irq_system [OF assms(1,2)] assms(3)])
  have "t = s" if "irq_pc s = C_gone" "irq_step Q dev s t" for t
    by (rule quiescent_system.gone_step [OF irq_api.irq_quiescent [OF assms(1,2)] inv that])
  then show ?thesis using inv assms(2) by (auto simp: irq_inv_def split: if_splits)
qed

theorem interrupt01_reachable_witness:
  "irq_log_ok C_gone (klog (irq_run [(19, 3)])) \<and> set (kern (irq_run [(19, 3)])) - {(19, 7)} = {(19, 3)}"
proof -
  have pre: "\<forall>n. (n, 7) \<notin> irq_actions ref_irq [(19, 3)]" by (simp add: ref_irq_def)
  have r: "irq_reach ref_irq 7 [(19, 3)] (irq_run [(19, 3)])" "irq_pc (irq_run [(19, 3)]) = C_gone"
    using irq_run_reach [of "[(19, 3)]"] by simp_all
  show ?thesis
    using interrupt01_reachable [OF ref_irqs.irq_api_axioms pre r(1)] r(2)
    by (simp add: ref_irq_def del: irq_log_ok.simps)
qed

end
