(* ===== verification/Kernfs.thy ===== *)
theory Kernfs
  imports Thread_Api
begin

text \<open>
  The module \<open>kernfs/code.c\<close>, which creates a kernfs hierarchy with operations that do nothing. The
  kernel's kernfs is the argument \<open>F\<close>.
\<close>

section \<open>The kernel's hierarchies\<close>

text \<open>The operations of a hierarchy, by the names of the functions they are set to.\<close>

datatype fruit_fn = Fn_show_options | Fn_mkdir | Fn_rmdir | Fn_rename

record kernfs_syscall_ops =
  op_show_options :: fruit_fn
  op_mkdir :: fruit_fn
  op_rmdir :: fruit_fn
  op_rename :: fruit_fn

text \<open>\<open>kernfs_roots\<close> observes the hierarchies that exist, with their operations.\<close>

record 'k kernfs_ops =
  kernfs_create_root_op :: "kernfs_syscall_ops \<Rightarrow> nat \<Rightarrow> addr \<Rightarrow> 'k \<Rightarrow> addr \<times> 'k"
  kernfs_roots :: "'k \<Rightarrow> addr \<rightharpoonup> kernfs_syscall_ops"

locale kernfs_api =
  fixes F :: "('k, 'y) kernfs_ops_scheme"
  assumes create_root: "kernfs_create_root_op F ops fl priv k = (p, k') \<Longrightarrow> \<not> IS_ERR p \<Longrightarrow>
      kernfs_roots F k p = None \<and> kernfs_roots F k' = (kernfs_roots F k)(p \<mapsto> ops)"
    and create_root_error: "kernfs_create_root_op F ops fl priv k = (p, k') \<Longrightarrow> IS_ERR p \<Longrightarrow>
      kernfs_roots F k' = kernfs_roots F k"

section \<open>The module\<close>

record fruit =
  fruit_name :: string
  fruit_i :: int
  kf_root :: addr
  kf_ops :: addr
  refcnt :: int

definition fruit_show_options :: "addr \<Rightarrow> addr \<Rightarrow> 's \<Rightarrow> int \<times> 's" where
  "fruit_show_options seq kf_rt s = (0, s)"

definition fruit_mkdir :: "addr \<Rightarrow> string \<Rightarrow> nat \<Rightarrow> 's \<Rightarrow> int \<times> 's" where
  "fruit_mkdir parent_kn name mode s = (0, s)"

definition fruit_rmdir :: "addr \<Rightarrow> 's \<Rightarrow> int \<times> 's" where
  "fruit_rmdir kn s = (0, s)"

definition fruit_rename :: "addr \<Rightarrow> addr \<Rightarrow> string \<Rightarrow> 's \<Rightarrow> int \<times> 's" where
  "fruit_rename kn new_parent new_name_str s = (0, s)"

definition fruit_syscall_ops :: kernfs_syscall_ops where
  "fruit_syscall_ops = \<lparr>op_show_options = Fn_show_options, op_mkdir = Fn_mkdir, op_rmdir = Fn_rmdir, op_rename = Fn_rename\<rparr>"

text \<open>The values of the kernel headers.\<close>

abbreviation (input) KERNFS_FILE :: int where "KERNFS_FILE \<equiv> 2"
abbreviation (input) KERNFS_ROOT_CREATE_DEACTIVATED :: nat where "KERNFS_ROOT_CREATE_DEACTIVATED \<equiv> 1"

text \<open>
  The local variable \<open>root\<close> is not initialised; its contents are an argument, and what it holds in
  the end is part of the result, since nothing else keeps the pointer.
\<close>

definition kernfs_km_init ::
  "('k, 'y) kernfs_ops_scheme \<Rightarrow> fruit \<Rightarrow> ('k, 'z) env_scheme \<Rightarrow> int \<times> fruit \<times> ('k, 'z) env_scheme" where
  "kernfs_km_init F root s =
     (let s = printk KERN_INFO ''Hello! %x'' [Num KERNFS_FILE] s;
          root = root\<lparr>kf_root := NULL\<rparr>;
          (p, k) = kernfs_create_root_op F fruit_syscall_ops KERNFS_ROOT_CREATE_DEACTIVATED NULL (kern s);
          s = s\<lparr>kern := k\<rparr>;
          root = root\<lparr>kf_root := p\<rparr>
      in (0, root, s))"

definition kernfs_km_exit :: "('k, 'z) env_scheme \<Rightarrow> ('k, 'z) env_scheme" where
  "kernfs_km_exit s = printk KERN_INFO ''Goodbye'' [] s"

section \<open>Loading and unloading\<close>

definition kernfs_cycle :: "('k, 'y) kernfs_ops_scheme \<Rightarrow> fruit \<Rightarrow> 'k env \<Rightarrow> 'k env" where
  "kernfs_cycle F root s = (let (r, root, s) = kernfs_km_init F root s in kernfs_km_exit s)"

context kernfs_api
begin

lemma kernfs_cycle_roots:
  assumes "kernfs_create_root_op F fruit_syscall_ops KERNFS_ROOT_CREATE_DEACTIVATED NULL (kern s) = (p, k)"
  shows "kern (kernfs_cycle F root s) = k"
    and "\<not> IS_ERR p \<Longrightarrow> kernfs_roots F k = (kernfs_roots F (kern s))(p \<mapsto> fruit_syscall_ops) \<and> p \<notin> dom (kernfs_roots F (kern s))"
    and "IS_ERR p \<Longrightarrow> kernfs_roots F k = kernfs_roots F (kern s)"
  using create_root [OF assms] create_root_error [OF assms] assms
  by (auto simp: kernfs_cycle_def kernfs_km_init_def kernfs_km_exit_def)

end

section \<open>A reference table of hierarchies\<close>

definition ref_kernfs :: "(addr \<times> kernfs_syscall_ops) list kernfs_ops" where
  "ref_kernfs = \<lparr>
     kernfs_create_root_op = (\<lambda>ops fl priv k. let p = Suc (fold max (map fst k) 0) in if IS_ERR p then (2 ^ 64 - 12, k) else (p, (p, ops) # k)),
     kernfs_roots = map_of\<rparr>"

interpretation ref_fs: kernfs_api ref_kernfs
proof unfold_locales
  fix ops fl priv k p k'
  assume c: "kernfs_create_root_op ref_kernfs ops fl priv k = (p, k')" and "\<not> IS_ERR p"
  have "Suc (fold max (map fst k) 0) \<notin> fst ` set k"
    using fold_max_ge [of "Suc (fold max (map fst k) 0)" "map fst k" 0] by auto
  then have "map_of k (Suc (fold max (map fst k) 0)) = None" by (simp add: map_of_eq_None_iff)
  then show "kernfs_roots ref_kernfs k p = None \<and> kernfs_roots ref_kernfs k' = (kernfs_roots ref_kernfs k)(p \<mapsto> ops)"
    using c \<open>\<not> IS_ERR p\<close> by (auto simp: ref_kernfs_def Let_def IS_ERR_def split: if_splits)
next
  fix ops fl priv k p k'
  assume "kernfs_create_root_op ref_kernfs ops fl priv k = (p, k')" and "IS_ERR p"
  then show "kernfs_roots ref_kernfs k' = kernfs_roots ref_kernfs k"
    by (auto simp: ref_kernfs_def Let_def split: if_splits)
qed

text \<open>What the stack may hold before the local variable is assigned.\<close>

definition fruit_stack :: fruit where
  "fruit_stack = \<lparr>fruit_name = [], fruit_i = 7, kf_root = 7, kf_ops = 7, refcnt = 7\<rparr>"

section \<open>Properties\<close>

text \<open>
  Loading the module returns 0 whether or not the hierarchy could be created. When it could, it
  is still there after the module has been unloaded, with operations that are functions of the
  unloaded module: \<open>km_exit\<close> does not destroy it, and the only pointer to it was in a local variable.
\<close>

theorem kernfs_root_leaks:
  assumes "kernfs_api F"
    and "kernfs_create_root_op F fruit_syscall_ops KERNFS_ROOT_CREATE_DEACTIVATED NULL (kern s) = (p, k)"
  shows "fst (kernfs_km_init F root s) = 0 \<and>
    (let roots = kernfs_roots F (kern (kernfs_cycle F root s)) in
     if IS_ERR p then roots = kernfs_roots F (kern s)
     else p \<notin> dom (kernfs_roots F (kern s)) \<and> roots = (kernfs_roots F (kern s))(p \<mapsto> fruit_syscall_ops))"
proof -
  have "fst (kernfs_km_init F root s) = 0" using assms(2) by (simp add: kernfs_km_init_def Let_def split: prod.split)
  then show ?thesis using kernfs_api.kernfs_cycle_roots [OF assms] by (simp add: Let_def)
qed

theorem kernfs_root_leaks_witness:
  "kernfs_roots ref_kernfs (kern (kernfs_cycle ref_kernfs fruit_stack \<lparr>kern = [], klog = [], faults = []\<rparr>)) = [1 \<mapsto> fruit_syscall_ops]"
proof -
  have "kernfs_create_root_op ref_kernfs fruit_syscall_ops KERNFS_ROOT_CREATE_DEACTIVATED NULL
      (kern \<lparr>kern = [], klog = [], faults = []\<rparr>) = (1, [(1, fruit_syscall_ops)])"
    by (simp add: ref_kernfs_def IS_ERR_def)
  then show ?thesis
    using kernfs_root_leaks [OF ref_fs.kernfs_api_axioms, of "\<lparr>kern = [], klog = [], faults = []\<rparr>"]
    by (simp add: IS_ERR_def Let_def ref_kernfs_def)
qed

end
