(* ===== verification/Link_List.thy ===== *)
theory Link_List
  imports Ref_Kernel "HOL-Library.Monad_Syntax"
begin

text \<open>
  The module \<open>link_list/code.c\<close>: five structures are allocated, pushed on the global list
  \<open>mylist\<close>, a sixth one on the stack is appended, two are unlinked, the list is printed after
  each phase and the five are freed. The kernel's allocator and list operations are the
  argument \<open>K\<close>; the addresses of \<open>mylist\<close> and of the stack variable \<open>temp\<close>, which the
  linker and the compiler choose, are arguments too.
\<close>

section \<open>State and operations\<close>

text \<open>The member \<open>a\<close> of every \<open>struct foo\<close>; the member \<open>list\<close> is kept by the kernel.\<close>

record 'k link_list = "'k env" +
  foo_a :: "addr \<Rightarrow> int"

abbreviation sizeof_foo :: nat where
  "sizeof_foo \<equiv> 24"

definition link_list_print ::
  "('k, 'y) list_ops_scheme \<Rightarrow> addr \<Rightarrow> 'k link_list \<Rightarrow> 'k link_list option" where
  "link_list_print K mylist s =
     do {
       s \<leftarrow> list_for_each_entry K mylist
              (\<lambda>f s. pr_info ''Data = %d'' [Num (foo_a s f)] (deref K f s)) s;
       Some (pr_info ''=============='' [] s)
     }"

text \<open>One round of the allocation loop; \<open>Inl\<close> is the early return of \<open>start\<close>.\<close>

definition link_list_alloc ::
  "('k, 'y) list_ops_scheme \<Rightarrow> nat \<Rightarrow> (nat \<Rightarrow> addr) \<times> 'k link_list \<Rightarrow>
   (int \<times> 'k link_list) + ((nat \<Rightarrow> addr) \<times> 'k link_list)" where
  "link_list_alloc K i = (\<lambda>(fvar, s).
     let (p, s) = kmalloc K sizeof_foo s; fvar = fvar(i := p)
     in if fvar i = NULL then Inl (-1, pr_info ''Kmalloc Failed %d'' [Num (int i)] s)
        else let s = deref K (fvar i) s
             in Inr (fvar, s\<lparr>foo_a := (foo_a s)(fvar i := int i * 100)\<rparr>))"

text \<open>The rest of \<open>start\<close>, after the allocation loop.\<close>

definition link_list_rest ::
  "('k, 'y) list_ops_scheme \<Rightarrow> addr \<Rightarrow> addr \<Rightarrow> (nat \<Rightarrow> addr) \<Rightarrow> 'k link_list \<Rightarrow> (int \<times> 'k link_list) option" where
  "link_list_rest K mylist temp fvar s =
     (let s = list_add K (fvar 0) mylist s;
          s = list_add K (fvar 1) mylist s;
          s = list_add K (fvar 2) mylist s;
          s = list_add K (fvar 3) mylist s;
          s = list_add K (fvar 4) mylist s
      in do {
        s \<leftarrow> link_list_print K mylist s;
        let s = s\<lparr>foo_a := (foo_a s)(temp := 1400)\<rparr>;
        let s = list_add_tail K temp mylist s;
        s \<leftarrow> link_list_print K mylist s;
        let s = list_del K temp s;
        let s = list_del K (fvar 0) s;
        s \<leftarrow> link_list_print K mylist s;
        Some (0, fold (\<lambda>i. kfree K (fvar i)) [0..<5] s)
      })"

text \<open>
  The array \<open>fvar\<close> is not initialised by the source and every cell is written before it is
  read; the model starts it with \<open>NULL\<close>.
\<close>

definition link_list_start ::
  "('k, 'y) list_ops_scheme \<Rightarrow> addr \<Rightarrow> addr \<Rightarrow> 'k link_list \<Rightarrow> (int \<times> 'k link_list) option" where
  "link_list_start K mylist temp s =
     (let s = INIT_LIST_HEAD K mylist s
      in case c_for [0..<5] (link_list_alloc K) (\<lambda>_. NULL, s) of
           Inl r \<Rightarrow> Some r
         | Inr (fvar, s) \<Rightarrow> link_list_rest K mylist temp fvar s)"

definition link_list_stops :: "'k link_list \<Rightarrow> 'k link_list" where
  "link_list_stops s = s"

text \<open>The log lines of one printing of the list.\<close>

definition data_lines :: "int list \<Rightarrow> logline list" where
  "data_lines ds = map (\<lambda>d. Line KERN_INFO ''Data = %d'' [Num d]) ds @ [Line KERN_INFO ''=============='' []]"

section \<open>Lemmas under the kernel's contract\<close>

text \<open>What holds of \<open>fvar\<close> and the state before round \<open>i\<close> of the allocation loop.\<close>

definition alloc_inv ::
  "('k, 'y) list_ops_scheme \<Rightarrow> ('k \<Rightarrow> addr \<Rightarrow> addr list \<Rightarrow> bool) \<Rightarrow> addr \<Rightarrow> 'k link_list \<Rightarrow> nat \<Rightarrow>
   (nat \<Rightarrow> addr) \<times> 'k link_list \<Rightarrow> bool" where
  "alloc_inv K dlist mylist s0 i = (\<lambda>(fvar, s).
     dlist (kern s) mylist [] \<and> inj_on fvar {..<i} \<and> fvar ` {..<i} \<inter> valid K (kern s0) = {} \<and>
     allocated K (kern s) = allocated K (kern s0) \<union> fvar ` {..<i} \<and>
     (\<forall>j<i. foo_a s (fvar j) = int j * 100) \<and> klog s = klog s0 \<and> faults s = faults s0)"

context list_api
begin

lemma link_list_print_ok:
  assumes "dlist (kern s) h xs" and "set xs \<subseteq> valid K (kern s)"
  shows "link_list_print K h s = Some (s\<lparr>klog := klog s @ data_lines (map (foo_a s) xs)\<rparr>)"
  using for_each_entry_log [OF assms, where body = "\<lambda>f s. pr_info ''Data = %d'' [Num (foo_a s f)] (deref K f s)"
      and args = "\<lambda>p s. [Num (foo_a s p)]"]
  by (simp add: link_list_print_def data_lines_def printk_def comp_def)

lemma link_list_alloc_step:
  assumes "alloc_inv K dlist h s0 i (fvar, s)"
  shows "case link_list_alloc K i (fvar, s) of
      Inl (r, s') \<Rightarrow> r = -1 \<and> klog s' = klog s0 @ [Line KERN_INFO ''Kmalloc Failed %d'' [Num (int i)]] \<and>
        faults s' = faults s0 \<and> allocated K (kern s') = allocated K (kern s0) \<union> fvar ` {..<i} \<and>
        inj_on fvar {..<i} \<and> fvar ` {..<i} \<inter> allocated K (kern s0) = {}
    | Inr fs \<Rightarrow> alloc_inv K dlist h s0 (Suc i) fs"
proof -
  obtain p s1 where m: "kmalloc K sizeof_foo s = (p, s1)" by fastforce
  show ?thesis
    using m
  proof (cases rule: kmalloc_cases)
    case (1 k)
    then show ?thesis
      using assms m by (auto simp: link_list_alloc_def alloc_inv_def valid_def)
  next
    case (2 k)
    have "p \<in> valid K k" using 2 by (simp add: valid_def)
    moreover have "dlist k h []" using 2 assms dlist_kmalloc by (auto simp: alloc_inv_def)
    moreover have "p \<notin> fvar ` {..<i}" "p \<notin> valid K (kern s0)"
      using 2(2) assms by (auto simp: alloc_inv_def valid_def)
    ultimately show ?thesis
      using assms m 2
      by (auto simp: link_list_alloc_def alloc_inv_def lessThan_Suc inj_on_def less_Suc_eq)
  qed
qed

text \<open>
  The kernel states after the pushes, after the sixth node is appended, and after the two
  deletions: the list in each of them, and the allocated objects.
\<close>

lemma link_list_rings:
  fixes fvar :: "nat \<Rightarrow> addr"
  assumes inv: "alloc_inv K dlist h s0 5 (fvar, s)"
    and h: "h \<in> statics K" and temp: "temp \<in> statics K" "temp \<noteq> h"
  defines "ns \<equiv> map fvar [0..<5]"
  defines "k1 \<equiv> fold (\<lambda>n. list_add_op K n h) ns (kern s)"
  defines "k2 \<equiv> list_add_tail_op K temp h k1"
  defines "k4 \<equiv> list_del_op K (fvar 0) (list_del_op K temp k2)"
  shows "ns = [fvar 0, fvar 1, fvar 2, fvar 3, fvar 4]" and "distinct ns" and "set ns \<inter> valid K (kern s0) = {}"
    and "allocated K (kern s) = allocated K (kern s0) \<union> set ns" and "set ns \<subseteq> valid K (kern s)"
    and "h \<notin> set ns" and "temp \<notin> set ns"
    and "allocated K k1 = allocated K (kern s)" and "allocated K k2 = allocated K (kern s)"
    and "allocated K k4 = allocated K (kern s)"
    and "dlist k1 h (rev ns)" and "dlist k2 h (rev ns @ [temp])" and "dlist k4 h [fvar 4, fvar 3, fvar 2, fvar 1]"
proof -
  show ns: "ns = [fvar 0, fvar 1, fvar 2, fvar 3, fvar 4]"
    by (simp add: ns_def upt_rec numeral_eq_Suc)
  have range: "fvar ` {..<5} = set ns" by (simp add: ns_def atLeast0LessThan)
  show dist: "distinct ns" using inv by (simp add: ns_def alloc_inv_def distinct_map atLeast0LessThan)
  show fresh: "set ns \<inter> valid K (kern s0) = {}" and alloc: "allocated K (kern s) = allocated K (kern s0) \<union> set ns"
    using inv by (auto simp: alloc_inv_def range)
  then show sub: "set ns \<subseteq> valid K (kern s)" and hn: "h \<notin> set ns" and tn: "temp \<notin> set ns"
    using h temp by (auto simp: valid_def)
  show "allocated K k1 = allocated K (kern s)" "allocated K k2 = allocated K (kern s)" "allocated K k4 = allocated K (kern s)"
    using list_add_fold(2) [OF sub] by (auto simp: k1_def k2_def k4_def)
  show d1: "dlist k1 h (rev ns)"
    using dlist_push_all [of "kern s" h "[]" ns] inv dist hn by (auto simp: k1_def alloc_inv_def)
  show d2: "dlist k2 h (rev ns @ [temp])"
    using dlist_add_tail [OF d1, of temp] tn temp by (simp add: k2_def)
  have "dlist (list_del_op K temp k2) h (rev ns)"
    using dlist_del [OF d2, of temp] tn by simp
  from dlist_del [OF this, of "fvar 0"] show "dlist k4 h [fvar 4, fvar 3, fvar 2, fvar 1]"
    using dist by (auto simp: k4_def ns)
qed

text \<open>
  From the end of the allocation loop to the end of \<open>start\<close>: the three printings, and the
  heap as it was before, with the head of the list left pointing at the last node pushed.
\<close>

lemma link_list_rest_ok:
  assumes inv: "alloc_inv K dlist h s0 5 (fvar, s)"
    and h: "h \<in> statics K" and temp: "temp \<in> statics K" "temp \<noteq> h"
  shows "\<exists>s'. link_list_rest K h temp fvar s = Some (0, s') \<and> faults s' = faults s0 \<and>
    klog s' = klog s0 @ data_lines [400, 300, 200, 100, 0] @ data_lines [400, 300, 200, 100, 0, 1400] @
      data_lines [400, 300, 200, 100] \<and>
    allocated K (kern s') = allocated K (kern s0) \<and> list_next_op K h (kern s') = fvar 4 \<and> fvar 4 \<notin> valid K (kern s0)"
proof -
  define ns where "ns = map fvar [0..<5]"
  define k1 where "k1 = fold (\<lambda>n. list_add_op K n h) ns (kern s)"
  define k2 where "k2 = list_add_tail_op K temp h k1"
  define k4 where "k4 = list_del_op K (fvar 0) (list_del_op K temp k2)"
  note rings = link_list_rings [OF inv h temp, folded ns_def, folded k1_def, folded k2_def, folded k4_def]
  note ns = rings(1) and dist = rings(2) and fresh = rings(3) and alloc = rings(4) and sub = rings(5)
    and notin = rings(6,7) and ks = rings(8-10) and d1 = rings(11) and d2 = rings(12) and d4 = rings(13)
  have vals: "foo_a s (fvar 0) = 0" "foo_a s (fvar 1) = 100" "foo_a s (fvar 2) = 200"
    "foo_a s (fvar 3) = 300" "foo_a s (fvar 4) = 400"
    using inv by (auto simp: alloc_inv_def)
  have log: "klog s = klog s0" "faults s = faults s0" using inv by (auto simp: alloc_inv_def)
  have adds: "list_add K (fvar 4) h (list_add K (fvar 3) h (list_add K (fvar 2) h (list_add K (fvar 1) h
      (list_add K (fvar 0) h s)))) = s\<lparr>kern := k1\<rparr>"
    using list_add_fold(1) [OF sub, of h] by (simp add: ns k1_def upd_kern_def)
  define l1 where "l1 = klog s0 @ data_lines [400, 300, 200, 100, 0]"
  define l2 where "l2 = l1 @ data_lines [400, 300, 200, 100, 0, 1400]"
  define l3 where "l3 = l2 @ data_lines [400, 300, 200, 100]"
  define a where "a = (foo_a s)(temp := 1400)"
  have avals: "a (fvar 0) = 0" "a (fvar 1) = 100" "a (fvar 2) = 200" "a (fvar 3) = 300" "a (fvar 4) = 400"
    "a temp = 1400"
    using vals notin by (auto simp: a_def ns)
  have p1: "link_list_print K h (s\<lparr>kern := k1\<rparr>) = Some (s\<lparr>kern := k1, klog := l1\<rparr>)"
    using link_list_print_ok [of "s\<lparr>kern := k1\<rparr>" h "rev ns"] d1 sub ks
    by (simp add: valid_def vals log l1_def ns del: One_nat_def)
  have p2: "link_list_print K h (s\<lparr>kern := k2, klog := l1, foo_a := a\<rparr>) =
      Some (s\<lparr>kern := k2, klog := l2, foo_a := a\<rparr>)"
    using link_list_print_ok [of "s\<lparr>kern := k2, klog := l1, foo_a := a\<rparr>" h "rev ns @ [temp]"] d2 sub ks temp notin
    by (simp add: valid_def avals l2_def ns del: One_nat_def)
  have p3: "link_list_print K h (s\<lparr>kern := k4, klog := l2, foo_a := a\<rparr>) =
      Some (s\<lparr>kern := k4, klog := l3, foo_a := a\<rparr>)"
    using link_list_print_ok [of "s\<lparr>kern := k4, klog := l2, foo_a := a\<rparr>" h] d4 sub ks notin
    by (simp add: valid_def avals l3_def ns del: One_nat_def)
  have add2: "list_add_tail K temp h (s\<lparr>kern := k1, klog := l1, foo_a := a\<rparr>) = s\<lparr>kern := k2, klog := l1, foo_a := a\<rparr>"
    using temp by (simp add: list_add_tail_ok valid_def upd_kern_def k2_def)
  have del3: "list_del K (fvar 0) (list_del K temp (s\<lparr>kern := k2, klog := l2, foo_a := a\<rparr>)) =
      s\<lparr>kern := k4, klog := l2, foo_a := a\<rparr>"
    using temp sub ks by (simp add: list_del_ok valid_def upd_kern_def k4_def ns del: One_nat_def)
  define t where "t = s\<lparr>kern := k4, klog := l3, foo_a := a\<rparr>"
  have frees: "fold (\<lambda>i. kfree K (fvar i)) [0..<5] t = fold (kfree K) ns t"
    unfolding ns_def fold_map comp_def ..
  have run: "link_list_rest K h temp fvar s = Some (0, fold (kfree K) ns t)"
    by (simp add: link_list_rest_def adds p1 p2 p3 add2 del3 a_def [symmetric] t_def [symmetric] frees
        del: One_nat_def upt_rec_numeral)
  have t: "kern t = k4" "klog t = l3" "faults t = faults s0" by (simp_all add: t_def log)
  have sub_t: "set ns \<subseteq> allocated K (kern t)" using alloc ks by (auto simp: t)
  have "allocated K (kern (fold (kfree K) ns t)) = allocated K (kern s0)"
    using kfree_all(1) [OF dist sub_t] fresh alloc ks by (auto simp: t valid_def)
  moreover have "list_next_op K h (kern (fold (kfree K) ns t)) = fvar 4"
    using next_kfree_all [OF notin(1) dist sub_t] dlist_next_head [OF d4] by (simp add: t)
  moreover have "fvar 4 \<notin> valid K (kern s0)" using fresh by (simp add: ns)
  ultimately show ?thesis
    using run kfree_all(2,3) [OF dist sub_t] by (simp add: t l1_def l2_def l3_def)
qed

text \<open>The whole of \<open>start\<close>, on the path where memory suffices and on every other one.\<close>

lemma link_list_start_cases:
  assumes h: "h \<in> statics K" and temp: "temp \<in> statics K" "temp \<noteq> h"
  obtains (success) s' p where "link_list_start K h temp s = Some (0, s')" "faults s' = faults s"
      "klog s' = klog s @ data_lines [400, 300, 200, 100, 0] @ data_lines [400, 300, 200, 100, 0, 1400] @
        data_lines [400, 300, 200, 100]"
      "allocated K (kern s') = allocated K (kern s)" "list_next_op K h (kern s') = p" "p \<notin> valid K (kern s')"
  | (no_memory) s' i V where "link_list_start K h temp s = Some (-1, s')" "faults s' = faults s" "i < 5"
      "klog s' = klog s @ [Line KERN_INFO ''Kmalloc Failed %d'' [Num (int i)]]"
      "allocated K (kern s') = allocated K (kern s) \<union> V" "V \<inter> allocated K (kern s) = {}" "card V = i"
proof -
  define s0 where "s0 = upd_kern (INIT_LIST_HEAD_op K h) s"
  have init: "INIT_LIST_HEAD K h s = s0"
    using h by (simp add: INIT_LIST_HEAD_def valid_def s0_def)
  have s0: "klog s0 = klog s" "faults s0 = faults s" "allocated K (kern s0) = allocated K (kern s)"
    "valid K (kern s0) = valid K (kern s)"
    by (simp_all add: s0_def)
  have inv0: "alloc_inv K dlist h s0 0 (\<lambda>_. 0, s0)"
    using dlist_init by (simp add: alloc_inv_def s0_def)
  let ?Q = "\<lambda>(r, s'). \<exists>i<5. \<exists>V. r = -1 \<and> faults s' = faults s \<and>
      klog s' = klog s @ [Line KERN_INFO ''Kmalloc Failed %d'' [Num (int i)]] \<and>
      allocated K (kern s') = allocated K (kern s) \<union> V \<and> V \<inter> allocated K (kern s) = {} \<and> card V = i"
  have loop: "case c_for [0..<5] (link_list_alloc K) (\<lambda>_. 0, s0) of
      Inl r \<Rightarrow> ?Q r | Inr fs \<Rightarrow> alloc_inv K dlist h s0 5 fs"
  proof (rule c_for_rule)
    show "alloc_inv K dlist h s0 0 (\<lambda>_. 0, s0)" by (rule inv0)
  next
    fix i :: nat and fs
    assume i: "i < 5" and inv: "alloc_inv K dlist h s0 i fs"
    obtain fvar t where fs: "fs = (fvar, t)" by fastforce
    have card: "inj_on fvar {..<i} \<Longrightarrow> card (fvar ` {..<i}) = i" by (simp add: card_image)
    show "case link_list_alloc K i fs of Inl r \<Rightarrow> ?Q r | Inr fs' \<Rightarrow> alloc_inv K dlist h s0 (Suc i) fs'"
      using link_list_alloc_step [OF inv [unfolded fs]] i card unfolding fs s0
      by (auto split: sum.splits)
  qed
  show thesis
  proof (cases "c_for [0..<5] (link_list_alloc K) (\<lambda>_. 0, s0)")
    case (Inl r)
    then have "link_list_start K h temp s = Some r" by (simp add: link_list_start_def init)
    moreover have "?Q r" using loop Inl by simp
    ultimately show thesis using no_memory by (cases r) auto
  next
    case (Inr fs)
    obtain fvar t where fs: "fs = (fvar, t)" by fastforce
    have "link_list_start K h temp s = link_list_rest K h temp fvar t"
      using Inr fs by (simp add: link_list_start_def init)
    moreover have "alloc_inv K dlist h s0 5 (fvar, t)" using loop Inr fs by simp
    ultimately show thesis
      using link_list_rest_ok [OF _ h temp, of s0 fvar t] success s0 by (auto simp: valid_def)
  qed
qed

end

section \<open>Runs on the reference kernel\<close>

definition link_list_boot :: "nat \<Rightarrow> ref_kernel link_list" where
  "link_list_boot n = \<lparr>kern = ref_boot n, klog = [], faults = [], foo_a = (\<lambda>_. 0)\<rparr>"

lemma link_list_boot_simps [simp]:
  "klog (link_list_boot n) = []" "faults (link_list_boot n) = []" "allocated ref_ops (kern (link_list_boot n)) = {}"
  by (simp_all add: link_list_boot_def ref_eval)

lemma link_list_rest_code: "link_list_rest K h temp fvar s = Some (r, s') \<Longrightarrow> r = 0"
  by (auto simp: link_list_rest_def Let_def bind_eq_Some_conv)

lemma link_list_boot_alloc:
  "\<not> isl (c_for [0..<5] (link_list_alloc ref_ops) (\<lambda>_. 0, INIT_LIST_HEAD ref_ops 10 (link_list_boot 5)))"
  by (simp add: link_list_boot_def link_list_alloc_def ref_eval)

lemma link_list_boot_code: "link_list_start ref_ops 10 11 (link_list_boot 5) = Some (r, s') \<Longrightarrow> r = 0"
  using link_list_boot_alloc
  by (auto simp: link_list_start_def split: sum.splits dest: link_list_rest_code)

section \<open>Properties\<close>

text \<open>
  C20. Whatever the allocator does, \<open>start\<close> of the list module returns and commits no fault.
  Either it returns 0, has printed the five values in the reverse order of their insertion,
  then the same followed by 1400, then the four that remain after the two deletions, and every
  object it allocated is freed; or allocation number \<open>i\<close> fails, it logs that, returns -1, and
  the \<open>i\<close> objects allocated before stay allocated.
\<close>

theorem link_list_start_correct:
  assumes "list_api K dlist" and "mylist \<in> statics K" and "temp \<in> statics K" and "temp \<noteq> mylist"
  shows "\<exists>r s'. link_list_start K mylist temp s = Some (r, s') \<and> faults s' = faults s \<and>
    (r = 0 \<and> allocated K (kern s') = allocated K (kern s) \<and>
      klog s' = klog s @ data_lines [400, 300, 200, 100, 0] @ data_lines [400, 300, 200, 100, 0, 1400] @
        data_lines [400, 300, 200, 100]
     \<or> r = -1 \<and> (\<exists>i<5. klog s' = klog s @ [Line KERN_INFO ''Kmalloc Failed %d'' [Num (int i)]] \<and>
        (\<exists>V. V \<inter> allocated K (kern s) = {} \<and> card V = i \<and> allocated K (kern s') = allocated K (kern s) \<union> V)))"
  by (rule list_api.link_list_start_cases [OF assms, of s]) blast+

theorem link_list_start_correct_witness:
  "\<exists>s'. link_list_start ref_ops 10 11 (link_list_boot 5) = Some (0, s') \<and> faults s' = [] \<and>
     allocated ref_ops (kern s') = {} \<and>
     klog s' = data_lines [400, 300, 200, 100, 0] @ data_lines [400, 300, 200, 100, 0, 1400] @
       data_lines [400, 300, 200, 100]"
proof -
  have static: "(10::addr) \<in> statics ref_ops" "(11::addr) \<in> statics ref_ops" "(11::addr) \<noteq> 10" by simp_all
  obtain r s' where run: "link_list_start ref_ops 10 11 (link_list_boot 5) = Some (r, s')"
    and post: "faults s' = faults (link_list_boot 5)" "r \<noteq> -1 \<Longrightarrow> allocated ref_ops (kern s') = {} \<and>
      klog s' = data_lines [400, 300, 200, 100, 0] @ data_lines [400, 300, 200, 100, 0, 1400] @
        data_lines [400, 300, 200, 100]"
    using link_list_start_correct [OF ref_list.list_api_axioms static, of "link_list_boot 5"] by auto
  have "r = 0" by (rule link_list_boot_code [OF run])
  then show ?thesis using run post by simp
qed

text \<open>
  When \<open>start\<close> of the list module succeeds, the global head \<open>mylist\<close> still points at a
  node, and that node has been freed: the four nodes that were not unlinked before the
  \<open>kfree\<close> loop are left in the list.
\<close>

theorem link_list_start_dangling:
  assumes "list_api K dlist" and "mylist \<in> statics K" and "temp \<in> statics K" and "temp \<noteq> mylist"
    and "link_list_start K mylist temp s = Some (0, s')"
  shows "list_next_op K mylist (kern s') \<notin> valid K (kern s')"
  by (rule list_api.link_list_start_cases [OF assms(1-4), of s]) (use assms(5) in auto)

theorem link_list_start_dangling_witness:
  "\<exists>s'. link_list_start ref_ops 10 11 (link_list_boot 5) = Some (0, s') \<and>
     nxt (kern s') 10 \<notin> {1..ref_top} \<union> ref_allocated (kern s')"
proof -
  have static: "(10::addr) \<in> statics ref_ops" "(11::addr) \<in> statics ref_ops" "(11::addr) \<noteq> 10" by simp_all
  obtain s' where run: "link_list_start ref_ops 10 11 (link_list_boot 5) = Some (0, s')"
    by (rule list_api.link_list_start_cases [OF ref_list.list_api_axioms static, of "link_list_boot 5"])
       (blast, fastforce dest: link_list_boot_code)
  have "list_next_op ref_ops 10 (kern s') \<notin> valid ref_ops (kern s')"
    by (rule link_list_start_dangling [OF ref_list.list_api_axioms static run])
  then show ?thesis using run by (simp add: ref_ops_simps valid_def)
qed

end
