(* ===== verification/Memory.thy ===== *)
theory Memory
  imports Lkb_Prelude
begin

text \<open>
  The modules \<open>memory1/code.c\<close> and \<open>memory2/code.c\<close>: the allocation functions of the kernel, one
  after the other, each with its own way to give the memory back. The functions are the
  kernel's; what a module holds is a set of resources, each with the function that releases it.
\<close>

section \<open>The interface\<close>

datatype gfp = GFP_KERNEL | GFP_HIGHUSER

text \<open>
  A slab object, a block of \<open>2 ^ order\<close> pages (by its \<open>struct page\<close>), a \<open>vmalloc\<close> area, a
  temporary mapping of high memory.
\<close>

datatype resource = Obj addr | Pages addr nat | VmArea addr | Kmapped addr

record 'k mem_ops =
  alloc_pages_op :: "gfp \<Rightarrow> nat \<Rightarrow> 'k \<Rightarrow> addr \<times> 'k"
  free_pages_op :: "addr \<Rightarrow> nat \<Rightarrow> 'k \<Rightarrow> 'k"
  get_free_pages_op :: "gfp \<Rightarrow> nat \<Rightarrow> 'k \<Rightarrow> addr \<times> 'k"
  free_pages_va_op :: "addr \<Rightarrow> nat \<Rightarrow> 'k \<Rightarrow> 'k"
  page_address_op :: "addr \<Rightarrow> addr"
  virt_to_page_op :: "addr \<Rightarrow> addr"
  m_virt_to_phys_op :: "addr \<Rightarrow> addr"
  m_kzalloc_op :: "nat \<Rightarrow> 'k \<Rightarrow> addr \<times> 'k"
  m_kzfree_op :: "addr \<Rightarrow> 'k \<Rightarrow> 'k"
  m_kmalloc_op :: "nat \<Rightarrow> 'k \<Rightarrow> addr \<times> 'k"
  m_kfree_op :: "addr \<Rightarrow> 'k \<Rightarrow> 'k"
  vmalloc_op :: "nat \<Rightarrow> 'k \<Rightarrow> addr \<times> 'k"
  vfree_op :: "addr \<Rightarrow> 'k \<Rightarrow> 'k"
  kmap_op :: "addr \<Rightarrow> 'k \<Rightarrow> addr \<times> 'k"
  kunmap_op :: "addr \<Rightarrow> 'k \<Rightarrow> 'k"
  inuse :: "'k \<Rightarrow> resource set"

definition acquire_mem :: "('k \<Rightarrow> addr \<times> 'k) \<Rightarrow> ('k, 'z) env_scheme \<Rightarrow> addr \<times> ('k, 'z) env_scheme" where
  "acquire_mem f s = (let (p, k) = f (kern s) in (p, s\<lparr>kern := k\<rparr>))"

text \<open>Giving back what is not held is a fault.\<close>

definition release_mem ::
  "'k mem_ops \<Rightarrow> resource \<Rightarrow> addr \<Rightarrow> ('k \<Rightarrow> 'k) \<Rightarrow> ('k, 'z) env_scheme \<Rightarrow> ('k, 'z) env_scheme" where
  "release_mem K r p f s = (if r \<in> inuse K (kern s) then upd_kern f s else fault (BadFree p) s)"

section \<open>The module memory1\<close>

text \<open>The local variables whose values the round trip of addresses computes.\<close>

record 'k memory1 = "'k env" +
  v_page :: addr
  v_p1 :: addr
  v_p2 :: addr

definition memory1_single :: "'k mem_ops \<Rightarrow> 'k memory1 \<Rightarrow> (int \<times> 'k memory1) + 'k memory1" where
  "memory1_single K s =
     (let (p, s) = acquire_mem (alloc_pages_op K GFP_KERNEL 0) s
      in if p = NULL then Inl (-1, printk KERN_INFO ''alloc_page Alocation failed'' [] s)
         else let s = printk KERN_INFO ''alloc_page Alloation done'' [] s
              in Inr (release_mem K (Pages p 0) p (free_pages_op K p 0) s))"

definition memory1_pages :: "'k mem_ops \<Rightarrow> 'k memory1 \<Rightarrow> (int \<times> 'k memory1) + 'k memory1" where
  "memory1_pages K s =
     (let (p1, s) = acquire_mem (alloc_pages_op K GFP_KERNEL 3) s; s = s\<lparr>v_p1 := p1\<rparr>
      in if p1 = NULL then Inl (-1, printk KERN_INFO ''alloc_pages Alocation failed'' [] s)
         else
           let s = printk KERN_INFO ''alloc_pages Alloation done'' [] s;
               s = s\<lparr>v_page := page_address_op K p1\<rparr>;
               s = s\<lparr>v_p2 := virt_to_page_op K (v_page s)\<rparr>
           in Inr (release_mem K (Pages p1 3) p1 (free_pages_op K p1 3) s))"

definition memory1_virtual :: "'k mem_ops \<Rightarrow> 'k memory1 \<Rightarrow> (int \<times> 'k memory1) + 'k memory1" where
  "memory1_virtual K s =
     (let (va, s) = acquire_mem (get_free_pages_op K GFP_KERNEL 3) s
      in if va = NULL then Inl (-1, printk KERN_INFO ''__get_free_pages Alocation failed'' [] s)
         else
           let s = printk KERN_INFO ''__get_free_pages Alloation done'' [] s
           in Inr (release_mem K (Pages (virt_to_page_op K va) 3) va (free_pages_va_op K va 3) s))"

definition memory1_code_init :: "'k mem_ops \<Rightarrow> 'k memory1 \<Rightarrow> int \<times> 'k memory1" where
  "memory1_code_init K s =
     (case c_seq [memory1_single K, memory1_pages K, memory1_virtual K] s of Inl r \<Rightarrow> r | Inr s \<Rightarrow> (0, s))"

definition memory1_code_exit :: "'k memory1 \<Rightarrow> 'k memory1" where
  "memory1_code_exit s = printk KERN_INFO ''Goodbye, World!'' [] s"

section \<open>The module memory2\<close>

definition memory2_kzalloc :: "'k mem_ops \<Rightarrow> 'k env \<Rightarrow> (int \<times> 'k env) + 'k env" where
  "memory2_kzalloc K s =
     (let (ptr, s) = acquire_mem (m_kzalloc_op K (4 * 5)) s
      in if ptr = NULL then Inl (-1, printk KERN_DEFAULT ''kzalloc failed'' [] s)
         else Inr (release_mem K (Obj ptr) ptr (m_kzfree_op K ptr) s))"

definition memory2_kmalloc :: "'k mem_ops \<Rightarrow> 'k env \<Rightarrow> (int \<times> 'k env) + 'k env" where
  "memory2_kmalloc K s =
     (let (ptr, s) = acquire_mem (m_kmalloc_op K (4 * 5)) s
      in if ptr = NULL then Inl (-1, printk KERN_DEFAULT ''kmalloc failed'' [] s)
         else let phy = m_virt_to_phys_op K ptr in Inr (release_mem K (Obj ptr) ptr (m_kfree_op K ptr) s))"

definition memory2_vmalloc :: "'k mem_ops \<Rightarrow> 'k env \<Rightarrow> (int \<times> 'k env) + 'k env" where
  "memory2_vmalloc K s =
     (let (ptr, s) = acquire_mem (vmalloc_op K 40960) s
      in if ptr = NULL then Inl (-1, printk KERN_DEFAULT ''vmalloc failed'' [] s)
         else Inr (release_mem K (VmArea ptr) ptr (vfree_op K ptr) s))"

definition memory2_highmem :: "'k mem_ops \<Rightarrow> 'k env \<Rightarrow> (int \<times> 'k env) + 'k env" where
  "memory2_highmem K s =
     (let (p, s) = acquire_mem (alloc_pages_op K GFP_HIGHUSER 3) s
      in if p = NULL then Inl (-1, printk KERN_INFO ''alloc_pages Allocation failed'' [] s)
         else
           let s = printk KERN_INFO ''alloc_pages Allocation done'' [] s;
               (ptr, s) = acquire_mem (kmap_op K p) s;
               s = release_mem K (Kmapped p) p (kunmap_op K p) s
           in Inr (release_mem K (Pages p 3) p (free_pages_op K p 3) s))"

definition memory2_init :: "'k mem_ops \<Rightarrow> 'k env \<Rightarrow> int \<times> 'k env" where
  "memory2_init K s =
     (case c_seq [memory2_kzalloc K, memory2_kmalloc K, memory2_vmalloc K, memory2_highmem K] s of
        Inl r \<Rightarrow> r | Inr s \<Rightarrow> (0, s))"

definition memory2_exit :: "'k env \<Rightarrow> 'k env" where
  "memory2_exit s = printk KERN_INFO ''Goodbye, World!'' [] s"

lemmas memory_sections = memory1_single_def memory1_pages_def memory1_virtual_def memory2_kzalloc_def
  memory2_kmalloc_def memory2_vmalloc_def memory2_highmem_def

section \<open>What the allocators promise\<close>

text \<open>
  An allocation function returns \<open>NULL\<close> and changes nothing, or a resource that was not in
  use; the function that releases it takes exactly it back.
\<close>

definition allocates :: "'k mem_ops \<Rightarrow> ('k \<Rightarrow> addr \<times> 'k) \<Rightarrow> (addr \<Rightarrow> resource) \<Rightarrow> bool" where
  "allocates K f r \<longleftrightarrow> (\<forall>k. let (p, k') = f k in
     if p = NULL then inuse K k' = inuse K k else r p \<notin> inuse K k \<and> inuse K k' = insert (r p) (inuse K k))"

definition releases :: "'k mem_ops \<Rightarrow> ('k \<Rightarrow> 'k) \<Rightarrow> resource \<Rightarrow> bool" where
  "releases K f r \<longleftrightarrow> (\<forall>k. r \<in> inuse K k \<longrightarrow> inuse K (f k) = inuse K k - {r})"

text \<open>
  A section that acquires a resource, logs, and releases it: it ends the function with -1
  and its failure message, or goes on with its success message and the resources as before.
\<close>

definition section_ok ::
  "'k mem_ops \<Rightarrow> (('k, 'z) env_scheme \<Rightarrow> (int \<times> ('k, 'z) env_scheme) + ('k, 'z) env_scheme) \<Rightarrow>
   ('k, 'z) env_scheme \<Rightarrow> logline list \<Rightarrow> logline \<Rightarrow> bool" where
  "section_ok K f s good bad \<longleftrightarrow> (case f s of
     Inl (r, s') \<Rightarrow> r = -1 \<and> klog s' = klog s @ [bad] \<and> faults s' = faults s \<and> inuse K (kern s') = inuse K (kern s)
   | Inr s' \<Rightarrow> klog s' = klog s @ good \<and> faults s' = faults s \<and> inuse K (kern s') = inuse K (kern s))"

text \<open>Sections in sequence: the first that fails ends the function.\<close>

lemma c_seq_sections:
  assumes "\<forall>(f, good, bad)\<in>set secs. \<forall>s. section_ok K f s good bad"
  shows "case c_seq (map fst secs) s of
      Inl (r, s') \<Rightarrow> r = -1 \<and> faults s' = faults s \<and> inuse K (kern s') = inuse K (kern s) \<and>
        (\<exists>j<length secs. klog s' = klog s @ concat (take j (map (fst \<circ> snd) secs)) @ [snd (snd (secs ! j))])
    | Inr s' \<Rightarrow> klog s' = klog s @ concat (map (fst \<circ> snd) secs) \<and> faults s' = faults s \<and>
        inuse K (kern s') = inuse K (kern s)"
  using assms
proof (induction secs arbitrary: s)
  case Nil
  then show ?case by simp
next
  case (Cons sec secs)
  obtain f good bad where sec: "sec = (f, good, bad)" by (cases sec)
  have ok: "section_ok K f s good bad" using Cons.prems sec by simp
  show ?case
  proof (cases "f s")
    case (Inl r)
    then show ?thesis using ok sec by (cases r) (auto simp: section_ok_def intro!: exI [of _ 0])
  next
    case (Inr t)
    then have t: "klog t = klog s @ good" "faults t = faults s" "inuse K (kern t) = inuse K (kern s)"
      using ok by (simp_all add: section_ok_def)
    have IH: "case c_seq (map fst secs) t of
        Inl (r, s') \<Rightarrow> r = -1 \<and> faults s' = faults t \<and> inuse K (kern s') = inuse K (kern t) \<and>
          (\<exists>j<length secs. klog s' = klog t @ concat (take j (map (fst \<circ> snd) secs)) @ [snd (snd (secs ! j))])
      | Inr s' \<Rightarrow> klog s' = klog t @ concat (map (fst \<circ> snd) secs) \<and> faults s' = faults t \<and>
          inuse K (kern s') = inuse K (kern t)"
      using Cons.IH [of t] Cons.prems by simp
    show ?thesis
    proof (cases "c_seq (map fst secs) t")
      case (Inl r)
      obtain c s' where r: "r = (c, s')" by fastforce
      then obtain j where "j < length secs"
        "klog s' = klog t @ concat (take j (map (fst \<circ> snd) secs)) @ [snd (snd (secs ! j))]"
        using IH Inl by auto
      then show ?thesis using IH Inl \<open>f s = Inr t\<close> sec t r by (auto intro!: exI [of _ "Suc j"])
    next
      case (Inr s')
      then show ?thesis using IH \<open>f s = Inr t\<close> sec t by simp
    qed
  qed
qed

lemma c_seq_balanced:
  assumes "\<forall>(f, good, bad)\<in>set (zip fs (zip gs bs)). \<forall>s. section_ok K f s good bad"
    and "length gs = length fs" and "length bs = length fs"
  shows "case c_seq fs s of
      Inl (r, s') \<Rightarrow> r = -1 \<and> faults s' = faults s \<and> inuse K (kern s') = inuse K (kern s) \<and>
        (\<exists>j<length fs. klog s' = klog s @ concat (take j gs) @ [bs ! j])
    | Inr s' \<Rightarrow> klog s' = klog s @ concat gs \<and> faults s' = faults s \<and> inuse K (kern s') = inuse K (kern s)"
proof -
  have gs: "map (fst \<circ> snd) (zip fs (zip gs bs)) = gs"
    using assms(2,3) by (simp flip: map_map)
  have bs: "j < length fs \<Longrightarrow> snd (snd (zip fs (zip gs bs) ! j)) = bs ! j" for j
    using assms(2,3) by simp
  have "map fst (zip fs (zip gs bs)) = fs" "length (zip fs (zip gs bs)) = length fs" using assms(2,3) by simp_all
  then show ?thesis
    using c_seq_sections [OF assms(1), of s] gs bs by (fastforce split: sum.splits)
qed

locale mem_api =
  fixes K :: "'k mem_ops"
  assumes alloc_pages: "allocates K (alloc_pages_op K g n) (\<lambda>p. Pages p n)"
    and free_pages: "releases K (free_pages_op K p n) (Pages p n)"
    and get_free_pages: "allocates K (get_free_pages_op K GFP_KERNEL n) (\<lambda>va. Pages (virt_to_page_op K va) n)"
    and free_pages_va: "releases K (free_pages_va_op K va n) (Pages (virt_to_page_op K va) n)"
    and page_round: "fst (alloc_pages_op K GFP_KERNEL n k) \<noteq> NULL \<Longrightarrow>
      virt_to_page_op K (page_address_op K (fst (alloc_pages_op K GFP_KERNEL n k))) = fst (alloc_pages_op K GFP_KERNEL n k)"
    and kzalloc: "allocates K (m_kzalloc_op K n) Obj" and kzfree: "releases K (m_kzfree_op K p) (Obj p)"
    and kmalloc: "allocates K (m_kmalloc_op K n) Obj" and kfree: "releases K (m_kfree_op K p) (Obj p)"
    and vmalloc: "allocates K (vmalloc_op K n) VmArea" and vfree: "releases K (vfree_op K p) (VmArea p)"
    and kmap: "inuse K (snd (kmap_op K p k)) = insert (Kmapped p) (inuse K k)"
    and kunmap: "releases K (kunmap_op K p) (Kmapped p)"
    and page_unmapped: "fst (alloc_pages_op K g n k) \<noteq> NULL \<Longrightarrow> Kmapped (fst (alloc_pages_op K g n k)) \<notin> inuse K k"
begin

text \<open>Acquiring and releasing at once leaves the resources as they were.\<close>

lemma acquire_cases:
  assumes "allocates K f r" and "acquire_mem f s = (p, s')"
  obtains k where "p = NULL" "s' = s\<lparr>kern := k\<rparr>" "inuse K k = inuse K (kern s)"
  | k where "p \<noteq> NULL" "s' = s\<lparr>kern := k\<rparr>" "r p \<notin> inuse K (kern s)" "inuse K k = insert (r p) (inuse K (kern s))"
proof -
  obtain k where f: "f (kern s) = (p, k)" and s': "s' = s\<lparr>kern := k\<rparr>"
    using assms(2) by (auto simp: acquire_mem_def split: prod.splits)
  have law: "if p = NULL then inuse K k = inuse K (kern s)
      else r p \<notin> inuse K (kern s) \<and> inuse K k = insert (r p) (inuse K (kern s))"
    using assms(1) f unfolding allocates_def by (metis (mono_tags, lifting) case_prod_conv)
  show thesis
  proof (cases "p = NULL")
    case True
    then show thesis using law s' that(1) by simp
  next
    case False
    then have "r p \<notin> inuse K (kern s) \<and> inuse K k = insert (r p) (inuse K (kern s))" using law by simp
    then show thesis using False s' that(2) by blast
  qed
qed

lemma release_held:
  assumes "releases K f r" and "r \<in> inuse K (kern s)"
  shows "release_mem K r p f s = upd_kern f s"
  using assms by (simp add: release_mem_def)

lemma release_inuse: "releases K f r \<Longrightarrow> r \<in> inuse K k \<Longrightarrow> inuse K (f k) = inuse K k - {r}"
  by (simp add: releases_def)

lemmas release_facts = release_held [OF free_pages] release_inuse [OF free_pages]
  release_held [OF free_pages_va] release_inuse [OF free_pages_va] release_held [OF kzfree] release_inuse [OF kzfree]
  release_held [OF kfree] release_inuse [OF kfree] release_held [OF vfree] release_inuse [OF vfree]
  release_held [OF kunmap] release_inuse [OF kunmap]

lemma section_single:
  "section_ok K (memory1_single K) s [Line KERN_INFO ''alloc_page Alloation done'' []]
     (Line KERN_INFO ''alloc_page Alocation failed'' [])"
proof -
  obtain p t where a: "acquire_mem (alloc_pages_op K GFP_KERNEL 0) s = (p, t)" by fastforce
  from alloc_pages a show ?thesis
    by (cases rule: acquire_cases) (use a in \<open>simp_all add: section_ok_def memory1_single_def release_facts\<close>)
qed

lemma section_pages:
  "section_ok K (memory1_pages K) s [Line KERN_INFO ''alloc_pages Alloation done'' []]
     (Line KERN_INFO ''alloc_pages Alocation failed'' [])"
  "memory1_pages K s = Inr s' \<Longrightarrow> v_p2 s' = v_p1 s' \<and> v_p1 s' \<noteq> NULL"
proof -
  obtain p t where a: "acquire_mem (alloc_pages_op K GFP_KERNEL 3) s = (p, t)" by fastforce
  then have p: "p = fst (alloc_pages_op K GFP_KERNEL 3 (kern s))"
    by (auto simp: acquire_mem_def split: prod.splits)
  from alloc_pages a show "section_ok K (memory1_pages K) s [Line KERN_INFO ''alloc_pages Alloation done'' []]
     (Line KERN_INFO ''alloc_pages Alocation failed'' [])"
    by (cases rule: acquire_cases) (use a in \<open>simp_all add: section_ok_def memory1_pages_def release_facts\<close>)
  show "memory1_pages K s = Inr s' \<Longrightarrow> v_p2 s' = v_p1 s' \<and> v_p1 s' \<noteq> NULL"
    using page_round [of 3 "kern s"] a
    by (auto simp: memory1_pages_def release_mem_def env_defs p [symmetric] Let_def split: if_splits)
qed

lemma section_virtual:
  "section_ok K (memory1_virtual K) s [Line KERN_INFO ''__get_free_pages Alloation done'' []]
     (Line KERN_INFO ''__get_free_pages Alocation failed'' [])"
proof -
  obtain p t where a: "acquire_mem (get_free_pages_op K GFP_KERNEL 3) s = (p, t)" by fastforce
  from get_free_pages a show ?thesis
    by (cases rule: acquire_cases) (use a in \<open>simp_all add: section_ok_def memory1_virtual_def release_facts\<close>)
qed

lemma section_kzalloc: "section_ok K (memory2_kzalloc K) s [] (Line KERN_DEFAULT ''kzalloc failed'' [])"
proof -
  obtain p t where a: "acquire_mem (m_kzalloc_op K (4 * 5)) s = (p, t)" by fastforce
  from kzalloc a show ?thesis
    by (cases rule: acquire_cases) (use a in \<open>simp_all add: section_ok_def memory2_kzalloc_def release_facts\<close>)
qed

lemma section_kmalloc: "section_ok K (memory2_kmalloc K) s [] (Line KERN_DEFAULT ''kmalloc failed'' [])"
proof -
  obtain p t where a: "acquire_mem (m_kmalloc_op K (4 * 5)) s = (p, t)" by fastforce
  from kmalloc a show ?thesis
    by (cases rule: acquire_cases) (use a in \<open>simp_all add: section_ok_def memory2_kmalloc_def release_facts\<close>)
qed

lemma section_vmalloc: "section_ok K (memory2_vmalloc K) s [] (Line KERN_DEFAULT ''vmalloc failed'' [])"
proof -
  obtain p t where a: "acquire_mem (vmalloc_op K 40960) s = (p, t)" by fastforce
  from vmalloc a show ?thesis
    by (cases rule: acquire_cases) (use a in \<open>simp_all add: section_ok_def memory2_vmalloc_def release_facts\<close>)
qed

lemma section_highmem:
  "section_ok K (memory2_highmem K) s [Line KERN_INFO ''alloc_pages Allocation done'' []]
     (Line KERN_INFO ''alloc_pages Allocation failed'' [])"
proof -
  obtain p t where a: "acquire_mem (alloc_pages_op K GFP_HIGHUSER 3) s = (p, t)" by fastforce
  have um: "p \<noteq> NULL \<Longrightarrow> Kmapped p \<notin> inuse K (kern s)"
    using page_unmapped [of GFP_HIGHUSER 3 "kern s"] a by (auto simp: acquire_mem_def split: prod.splits)
  obtain q t' where m: "acquire_mem (kmap_op K p) (printk KERN_INFO ''alloc_pages Allocation done'' [] t) = (q, t')"
    by fastforce
  then have t': "t' = (printk KERN_INFO ''alloc_pages Allocation done'' [] t)\<lparr>kern := snd (kmap_op K p (kern t))\<rparr>"
    by (auto simp: acquire_mem_def split: prod.splits)
  from alloc_pages a show ?thesis
    by (cases rule: acquire_cases)
      (use a m um in \<open>simp_all add: section_ok_def memory2_highmem_def release_facts t' kmap insert_Diff_if\<close>)
qed

end

section \<open>A reference allocator\<close>

text \<open>One list of resources in use and a budget; page \<open>p\<close> is mapped at address \<open>4096 * p\<close>.\<close>

record ref_mem =
  rm_used :: "resource list"
  rm_budget :: nat

fun res_addr :: "resource \<Rightarrow> addr" where
  "res_addr (Obj p) = p"
| "res_addr (Pages p n) = p"
| "res_addr (VmArea p) = p"
| "res_addr (Kmapped p) = p"

definition rm_fresh :: "ref_mem \<Rightarrow> addr" where
  "rm_fresh k = Suc (fold max (map res_addr (rm_used k)) 0)"

definition rm_alloc :: "(addr \<Rightarrow> resource) \<Rightarrow> ref_mem \<Rightarrow> addr \<times> ref_mem" where
  "rm_alloc r k =
     (if rm_budget k = 0 then (NULL, k)
      else (rm_fresh k, k\<lparr>rm_used := r (rm_fresh k) # rm_used k, rm_budget := rm_budget k - 1\<rparr>))"

definition rm_free :: "resource \<Rightarrow> ref_mem \<Rightarrow> ref_mem" where
  "rm_free r k = k\<lparr>rm_used := removeAll r (rm_used k)\<rparr>"

definition ref_mem_ops :: "ref_mem mem_ops" where
  "ref_mem_ops = \<lparr>
     alloc_pages_op = (\<lambda>g n. rm_alloc (\<lambda>p. Pages p n)), free_pages_op = (\<lambda>p n. rm_free (Pages p n)),
     get_free_pages_op = (\<lambda>g n k. let (p, k) = rm_alloc (\<lambda>p. Pages p n) k in (4096 * p, k)),
     free_pages_va_op = (\<lambda>va n. rm_free (Pages (va div 4096) n)),
     page_address_op = (\<lambda>p. 4096 * p), virt_to_page_op = (\<lambda>va. va div 4096), m_virt_to_phys_op = (\<lambda>va. va),
     m_kzalloc_op = (\<lambda>n. rm_alloc Obj), m_kzfree_op = (\<lambda>p. rm_free (Obj p)),
     m_kmalloc_op = (\<lambda>n. rm_alloc Obj), m_kfree_op = (\<lambda>p. rm_free (Obj p)),
     vmalloc_op = (\<lambda>n. rm_alloc VmArea), vfree_op = (\<lambda>p. rm_free (VmArea p)),
     kmap_op = (\<lambda>p k. (4096 * p, k\<lparr>rm_used := Kmapped p # rm_used k\<rparr>)), kunmap_op = (\<lambda>p. rm_free (Kmapped p)),
     inuse = (\<lambda>k. set (rm_used k))\<rparr>"

lemma ref_mem_simps:
  "alloc_pages_op ref_mem_ops g n = rm_alloc (\<lambda>p. Pages p n)" "free_pages_op ref_mem_ops p n = rm_free (Pages p n)"
  "get_free_pages_op ref_mem_ops g n k = (let (p, k) = rm_alloc (\<lambda>p. Pages p n) k in (4096 * p, k))"
  "free_pages_va_op ref_mem_ops va n = rm_free (Pages (va div 4096) n)"
  "page_address_op ref_mem_ops p = 4096 * p" "virt_to_page_op ref_mem_ops va = va div 4096"
  "m_kzalloc_op ref_mem_ops n = rm_alloc Obj" "m_kzfree_op ref_mem_ops p = rm_free (Obj p)"
  "m_kmalloc_op ref_mem_ops n = rm_alloc Obj" "m_kfree_op ref_mem_ops p = rm_free (Obj p)"
  "vmalloc_op ref_mem_ops n = rm_alloc VmArea" "vfree_op ref_mem_ops p = rm_free (VmArea p)"
  "kmap_op ref_mem_ops p k = (4096 * p, k\<lparr>rm_used := Kmapped p # rm_used k\<rparr>)"
  "kunmap_op ref_mem_ops p = rm_free (Kmapped p)" "inuse ref_mem_ops k = set (rm_used k)"
  by (simp_all add: ref_mem_ops_def)

lemma rm_fresh_new: "res_addr r = rm_fresh k \<Longrightarrow> r \<notin> set (rm_used k)"
  using fold_max_ge [of "rm_fresh k" "map res_addr (rm_used k)" 0] by (force simp: rm_fresh_def)

lemma rm_alloc_ok: "(\<And>p. res_addr (r p) = p) \<Longrightarrow> allocates ref_mem_ops (rm_alloc r) r"
  using rm_fresh_new by (auto simp: allocates_def rm_alloc_def ref_mem_simps rm_fresh_def)

lemma rm_free_ok: "releases ref_mem_ops (rm_free r) r"
  by (auto simp: releases_def rm_free_def ref_mem_simps)

interpretation ref_mm: mem_api ref_mem_ops
proof
  show "allocates ref_mem_ops (get_free_pages_op ref_mem_ops GFP_KERNEL n)
      (\<lambda>va. Pages (virt_to_page_op ref_mem_ops va) n)" for n
    using rm_fresh_new by (auto simp: allocates_def ref_mem_simps rm_alloc_def rm_fresh_def)
  show "fst (alloc_pages_op ref_mem_ops g n k) \<noteq> NULL \<Longrightarrow>
      Kmapped (fst (alloc_pages_op ref_mem_ops g n k)) \<notin> inuse ref_mem_ops k" for g n k
    using rm_fresh_new [of "Kmapped (rm_fresh k)" k] by (auto simp: ref_mem_simps rm_alloc_def split: if_splits)
qed (use rm_alloc_ok rm_free_ok in \<open>simp_all add: ref_mem_simps\<close>)

definition memory1_boot :: "nat \<Rightarrow> ref_mem memory1" where
  "memory1_boot n = \<lparr>kern = \<lparr>rm_used = [], rm_budget = n\<rparr>, klog = [], faults = [], v_page = 0, v_p1 = 0, v_p2 = 0\<rparr>"

definition memory2_boot :: "nat \<Rightarrow> ref_mem env" where
  "memory2_boot n = \<lparr>kern = \<lparr>rm_used = [], rm_budget = n\<rparr>, klog = [], faults = []\<rparr>"

section \<open>Properties\<close>

lemma memory1_virtual_vars: "memory1_virtual K s = Inr s' \<Longrightarrow> v_p1 s' = v_p1 s \<and> v_p2 s' = v_p2 s"
  by (auto simp: memory1_virtual_def acquire_mem_def release_mem_def env_defs Let_def split: prod.splits if_splits)

lemma concat_map_singleton: "concat (map (\<lambda>l. [l]) xs) = xs"
  by (induction xs) auto

text \<open>The messages of the sections, in the order of the code.\<close>

definition memory1_done :: "logline list" where
  "memory1_done = [Line KERN_INFO ''alloc_page Alloation done'' [], Line KERN_INFO ''alloc_pages Alloation done'' [],
     Line KERN_INFO ''__get_free_pages Alloation done'' []]"

definition memory1_failed :: "logline list" where
  "memory1_failed = [Line KERN_INFO ''alloc_page Alocation failed'' [], Line KERN_INFO ''alloc_pages Alocation failed'' [],
     Line KERN_INFO ''__get_free_pages Alocation failed'' []]"

definition memory2_failed :: "logline list" where
  "memory2_failed = [Line KERN_DEFAULT ''kzalloc failed'' [], Line KERN_DEFAULT ''kmalloc failed'' [],
     Line KERN_DEFAULT ''vmalloc failed'' [], Line KERN_INFO ''alloc_pages Allocation failed'' []]"

text \<open>
  C30. Every path through \<open>code_init\<close> of the first memory module is balanced: whether it succeeds or
  any of its three allocations fails, no release is of memory that is not held, with the order
  it was allocated with, and the resources in use at the end are those at the beginning. On
  success it returns 0, has logged the three successes, and the page found back from the virtual
  address is the page allocated; the failure of allocation \<open>j\<close> is logged and returned as -1.
\<close>

theorem memory1_init_balanced:
  assumes "mem_api K"
  shows "\<exists>r s'. memory1_code_init K s = (r, s') \<and> faults s' = faults s \<and> inuse K (kern s') = inuse K (kern s) \<and>
    (r = 0 \<and> v_p2 s' = v_p1 s' \<and> klog s' = klog s @ memory1_done
     \<or> r = -1 \<and> (\<exists>j<3. klog s' = klog s @ take j memory1_done @ [memory1_failed ! j]))"
proof -
  let ?fs = "[memory1_single K, memory1_pages K, memory1_virtual K]" and ?gs = "map (\<lambda>l. [l]) memory1_done"
  have "\<forall>(f, good, bad)\<in>set (zip ?fs (zip ?gs memory1_failed)). \<forall>s. section_ok K f s good bad"
    using mem_api.section_single [OF assms] mem_api.section_pages(1) [OF assms] mem_api.section_virtual [OF assms]
    by (simp add: memory1_done_def memory1_failed_def)
  then have run: "case c_seq ?fs s of
      Inl (r, s') \<Rightarrow> r = -1 \<and> faults s' = faults s \<and> inuse K (kern s') = inuse K (kern s) \<and>
        (\<exists>j<length ?fs. klog s' = klog s @ concat (take j ?gs) @ [memory1_failed ! j])
    | Inr s' \<Rightarrow> klog s' = klog s @ concat ?gs \<and> faults s' = faults s \<and> inuse K (kern s') = inuse K (kern s)"
    by (rule c_seq_balanced) (simp_all add: memory1_done_def memory1_failed_def)
  show ?thesis
  proof (cases "c_seq ?fs s")
    case (Inl r)
    then show ?thesis
      using run by (cases r) (auto simp: memory1_code_init_def take_map concat_map_singleton numeral_3_eq_3)
  next
    case (Inr s')
    then obtain t u where "memory1_pages K t = Inr u" "memory1_virtual K u = Inr s'"
      by (auto split: sum.splits)
    then have "v_p2 s' = v_p1 s'"
      using mem_api.section_pages(2) [OF assms] memory1_virtual_vars by metis
    then show ?thesis using run Inr by (simp add: memory1_code_init_def concat_map_singleton)
  qed
qed

theorem memory1_init_balanced_witness:
  "\<exists>s'. memory1_code_init ref_mem_ops (memory1_boot 1) = (-1, s') \<and> faults s' = [] \<and> rm_used (kern s') = []"
proof -
  have "fst (memory1_code_init ref_mem_ops (memory1_boot 1)) = -1"
    by (simp add: memory1_code_init_def memory1_boot_def memory1_single_def memory1_pages_def acquire_mem_def
        release_mem_def ref_mem_simps rm_alloc_def rm_free_def rm_fresh_def env_defs)
  then show ?thesis
    using memory1_init_balanced [OF ref_mm.mem_api_axioms, of "memory1_boot 1"]
    by (auto simp: ref_mem_simps memory1_boot_def)
qed

text \<open>
  C31. Every path through \<open>memory_init\<close> of the second memory module is balanced as well, over four
  kinds of memory, the last one mapped and unmapped before it is freed. It returns 0 having logged
  only the allocation of the pages, or -1 after the message of the allocation that failed.
\<close>

theorem memory2_init_balanced:
  assumes "mem_api K"
  shows "\<exists>r s'. memory2_init K s = (r, s') \<and> faults s' = faults s \<and> inuse K (kern s') = inuse K (kern s) \<and>
    (r = 0 \<and> klog s' = klog s @ [Line KERN_INFO ''alloc_pages Allocation done'' []]
     \<or> r = -1 \<and> (\<exists>j<4. klog s' = klog s @ [memory2_failed ! j]))"
proof -
  let ?fs = "[memory2_kzalloc K, memory2_kmalloc K, memory2_vmalloc K, memory2_highmem K]"
  let ?gs = "[[], [], [], [Line KERN_INFO ''alloc_pages Allocation done'' []]]"
  have "\<forall>(f, good, bad)\<in>set (zip ?fs (zip ?gs memory2_failed)). \<forall>s. section_ok K f s good bad"
    using mem_api.section_kzalloc [OF assms] mem_api.section_kmalloc [OF assms] mem_api.section_vmalloc [OF assms]
      mem_api.section_highmem [OF assms]
    by (simp add: memory2_failed_def)
  then have run: "case c_seq ?fs s of
      Inl (r, s') \<Rightarrow> r = -1 \<and> faults s' = faults s \<and> inuse K (kern s') = inuse K (kern s) \<and>
        (\<exists>j<length ?fs. klog s' = klog s @ concat (take j ?gs) @ [memory2_failed ! j])
    | Inr s' \<Rightarrow> klog s' = klog s @ concat ?gs \<and> faults s' = faults s \<and> inuse K (kern s') = inuse K (kern s)"
    by (rule c_seq_balanced) (simp_all add: memory2_failed_def)
  have none: "concat (take j ?gs) = []" if "j < 4" for j
    using that by (auto simp: less_Suc_eq numeral_eq_Suc)
  show ?thesis
  proof (cases "c_seq ?fs s")
    case (Inl r)
    obtain c s' where r: "r = (c, s')" by fastforce
    have fail: "c = -1" "faults s' = faults s" "inuse K (kern s') = inuse K (kern s)"
      "\<exists>j<4. klog s' = klog s @ concat (take j ?gs) @ [memory2_failed ! j]"
      using run unfolding Inl r by (simp_all add: numeral_eq_Suc)
    then have "\<exists>j<4. klog s' = klog s @ [memory2_failed ! j]"
      using none by (metis append_Nil)
    then show ?thesis using fail Inl r by (simp add: memory2_init_def del: c_seq.simps)
  next
    case (Inr s')
    then show ?thesis using run by (simp add: memory2_init_def del: c_seq.simps)
  qed
qed

theorem memory2_init_balanced_witness:
  "\<exists>s'. memory2_init ref_mem_ops (memory2_boot 3) = (-1, s') \<and> faults s' = [] \<and> rm_used (kern s') = []"
proof -
  have "fst (memory2_init ref_mem_ops (memory2_boot 3)) = -1"
    by (simp add: memory2_init_def memory2_boot_def memory2_kzalloc_def memory2_kmalloc_def memory2_vmalloc_def
        memory2_highmem_def acquire_mem_def release_mem_def ref_mem_simps rm_alloc_def rm_free_def rm_fresh_def env_defs)
  then show ?thesis
    using memory2_init_balanced [OF ref_mm.mem_api_axioms, of "memory2_boot 3"]
    by (auto simp: ref_mem_simps memory2_boot_def)
qed

end
