(* ===== verification/Mutex1.thy ===== *)
theory Mutex1
  imports Lkb_Prelude
begin

text \<open>
  The module \<open>mutex1/code.c\<close>: one mutex on the stack of \<open>start\<close>, taken, tested, tried, released
  and taken again with the two lock calls that a signal can interrupt. The mutex calls are the
  kernel's: an operation record and a locale with what they document.
\<close>

section \<open>The mutex interface\<close>

text \<open>\<open>owned\<close> observes the mutexes the running task holds.\<close>

record 'k mutex_ops =
  mutex_init_op :: "addr \<Rightarrow> 'k \<Rightarrow> 'k"
  mutex_lock_op :: "addr \<Rightarrow> 'k \<Rightarrow> 'k"
  mutex_unlock_op :: "addr \<Rightarrow> 'k \<Rightarrow> 'k"
  mutex_is_locked_op :: "addr \<Rightarrow> 'k \<Rightarrow> int"
  mutex_trylock_op :: "addr \<Rightarrow> 'k \<Rightarrow> int \<times> 'k"
  mutex_lock_interruptible_op :: "addr \<Rightarrow> 'k \<Rightarrow> int \<times> 'k"
  mutex_lock_killable_op :: "addr \<Rightarrow> 'k \<Rightarrow> int \<times> 'k"
  owned :: "'k \<Rightarrow> addr set"

text \<open>
  A task that waits for a mutex it holds waits for ever; a release of a mutex that is not held
  is not permitted. Both are faults.
\<close>

definition mutex_lock :: "('k, 'y) mutex_ops_scheme \<Rightarrow> addr \<Rightarrow> ('k, 'z) env_scheme \<Rightarrow> ('k, 'z) env_scheme" where
  "mutex_lock M m s =
     (if m \<in> owned M (kern s) then fault (SelfDeadlock m) s else upd_kern (mutex_lock_op M m) s)"

definition mutex_unlock :: "('k, 'y) mutex_ops_scheme \<Rightarrow> addr \<Rightarrow> ('k, 'z) env_scheme \<Rightarrow> ('k, 'z) env_scheme" where
  "mutex_unlock M m s =
     (if m \<in> owned M (kern s) then upd_kern (mutex_unlock_op M m) s else fault (BadUnlock m) s)"

definition mutex_call ::
  "(addr \<Rightarrow> 'k \<Rightarrow> int \<times> 'k) \<Rightarrow> addr \<Rightarrow> ('k, 'z) env_scheme \<Rightarrow> int \<times> ('k, 'z) env_scheme" where
  "mutex_call f m s = (let (i, k) = f m (kern s) in (i, s\<lparr>kern := k\<rparr>))"

definition mutex_lock_wait ::
  "('k, 'y) mutex_ops_scheme \<Rightarrow> (addr \<Rightarrow> 'k \<Rightarrow> int \<times> 'k) \<Rightarrow> addr \<Rightarrow> ('k, 'z) env_scheme \<Rightarrow>
   int \<times> ('k, 'z) env_scheme" where
  "mutex_lock_wait M f m s =
     (if m \<in> owned M (kern s) then mutex_call f m (fault (SelfDeadlock m) s) else mutex_call f m s)"

section \<open>The module\<close>

text \<open>The three sections of \<open>start\<close>: the plain lock, the interruptible one and the killable one.\<close>

definition mutex1_plain :: "('k, 'y) mutex_ops_scheme \<Rightarrow> addr \<Rightarrow> 'k env \<Rightarrow> 'k env" where
  "mutex1_plain M m s =
     (let s = printk KERN_INFO ''Start...!'' [] s;
          s = upd_kern (mutex_init_op M m) s;
          s = mutex_lock M m s;
          i = mutex_is_locked_op M m (kern s);
          s = (if i = 1 then printk KERN_INFO ''Mutex is locked'' [] s
               else printk KERN_INFO ''Mutex is NOT locked'' [] s);
          (i, s) = mutex_call (mutex_trylock_op M) m s;
          s = (if i = 1 then printk KERN_INFO ''mutex_trylock - Mutex was free taken lock'' [] s
               else printk KERN_INFO ''mutex_trylock - Mutex already locked, return zero'' [] s)
      in mutex_unlock M m s)"

definition mutex1_interruptible :: "('k, 'y) mutex_ops_scheme \<Rightarrow> addr \<Rightarrow> 'k env \<Rightarrow> 'k env" where
  "mutex1_interruptible M m s =
     (let (i, s) = mutex_lock_wait M (mutex_lock_interruptible_op M) m s;
          s = (if i = 0 then printk KERN_INFO ''mutex_lock_interruptible - Lock taken.'' [] s
               else printk KERN_INFO ''mutex_lock_interruptible - Interruptible by signal'' [] s)
      in mutex_unlock M m s)"

definition mutex1_killable :: "('k, 'y) mutex_ops_scheme \<Rightarrow> addr \<Rightarrow> 'k env \<Rightarrow> 'k env" where
  "mutex1_killable M m s =
     (let (i, s) = mutex_lock_wait M (mutex_lock_killable_op M) m s;
          s = (if i = 0 then printk KERN_INFO ''mutex_lock_killable - Lock taken.'' [] s
               else printk KERN_INFO ''mutex_lock_killable - Interrupted by kill signal'' [] s)
      in mutex_unlock M m s)"

definition mutex1_start :: "('k, 'y) mutex_ops_scheme \<Rightarrow> addr \<Rightarrow> 'k env \<Rightarrow> int \<times> 'k env" where
  "mutex1_start M m s =
     (let s = mutex1_plain M m s;
          s = mutex1_interruptible M m s;
          s = mutex1_killable M m s
      in (0, s))"

definition mutex1_stops :: "'k env \<Rightarrow> 'k env" where
  "mutex1_stops s = printk KERN_INFO ''Goodbye!'' [] s"

text \<open>What a section logs, as a function of whether a signal interrupted its lock call.\<close>

definition interruptible_lines :: "bool \<Rightarrow> logline list" where
  "interruptible_lines sig =
     [Line KERN_INFO (if sig then ''mutex_lock_interruptible - Interruptible by signal''
                      else ''mutex_lock_interruptible - Lock taken.'') []]"

definition killable_lines :: "bool \<Rightarrow> logline list" where
  "killable_lines sig =
     [Line KERN_INFO (if sig then ''mutex_lock_killable - Interrupted by kill signal''
                      else ''mutex_lock_killable - Lock taken.'') []]"

definition plain_lines :: "logline list" where
  "plain_lines = [Line KERN_INFO ''Start...!'' [], Line KERN_INFO ''Mutex is locked'' [],
     Line KERN_INFO ''mutex_trylock - Mutex already locked, return zero'' []]"

lemmas mutex_section_defs = mutex_lock_wait_def mutex_call_def mutex_lock_def mutex_unlock_def

section \<open>What the mutex promises\<close>

locale mutex_api =
  fixes M :: "('k, 'y) mutex_ops_scheme"
  assumes owned_init: "owned M (mutex_init_op M m k) = owned M k - {m}"
    and owned_lock: "m \<notin> owned M k \<Longrightarrow> owned M (mutex_lock_op M m k) = insert m (owned M k)"
    and owned_unlock: "m \<in> owned M k \<Longrightarrow> owned M (mutex_unlock_op M m k) = owned M k - {m}"
    and is_locked_owned: "m \<in> owned M k \<Longrightarrow> mutex_is_locked_op M m k = 1"
    and trylock_owned: "m \<in> owned M k \<Longrightarrow> mutex_trylock_op M m k = (i, k') \<Longrightarrow> i = 0 \<and> owned M k' = owned M k"
    and interruptible: "m \<notin> owned M k \<Longrightarrow> mutex_lock_interruptible_op M m k = (i, k') \<Longrightarrow>
      i = 0 \<and> owned M k' = insert m (owned M k) \<or> i = - EINTR \<and> owned M k' = owned M k"
    and killable: "m \<notin> owned M k \<Longrightarrow> mutex_lock_killable_op M m k = (i, k') \<Longrightarrow>
      i = 0 \<and> owned M k' = insert m (owned M k) \<or> i = - EINTR \<and> owned M k' = owned M k"
begin

lemma mutex1_plain_ok:
  "klog (mutex1_plain M m s) = klog s @ plain_lines"
  "faults (mutex1_plain M m s) = faults s"
  "owned M (kern (mutex1_plain M m s)) = owned M (kern s) - {m}"
  using trylock_owned [of m "mutex_lock_op M m (mutex_init_op M m (kern s))"]
  by (auto simp: mutex1_plain_def mutex_lock_def mutex_unlock_def mutex_call_def plain_lines_def owned_init owned_lock
      owned_unlock is_locked_owned Let_def split: prod.splits)

text \<open>A section with a lock call that a signal may interrupt: the release is a fault exactly then.\<close>

lemma mutex1_interruptible_cases:
  assumes "m \<notin> owned M (kern s)"
  obtains sig where "klog (mutex1_interruptible M m s) = klog s @ interruptible_lines sig"
    "faults (mutex1_interruptible M m s) = faults s @ (if sig then [BadUnlock m] else [])"
    "owned M (kern (mutex1_interruptible M m s)) = owned M (kern s)"
    "sig \<longleftrightarrow> fst (mutex_lock_interruptible_op M m (kern s)) = - EINTR"
proof -
  obtain i k where f: "mutex_lock_interruptible_op M m (kern s) = (i, k)" by fastforce
  from interruptible [OF assms f] show thesis
  proof
    assume "i = 0 \<and> owned M k = insert m (owned M (kern s))"
    then show thesis
      using f assms by (intro that [of False])
        (simp_all add: mutex1_interruptible_def interruptible_lines_def mutex_section_defs owned_unlock)
  next
    assume "i = - EINTR \<and> owned M k = owned M (kern s)"
    then show thesis
      using f assms by (intro that [of True])
        (simp_all add: mutex1_interruptible_def interruptible_lines_def mutex_section_defs owned_unlock)
  qed
qed

lemma mutex1_killable_cases:
  assumes "m \<notin> owned M (kern s)"
  obtains sig where "klog (mutex1_killable M m s) = klog s @ killable_lines sig"
    "faults (mutex1_killable M m s) = faults s @ (if sig then [BadUnlock m] else [])"
    "owned M (kern (mutex1_killable M m s)) = owned M (kern s)"
    "sig \<longleftrightarrow> fst (mutex_lock_killable_op M m (kern s)) = - EINTR"
proof -
  obtain i k where f: "mutex_lock_killable_op M m (kern s) = (i, k)" by fastforce
  from killable [OF assms f] show thesis
  proof
    assume "i = 0 \<and> owned M k = insert m (owned M (kern s))"
    then show thesis
      using f assms by (intro that [of False])
        (simp_all add: mutex1_killable_def killable_lines_def mutex_section_defs owned_unlock)
  next
    assume "i = - EINTR \<and> owned M k = owned M (kern s)"
    then show thesis
      using f assms by (intro that [of True])
        (simp_all add: mutex1_killable_def killable_lines_def mutex_section_defs owned_unlock)
  qed
qed

end

section \<open>A reference mutex\<close>

text \<open>The mutexes that are held, and which of the coming interruptible calls a signal interrupts.\<close>

record ref_mutex =
  holding :: "addr list"
  signals :: "bool list"

definition ref_interruptible :: "addr \<Rightarrow> ref_mutex \<Rightarrow> int \<times> ref_mutex" where
  "ref_interruptible m k =
     (case signals k of
        True # ss \<Rightarrow> (- EINTR, k\<lparr>signals := ss\<rparr>)
      | False # ss \<Rightarrow> (0, k\<lparr>holding := m # holding k, signals := ss\<rparr>)
      | [] \<Rightarrow> (0, k\<lparr>holding := m # holding k\<rparr>))"

definition ref_mutexes :: "ref_mutex mutex_ops" where
  "ref_mutexes = \<lparr>
     mutex_init_op = (\<lambda>m k. k\<lparr>holding := removeAll m (holding k)\<rparr>),
     mutex_lock_op = (\<lambda>m k. k\<lparr>holding := m # holding k\<rparr>),
     mutex_unlock_op = (\<lambda>m k. k\<lparr>holding := removeAll m (holding k)\<rparr>),
     mutex_is_locked_op = (\<lambda>m k. if m \<in> set (holding k) then 1 else 0),
     mutex_trylock_op = (\<lambda>m k. if m \<in> set (holding k) then (0, k) else (1, k\<lparr>holding := m # holding k\<rparr>)),
     mutex_lock_interruptible_op = ref_interruptible, mutex_lock_killable_op = ref_interruptible,
     owned = (\<lambda>k. set (holding k))\<rparr>"

interpretation ref_mtx: mutex_api ref_mutexes
  by unfold_locales (auto simp: ref_mutexes_def ref_interruptible_def split: if_splits list.splits bool.splits)

definition mutex1_boot :: "bool list \<Rightarrow> ref_mutex env" where
  "mutex1_boot sigs = \<lparr>kern = \<lparr>holding = [], signals = sigs\<rparr>, klog = [], faults = []\<rparr>"

section \<open>Properties\<close>

text \<open>
  C23. \<open>start\<close> of the mutex module returns 0 and leaves the mutex released, whatever the lock
  calls return; its log says that the mutex was locked, that the trial failed, and for each of
  the two interruptible calls whether it was interrupted. Every interrupted call is followed by a
  release of the mutex that is not held: the run is free of faults exactly if neither call was
  interrupted.
\<close>

theorem mutex1_start_correct:
  assumes "mutex_api M" and "mutex1_start M m s = (r, s')"
  shows "r = 0 \<and> owned M (kern s') = owned M (kern s) - {m} \<and>
    (\<exists>sig kill. klog s' = klog s @ plain_lines @ interruptible_lines sig @ killable_lines kill \<and>
       faults s' = faults s @ (if sig then [BadUnlock m] else []) @ (if kill then [BadUnlock m] else []) \<and>
       (faults s' = faults s \<longleftrightarrow> \<not> sig \<and> \<not> kill))"
proof -
  note plain = mutex_api.mutex1_plain_ok [OF assms(1), of m s]
  let ?s1 = "mutex1_plain M m s"
  have free1: "m \<notin> owned M (kern ?s1)" using plain by simp
  obtain sig where sig: "klog (mutex1_interruptible M m ?s1) = klog ?s1 @ interruptible_lines sig"
    "faults (mutex1_interruptible M m ?s1) = faults ?s1 @ (if sig then [BadUnlock m] else [])"
    "owned M (kern (mutex1_interruptible M m ?s1)) = owned M (kern ?s1)"
    by (rule mutex_api.mutex1_interruptible_cases [OF assms(1) free1])
  let ?s2 = "mutex1_interruptible M m ?s1"
  have free2: "m \<notin> owned M (kern ?s2)" using sig free1 by simp
  obtain kill where kill: "klog (mutex1_killable M m ?s2) = klog ?s2 @ killable_lines kill"
    "faults (mutex1_killable M m ?s2) = faults ?s2 @ (if kill then [BadUnlock m] else [])"
    "owned M (kern (mutex1_killable M m ?s2)) = owned M (kern ?s2)"
    by (rule mutex_api.mutex1_killable_cases [OF assms(1) free2])
  have "r = 0" "s' = mutex1_killable M m ?s2" using assms(2) by (auto simp: mutex1_start_def Let_def)
  then show ?thesis using plain sig kill by (intro conjI exI [of _ sig] exI [of _ kill]) simp_all
qed

theorem mutex1_start_correct_witness:
  "\<exists>s'. mutex1_start ref_mutexes 10 (mutex1_boot [True, False]) = (0, s') \<and> holding (kern s') = [] \<and>
     faults s' = [BadUnlock 10]"
proof -
  obtain r s' where run: "mutex1_start ref_mutexes 10 (mutex1_boot [True, False]) = (r, s')" by fastforce
  then have f: "faults s' = [BadUnlock 10]"
    by (auto simp: mutex1_start_def mutex1_plain_def mutex1_interruptible_def mutex1_killable_def mutex_lock_def
        mutex_unlock_def mutex_lock_wait_def mutex_call_def ref_mutexes_def ref_interruptible_def mutex1_boot_def
        env_defs)
  have "r = 0 \<and> owned ref_mutexes (kern s') = owned ref_mutexes (kern (mutex1_boot [True, False])) - {10}"
    using mutex1_start_correct [OF ref_mtx.mutex_api_axioms run] by blast
  then show ?thesis using run f by (simp add: ref_mutexes_def mutex1_boot_def)
qed

end
