(* ===== verification/Probes.thy ===== *)
theory Probes
  imports Lkb_Prelude
begin

text \<open>
  The modules \<open>kprobe/code.c\<close> and \<open>kprobe1/code.c\<close>: both put a probe on the kernel function
  \<open>submit_bio\<close>, the first at an address written in the source, the second at the address the
  kernel's symbol table gives. The kernel's probes and its symbol table are the argument \<open>P\<close>.
\<close>

section \<open>The kernel's probes\<close>

type_synonym text_addr = "64 word"

text \<open>The function pointers a probe can hold, and the structure; a static one starts as zeros.\<close>

datatype probe_fn = Fn_null | Fn_pre_handler | Fn_post_handler

record kprobe =
  kp_addr :: text_addr
  kp_pre_handler :: probe_fn
  kp_post_handler :: probe_fn

definition kprobe_zero :: kprobe where
  "kprobe_zero = \<lparr>kp_addr = 0, kp_pre_handler = Fn_null, kp_post_handler = Fn_null\<rparr>"

text \<open>
  \<open>active\<close> observes the structure registered under the address of \<open>kp\<close>, if it is. The kernel reads
  the handlers through the structure, which the modules do not change after the registration.
\<close>

record 'k kprobe_ops =
  register_kprobe_op :: "kprobe \<Rightarrow> 'k \<Rightarrow> int \<times> 'k"
  unregister_kprobe_op :: "kprobe \<Rightarrow> 'k \<Rightarrow> 'k"
  kallsyms_lookup_name_op :: "string \<Rightarrow> 'k \<Rightarrow> text_addr"
  active :: "'k \<Rightarrow> kprobe option"

locale kprobe_api =
  fixes P :: "('k, 'y) kprobe_ops_scheme"
  assumes register_ok: "register_kprobe_op P kp k = (0, k') \<Longrightarrow> active P k' = Some kp"
    and register_error: "register_kprobe_op P kp k = (r, k') \<Longrightarrow> r \<noteq> 0 \<Longrightarrow> active P k' = active P k"
    and unregister: "active P (unregister_kprobe_op P kp k) = None"

section \<open>The modules\<close>

record 'k probes = "'k env" +
  kp :: kprobe

definition pre_handler :: "'k probes \<Rightarrow> int \<times> 'k probes" where
  "pre_handler s = (0, printk KERN_INFO ''Inside pre_handler.'' [] s)"

definition post_handler :: "'k probes \<Rightarrow> 'k probes" where
  "post_handler s = printk KERN_INFO ''Inside POST_handler.'' [] s"

definition kprobe1_pre_handler :: "'k probes \<Rightarrow> int \<times> 'k probes" where
  "kprobe1_pre_handler s = (0, printk KERN_INFO ''Inside pre_handler.'' [] s)"

definition kprobe1_post_handler :: "'k probes \<Rightarrow> 'k probes" where
  "kprobe1_post_handler s = printk KERN_INFO ''Inside POST_handler.'' [] s"

abbreviation (input) ADDRESS :: text_addr where
  "ADDRESS \<equiv> 0xffffffff8131b630"

definition register_kprobe :: "('k, 'y) kprobe_ops_scheme \<Rightarrow> 'k probes \<Rightarrow> 'k probes" where
  "register_kprobe P s = (let (r, k) = register_kprobe_op P (kp s) (kern s) in s\<lparr>kern := k\<rparr>)"

definition kprobe_start :: "('k, 'y) kprobe_ops_scheme \<Rightarrow> 'k probes \<Rightarrow> int \<times> 'k probes" where
  "kprobe_start P s =
     (let s = printk KERN_INFO ''Entering.....'' [] s;
          s = s\<lparr>kp := (kp s)\<lparr>kp_pre_handler := Fn_pre_handler\<rparr>\<rparr>;
          s = s\<lparr>kp := (kp s)\<lparr>kp_post_handler := Fn_post_handler\<rparr>\<rparr>;
          s = s\<lparr>kp := (kp s)\<lparr>kp_addr := ADDRESS\<rparr>\<rparr>;
          s = register_kprobe P s
      in (0, s))"

definition kprobe_stops :: "('k, 'y) kprobe_ops_scheme \<Rightarrow> 'k probes \<Rightarrow> 'k probes" where
  "kprobe_stops P s = printk KERN_INFO ''Exiting.....'' [] (upd_kern (unregister_kprobe_op P (kp s)) s)"

definition kprobe1_start :: "('k, 'y) kprobe_ops_scheme \<Rightarrow> 'k probes \<Rightarrow> int \<times> 'k probes" where
  "kprobe1_start P s =
     (let s = printk KERN_INFO ''Entering.....'' [] s;
          s = s\<lparr>kp := (kp s)\<lparr>kp_pre_handler := Fn_pre_handler\<rparr>\<rparr>;
          s = s\<lparr>kp := (kp s)\<lparr>kp_post_handler := Fn_post_handler\<rparr>\<rparr>;
          s = s\<lparr>kp := (kp s)\<lparr>kp_addr := kallsyms_lookup_name_op P ''submit_bio'' (kern s)\<rparr>\<rparr>
      in if kp_addr (kp s) = 0
         then (-1, printk KERN_ERR ''Failed to get address of kernel fucntion submit_bio'' [] s)
         else (0, register_kprobe P s))"

definition kprobe1_stops :: "('k, 'y) kprobe_ops_scheme \<Rightarrow> 'k probes \<Rightarrow> 'k probes" where
  "kprobe1_stops P s = printk KERN_INFO ''Exiting.....'' [] (upd_kern (unregister_kprobe_op P (kp s)) s)"

section \<open>Sessions\<close>

text \<open>The handlers of the loaded module, to which its function pointers lead.\<close>

record 'k handlers =
  h_pre :: "'k probes \<Rightarrow> int \<times> 'k probes"
  h_post :: "'k probes \<Rightarrow> 'k probes"

definition kprobe_handlers :: "'k handlers" where
  "kprobe_handlers = \<lparr>h_pre = pre_handler, h_post = post_handler\<rparr>"

definition kprobe1_handlers :: "'k handlers" where
  "kprobe1_handlers = \<lparr>h_pre = kprobe1_pre_handler, h_post = kprobe1_post_handler\<rparr>"

text \<open>
  The processor executes the instruction at an address: a probe on it calls its handlers, the
  second one unless the first returned a value other than 0.
\<close>

definition call_pre :: "'k handlers \<Rightarrow> probe_fn \<Rightarrow> 'k probes \<Rightarrow> int \<times> 'k probes" where
  "call_pre H f s = (if f = Fn_pre_handler then h_pre H s else (0, s))"

definition call_post :: "'k handlers \<Rightarrow> probe_fn \<Rightarrow> 'k probes \<Rightarrow> 'k probes" where
  "call_post H f s = (if f = Fn_post_handler then h_post H s else s)"

definition execute :: "('k, 'y) kprobe_ops_scheme \<Rightarrow> 'k handlers \<Rightarrow> text_addr \<Rightarrow> 'k probes \<Rightarrow> 'k probes" where
  "execute P H a s =
     (case active P (kern s) of
        None \<Rightarrow> s
      | Some p \<Rightarrow>
          if kp_addr p = a
          then let (r, s) = call_pre H (kp_pre_handler p) s in if r = 0 then call_post H (kp_post_handler p) s else s
          else s)"

text \<open>
  A session: the module is loaded, addresses are executed, and, when it was loaded successfully, it
  is unloaded and more addresses are executed.
\<close>

definition session ::
  "('k, 'y) kprobe_ops_scheme \<Rightarrow> 'k handlers \<Rightarrow> ('k probes \<Rightarrow> int \<times> 'k probes) \<Rightarrow> ('k probes \<Rightarrow> 'k probes) \<Rightarrow>
   text_addr list \<Rightarrow> text_addr list \<Rightarrow> 'k probes \<Rightarrow> int \<times> 'k probes" where
  "session P H start stops as bs s =
     (let (r, s) = start s; s = fold (execute P H) as s
      in (r, fold (execute P H) bs (if r = 0 then stops s else s)))"

text \<open>Both modules' sessions.\<close>

definition kprobe_run :: "('k, 'y) kprobe_ops_scheme \<Rightarrow> text_addr list \<Rightarrow> text_addr list \<Rightarrow> 'k probes \<Rightarrow> int \<times> 'k probes" where
  "kprobe_run P = session P kprobe_handlers (kprobe_start P) (kprobe_stops P)"

definition kprobe1_run :: "('k, 'y) kprobe_ops_scheme \<Rightarrow> text_addr list \<Rightarrow> text_addr list \<Rightarrow> 'k probes \<Rightarrow> int \<times> 'k probes" where
  "kprobe1_run P = session P kprobe1_handlers (kprobe1_start P) (kprobe1_stops P)"

definition handler_lines :: "logline list" where
  "handler_lines = [Line KERN_INFO ''Inside pre_handler.'' [], Line KERN_INFO ''Inside POST_handler.'' []]"

text \<open>What a number of executed addresses writes: the two lines for every hit of the probed one.\<close>

definition hits :: "text_addr \<Rightarrow> text_addr list \<Rightarrow> logline list" where
  "hits a xs = concat (map (\<lambda>x. if x = a then handler_lines else []) xs)"

text \<open>The handlers of the two modules do the same.\<close>

lemma handlers_eq:
  "kprobe1_handlers = (kprobe_handlers :: 'k handlers)"
  by (simp add: kprobe1_handlers_def kprobe_handlers_def fun_eq_iff kprobe1_pre_handler_def kprobe1_post_handler_def
      pre_handler_def post_handler_def)

lemma execute_inactive: "active P (kern s) = None \<Longrightarrow> fold (execute P H) as s = s"
  by (induction as) (simp_all add: execute_def)

lemma execute_active:
  assumes "active P (kern s) = Some p" and "kp_pre_handler p = Fn_pre_handler" and "kp_post_handler p = Fn_post_handler"
  shows "fold (execute P kprobe_handlers) as s = s\<lparr>klog := klog s @ hits (kp_addr p) as\<rparr>"
  using assms(1)
proof (induction as arbitrary: s)
  case Nil
  then show ?case by (simp add: hits_def)
next
  case (Cons a as)
  have "execute P kprobe_handlers a s = s\<lparr>klog := klog s @ hits (kp_addr p) [a]\<rparr>"
    using Cons.prems assms(2,3)
    by (simp add: execute_def kprobe_handlers_def call_pre_def call_post_def pre_handler_def post_handler_def printk_def hits_def handler_lines_def)
  then show ?case using Cons.IH [of "execute P kprobe_handlers a s"] Cons.prems by (simp add: hits_def)
qed

text \<open>The probe of either module, at address \<open>a\<close>.\<close>

definition probe_at :: "text_addr \<Rightarrow> kprobe" where
  "probe_at a = \<lparr>kp_addr = a, kp_pre_handler = Fn_pre_handler, kp_post_handler = Fn_post_handler\<rparr>"

lemma probe_at_updates:
  "p\<lparr>kp_pre_handler := Fn_pre_handler, kp_post_handler := Fn_post_handler, kp_addr := a\<rparr> = probe_at a"
  by (cases p) (simp add: probe_at_def)

text \<open>The two modules up to the registration.\<close>

lemma starts_eq:
  "kprobe_start P s = (0, register_kprobe P (s\<lparr>klog := klog s @ [Line KERN_INFO ''Entering.....'' []], kp := probe_at ADDRESS\<rparr>))"
  "kallsyms_lookup_name_op P ''submit_bio'' (kern s) \<noteq> 0 \<Longrightarrow>
     kprobe1_start P s = (0, register_kprobe P (s\<lparr>klog := klog s @ [Line KERN_INFO ''Entering.....'' []],
       kp := probe_at (kallsyms_lookup_name_op P ''submit_bio'' (kern s))\<rparr>))"
  "kallsyms_lookup_name_op P ''submit_bio'' (kern s) = 0 \<Longrightarrow>
     kprobe1_start P s = (-1, s\<lparr>klog := klog s @ [Line KERN_INFO ''Entering.....'' [],
       Line KERN_ERR ''Failed to get address of kernel fucntion submit_bio'' []], kp := probe_at 0\<rparr>)"
  by (simp_all add: kprobe_start_def kprobe1_start_def printk_def probe_at_updates Let_def)

context kprobe_api
begin

text \<open>From the registration to the end of a session.\<close>

lemma session_registered:
  assumes none: "active P (kern s) = None" and reg: "register_kprobe_op P (probe_at a) (kern s) = (r, k)"
    and start: "start s = (0, register_kprobe P (s\<lparr>klog := klog s @ ls, kp := probe_at a\<rparr>))"
    and stops: "\<And>s. stops s = printk KERN_INFO ''Exiting.....'' [] (upd_kern (unregister_kprobe_op P (kp s)) s)"
  shows "session P kprobe_handlers start stops as bs s = (0, s\<lparr>klog := klog s @ ls @ (if r = 0 then hits a as else []) @ [Line KERN_INFO ''Exiting.....'' []],
    kern := unregister_kprobe_op P (probe_at a) k, kp := probe_at a\<rparr>)"
proof -
  let ?s1 = "s\<lparr>klog := klog s @ ls, kp := probe_at a, kern := k\<rparr>"
  have s1: "start s = (0, ?s1)" using start reg by (simp add: register_kprobe_def)
  have run: "fold (execute P kprobe_handlers) as ?s1 = ?s1\<lparr>klog := klog ?s1 @ (if r = 0 then hits a as else [])\<rparr>"
  proof (cases "r = 0")
    case True
    then have "active P (kern ?s1) = Some (probe_at a)" using reg register_ok by simp
    from execute_active [OF this] show ?thesis using True by (simp add: probe_at_def)
  next
    case False
    then have "active P (kern ?s1) = None" using reg register_error none by simp
    from execute_inactive [OF this] show ?thesis using False by simp
  qed
  have "fold (execute P kprobe_handlers) bs s' = s'" if "kern s' = unregister_kprobe_op P (probe_at a) k" for s' :: "'k probes"
    by (rule execute_inactive) (simp add: that unregister)
  then show ?thesis by (simp add: session_def s1 run stops upd_kern_def printk_def)
qed

end

section \<open>A reference kernel with one probe\<close>

text \<open>A symbol table and a text segment; a probe must be in it.\<close>

record probe_kernel =
  symbol :: text_addr
  text_lo :: text_addr
  probe :: "kprobe option"

definition ref_probes :: "probe_kernel kprobe_ops" where
  "ref_probes = \<lparr>
     register_kprobe_op = (\<lambda>kp k. if text_lo k \<le> kp_addr kp then (0, k\<lparr>probe := Some kp\<rparr>) else (-22, k)),
     unregister_kprobe_op = (\<lambda>kp k. k\<lparr>probe := None\<rparr>),
     kallsyms_lookup_name_op = (\<lambda>nm k. if nm = ''submit_bio'' then symbol k else 0),
     active = probe\<rparr>"

interpretation ref_probe: kprobe_api ref_probes
  by unfold_locales (auto simp: ref_probes_def split: if_splits)

definition probes_boot :: "text_addr \<Rightarrow> text_addr \<Rightarrow> probe_kernel probes" where
  "probes_boot a lo = \<lparr>kern = \<lparr>symbol = a, text_lo = lo, probe = None\<rparr>, klog = [], faults = [], kp = kprobe_zero\<rparr>"

section \<open>Properties\<close>

text \<open>
  A session of the first module: it always loads; every execution of the hard-coded address while
  it is loaded writes the two messages in order if the kernel accepted the probe, and nothing is
  written if it did not, which the module does not report. Executions after the unloading write
  nothing.
\<close>

theorem kprobe_session:
  assumes "kprobe_api P" and "active P (kern s) = None" and "register_kprobe_op P (probe_at ADDRESS) (kern s) = (r, k)"
  shows "\<exists>s'. kprobe_run P as bs s = (0, s') \<and> active P (kern s') = None \<and>
    klog s' = klog s @ Line KERN_INFO ''Entering.....'' [] # (if r = 0 then hits ADDRESS as else []) @
      [Line KERN_INFO ''Exiting.....'' []]"
proof -
  have "kprobe_run P as bs s = (0, s\<lparr>klog := klog s @ [Line KERN_INFO ''Entering.....'' []] @
      (if r = 0 then hits ADDRESS as else []) @ [Line KERN_INFO ''Exiting.....'' []],
      kern := unregister_kprobe_op P (probe_at ADDRESS) k, kp := probe_at ADDRESS\<rparr>)"
    unfolding kprobe_run_def by (intro kprobe_api.session_registered [OF assms]) (simp_all add: starts_eq kprobe_stops_def)
  then show ?thesis by (simp add: kprobe_api.unregister [OF assms(1)])
qed

theorem kprobe_session_witness:
  "\<exists>s'. kprobe_run ref_probes [5, ADDRESS] [ADDRESS] (probes_boot 0 0x1000) = (0, s') \<and>
     klog s' = Line KERN_INFO ''Entering.....'' [] # handler_lines @ [Line KERN_INFO ''Exiting.....'' []]"
proof -
  have "register_kprobe_op ref_probes (probe_at ADDRESS) (kern (probes_boot 0 0x1000)) =
      (0, (kern (probes_boot 0 0x1000))\<lparr>probe := Some (probe_at ADDRESS)\<rparr>)"
    by (simp add: ref_probes_def probes_boot_def probe_at_def)
  moreover have "active ref_probes (kern (probes_boot 0 0x1000)) = None" by (simp add: ref_probes_def probes_boot_def)
  ultimately show ?thesis
    using kprobe_session [OF ref_probe.kprobe_api_axioms, of "probes_boot 0 0x1000" _ _ "[5, ADDRESS]" "[ADDRESS]"]
    by (auto simp: hits_def probes_boot_def)
qed

text \<open>
  C26. A session of the second module, with any addresses executed while it is loaded and afterwards.
  Without the symbol it reports that, fails with -1 and has not touched the kernel's probes. Otherwise
  it loads, and if the kernel accepts the probe every execution of the symbol's address while the
  module is loaded writes the two messages in order, and no other execution writes anything; if the
  kernel refuses the probe nothing is written, and the module reports success all the same. In all
  cases no probe is left.
\<close>

theorem kprobe1_session:
  assumes "kprobe_api P" and "active P (kern s) = None" and "a = kallsyms_lookup_name_op P ''submit_bio'' (kern s)"
    and "register_kprobe_op P (probe_at a) (kern s) = (r, k)"
  shows "\<exists>v s'. kprobe1_run P as bs s = (v, s') \<and> active P (kern s') = None \<and> faults s' = faults s \<and>
    (if a = 0
     then v = -1 \<and> kern s' = kern s \<and> klog s' = klog s @ [Line KERN_INFO ''Entering.....'' [],
       Line KERN_ERR ''Failed to get address of kernel fucntion submit_bio'' []]
     else v = 0 \<and> klog s' = klog s @ Line KERN_INFO ''Entering.....'' [] # (if r = 0 then hits a as else []) @
       [Line KERN_INFO ''Exiting.....'' []])"
proof (cases "a = 0")
  case True
  then show ?thesis
    using assms(2,3) by (simp add: kprobe1_run_def session_def starts_eq execute_inactive)
next
  case False
  have "kprobe1_run P as bs s = (0, s\<lparr>klog := klog s @ [Line KERN_INFO ''Entering.....'' []] @
      (if r = 0 then hits a as else []) @ [Line KERN_INFO ''Exiting.....'' []],
      kern := unregister_kprobe_op P (probe_at a) k, kp := probe_at a\<rparr>)"
    unfolding kprobe1_run_def handlers_eq using False assms(3)
    by (intro kprobe_api.session_registered [OF assms(1,2,4)]) (simp_all add: starts_eq kprobe1_stops_def)
  then show ?thesis using False by (simp add: kprobe_api.unregister [OF assms(1)])
qed

theorem kprobe1_session_witness:
  "\<exists>s'. kprobe1_run ref_probes [0x2000, 5] [0x2000] (probes_boot 0x2000 0x1000) = (0, s') \<and>
     klog s' = Line KERN_INFO ''Entering.....'' [] # handler_lines @ [Line KERN_INFO ''Exiting.....'' []]"
proof -
  have "register_kprobe_op ref_probes (probe_at 0x2000) (kern (probes_boot 0x2000 0x1000)) =
      (0, (kern (probes_boot 0x2000 0x1000))\<lparr>probe := Some (probe_at 0x2000)\<rparr>)"
    "0x2000 = kallsyms_lookup_name_op ref_probes ''submit_bio'' (kern (probes_boot 0x2000 0x1000))"
    "active ref_probes (kern (probes_boot 0x2000 0x1000)) = None"
    by (simp_all add: ref_probes_def probes_boot_def probe_at_def)
  then show ?thesis
    using kprobe1_session [OF ref_probe.kprobe_api_axioms, of "probes_boot 0x2000 0x1000" "0x2000" _ _ "[0x2000, 5]" "[0x2000]"]
    by (auto simp: hits_def probes_boot_def)
qed

end
