(* ===== verification/Radix_Tree.thy ===== *)
theory Radix_Tree
  imports Lkb_Prelude
begin

text \<open>
  The module \<open>radix_tree/code.c\<close>: a global radix tree into which one item is inserted, looked up
  under a wrong and the right key, and deleted under a wrong and the right key. The tree is the
  kernel's; its contract is that of a partial map from 64-bit keys to pointers.
\<close>

section \<open>The interface\<close>

type_synonym rkey = "64 word"

record 't radix_ops =
  INIT_RADIX_TREE_op :: "'t \<Rightarrow> 't"
  radix_tree_insert_op :: "rkey \<Rightarrow> addr \<Rightarrow> 't \<Rightarrow> int \<times> 't"
  radix_tree_lookup_op :: "rkey \<Rightarrow> 't \<Rightarrow> addr"
  radix_tree_delete_op :: "rkey \<Rightarrow> 't \<Rightarrow> addr \<times> 't"

section \<open>The module\<close>

text \<open>The kernel state is the tree \<open>mytree\<close>; \<open>ints\<close> is the memory \<open>*(int *)r\<close> reads.\<close>

record 't radix_tree = "'t env" +
  ints :: "addr \<Rightarrow> int"

definition radix_read :: "addr \<Rightarrow> addr \<Rightarrow> 't radix_tree \<Rightarrow> 't radix_tree" where
  "radix_read item r s = (if r = item then s else fault (UseAfterFree r) s)"

text \<open>One lookup and one deletion with the messages that follow them.\<close>

definition radix_delete_report :: "'t radix_ops \<Rightarrow> addr \<Rightarrow> rkey \<Rightarrow> 't radix_tree \<Rightarrow> 't radix_tree" where
  "radix_delete_report R item key s =
     (let (r, t) = radix_tree_delete_op R key (kern s); s = s\<lparr>kern := t\<rparr>
      in if r = NULL then printk KERN_INFO ''delete failed'' [] s
         else let s = radix_read item r s
              in printk KERN_INFO ''delete success %d'' [Num (ints s r)] s)"

definition radix_lookup_report :: "'t radix_ops \<Rightarrow> addr \<Rightarrow> rkey \<Rightarrow> 't radix_tree \<Rightarrow> 't radix_tree" where
  "radix_lookup_report R item key s =
     (let r = radix_tree_lookup_op R key (kern s)
      in if r = NULL then printk KERN_INFO ''lookup failed'' [] s
         else let s = radix_read item r s
              in printk KERN_INFO ''lookup success %d'' [Num (ints s r)] s)"

text \<open>The address of the local variable \<open>item\<close> is an argument.\<close>

definition radix_start :: "'t radix_ops \<Rightarrow> addr \<Rightarrow> 't radix_tree \<Rightarrow> int \<times> 't radix_tree" where
  "radix_start R item s =
     (let s = printk KERN_INFO ''Start...!'' [] s;
          s = upd_kern (INIT_RADIX_TREE_op R) s;
          key = 5;
          failkey = 50;
          s = s\<lparr>ints := (ints s)(item := 14)\<rparr>;
          v = item;
          (ret, t) = radix_tree_insert_op R key v (kern s);
          s = s\<lparr>kern := t\<rparr>
      in if ret \<noteq> 0 then (-1, printk KERN_INFO ''insert failed'' [] s)
         else
           let s = printk KERN_INFO ''insert success'' [] s;
               r = radix_tree_lookup_op R failkey (kern s);
               s = (if r = NULL then printk KERN_INFO ''lookup failed'' [] s
                    else printk KERN_INFO ''lookup success'' [] s);
               s = radix_lookup_report R item key s;
               s = radix_delete_report R item failkey s;
               s = radix_delete_report R item key s
           in (0, s))"

definition radix_stops :: "'t radix_tree \<Rightarrow> 't radix_tree" where
  "radix_stops s = printk KERN_INFO ''Goodbye!'' [] s"

section \<open>The contract of the tree\<close>

text \<open>
  \<open>entries\<close> is the partial map a tree stands for. An insertion under a key that is present is
  refused (\<open>-EEXIST\<close>), and any insertion may run out of memory.
\<close>

definition ptr_of :: "addr option \<Rightarrow> addr" where
  "ptr_of e = (case e of None \<Rightarrow> NULL | Some p \<Rightarrow> p)"

lemma ptr_of_simps [simp]: "ptr_of None = NULL" "ptr_of (Some p) = p"
  by (simp_all add: ptr_of_def)

locale radix_api =
  fixes R :: "'t radix_ops" and entries :: "'t \<Rightarrow> rkey \<rightharpoonup> addr"
  assumes init_empty: "entries (INIT_RADIX_TREE_op R t) = Map.empty"
    and insert_result: "radix_tree_insert_op R key p t = (ret, t') \<Longrightarrow> p \<noteq> NULL \<Longrightarrow>
      ret = 0 \<and> key \<notin> dom (entries t) \<and> entries t' = (entries t)(key \<mapsto> p) \<or> ret < 0 \<and> entries t' = entries t"
    and lookup_entries: "radix_tree_lookup_op R key t = ptr_of (entries t key)"
    and delete_entries: "radix_tree_delete_op R key t = (r, t') \<Longrightarrow>
      r = ptr_of (entries t key) \<and> entries t' = (entries t)(key := None)"
begin

lemma insert_lookup:
  assumes "radix_tree_insert_op R key p t = (0, t')" and "p \<noteq> NULL"
  shows "radix_tree_lookup_op R key t' = p"
    and "key' \<noteq> key \<Longrightarrow> radix_tree_lookup_op R key' t' = radix_tree_lookup_op R key' t"
  using insert_result [OF assms] by (auto simp: lookup_entries)

lemma delete_report_missing:
  assumes "entries (kern s) key = None"
  shows "klog (radix_delete_report R item key s) = klog s @ [Line KERN_INFO ''delete failed'' []]"
    and "entries (kern (radix_delete_report R item key s)) = entries (kern s)"
    and "faults (radix_delete_report R item key s) = faults s" and "ints (radix_delete_report R item key s) = ints s"
  using assms delete_entries [of key "kern s"]
  by (auto simp: radix_delete_report_def printk_def split: prod.splits)

lemma delete_report_present:
  assumes "entries (kern s) key = Some item" and "item \<noteq> NULL"
  shows "klog (radix_delete_report R item key s) = klog s @ [Line KERN_INFO ''delete success %d'' [Num (ints s item)]]"
    and "entries (kern (radix_delete_report R item key s)) = (entries (kern s))(key := None)"
    and "faults (radix_delete_report R item key s) = faults s"
  using assms delete_entries [of key "kern s"]
  by (auto simp: radix_delete_report_def radix_read_def split: prod.splits)

lemma lookup_report_present:
  assumes "entries (kern s) key = Some item" and "item \<noteq> NULL"
  shows "radix_lookup_report R item key s = printk KERN_INFO ''lookup success %d'' [Num (ints s item)] s"
  using assms by (simp add: radix_lookup_report_def lookup_entries radix_read_def)

lemma radix_start_cases:
  assumes "item \<noteq> NULL"
  obtains (success) s' where "radix_start R item s = (0, s')" "entries (kern s') = Map.empty" "faults s' = faults s"
      "klog s' = klog s @ [Line KERN_INFO ''Start...!'' [], Line KERN_INFO ''insert success'' [],
        Line KERN_INFO ''lookup failed'' [], Line KERN_INFO ''lookup success %d'' [Num 14],
        Line KERN_INFO ''delete failed'' [], Line KERN_INFO ''delete success %d'' [Num 14]]"
  | (failure) s' where "radix_start R item s = (-1, s')" "entries (kern s') = Map.empty" "faults s' = faults s"
      "klog s' = klog s @ [Line KERN_INFO ''Start...!'' [], Line KERN_INFO ''insert failed'' []]"
proof -
  define t0 where "t0 = INIT_RADIX_TREE_op R (kern s)"
  define s0 where "s0 = (upd_kern (INIT_RADIX_TREE_op R) (printk KERN_INFO ''Start...!'' [] s))
    \<lparr>ints := (ints s)(item := 14)\<rparr>"
  obtain ret t1 where ins: "radix_tree_insert_op R 5 item t0 = (ret, t1)" by fastforce
  have e0: "entries t0 = Map.empty" by (simp add: t0_def init_empty)
  have s0: "kern s0 = t0" "ints s0 item = 14" "faults s0 = faults s" "klog s0 = klog s @ [Line KERN_INFO ''Start...!'' []]"
    by (simp_all add: s0_def t0_def env_defs)
  have fold_s0: "(upd_kern (INIT_RADIX_TREE_op R) (printk KERN_INFO ''Start...!'' [] s))
      \<lparr>ints := (ints (upd_kern (INIT_RADIX_TREE_op R) (printk KERN_INFO ''Start...!'' [] s)))(item := 14)\<rparr> = s0"
    by (simp add: s0_def env_defs)
  show thesis
  proof (cases "ret = 0")
    case True
    then have e1: "entries t1 = [5 \<mapsto> item]" using insert_result [OF ins assms] e0 by auto
    define s1 where "s1 = printk KERN_INFO ''insert success'' [] (s0\<lparr>kern := t1\<rparr>)"
    define s2 where "s2 = radix_lookup_report R item 5 (printk KERN_INFO ''lookup failed'' [] s1)"
    define s3 where "s3 = radix_delete_report R item 50 s2"
    have miss: "radix_tree_lookup_op R 50 (kern s1) = NULL" using e1 by (simp add: lookup_entries s1_def)
    have run: "radix_start R item s = (0, radix_delete_report R item 5 s3)"
      unfolding radix_start_def Let_def fold_s0 using miss True by (simp add: s0 ins s1_def s2_def s3_def)
    have s2: "entries (kern s2) = [5 \<mapsto> item]" "faults s2 = faults s" "ints s2 item = 14"
      "klog s2 = klog s0 @ [Line KERN_INFO ''insert success'' [], Line KERN_INFO ''lookup failed'' [],
        Line KERN_INFO ''lookup success %d'' [Num 14]]"
      using e1 assms s0 by (simp_all add: s2_def s1_def lookup_report_present printk_def)
    have gone: "entries (kern s2) 50 = None" using s2 by simp
    note d1 = delete_report_missing [OF gone, of item, folded s3_def]
    have "entries (kern s3) 5 = Some item" using d1 s2 by simp
    note d2 = delete_report_present [OF this assms]
    show thesis by (rule success [OF run]) (use d1 d2 s2 s0 in simp_all)
  next
    case False
    then have "entries t1 = Map.empty" using insert_result [OF ins assms] e0 by auto
    moreover have "radix_start R item s = (-1, printk KERN_INFO ''insert failed'' [] (s0\<lparr>kern := t1\<rparr>))"
      unfolding radix_start_def Let_def fold_s0 using False by (simp add: s0 ins)
    ultimately show thesis using failure s0 by simp
  qed
qed

end

section \<open>A reference tree\<close>

text \<open>A binary trie over the bits of the key, and a budget of insertions.\<close>

datatype trie = Tip | Nd trie "addr option" trie

fun trie_lookup :: "trie \<Rightarrow> bool list \<Rightarrow> addr option" where
  "trie_lookup Tip bs = None"
| "trie_lookup (Nd l v r) [] = v"
| "trie_lookup (Nd l v r) (b # bs) = trie_lookup (if b then r else l) bs"

fun trie_update :: "addr option \<Rightarrow> bool list \<Rightarrow> trie \<Rightarrow> trie" where
  "trie_update e [] Tip = Nd Tip e Tip"
| "trie_update e [] (Nd l v r) = Nd l e r"
| "trie_update e (b # bs) Tip = (if b then Nd Tip None (trie_update e bs Tip) else Nd (trie_update e bs Tip) None Tip)"
| "trie_update e (b # bs) (Nd l v r) = (if b then Nd l v (trie_update e bs r) else Nd (trie_update e bs l) v r)"

lemma trie_lookup_update: "trie_lookup (trie_update e bs t) cs = (if bs = cs then e else trie_lookup t cs)"
proof (induction e bs t arbitrary: cs rule: trie_update.induct)
  case (1 e)
  then show ?case by (cases cs) auto
next
  case (2 e l v r)
  then show ?case by (cases cs) auto
next
  case (3 e b bs)
  then show ?case by (cases cs) auto
next
  case (4 e b bs l v r)
  then show ?case by (cases cs) auto
qed

definition key_path :: "rkey \<Rightarrow> bool list" where
  "key_path k = map (bit k) [0..<64]"

lemma key_path_inj [simp]: "key_path k = key_path k' \<longleftrightarrow> k = k'"
proof
  assume "key_path k = key_path k'"
  then have "\<forall>n<64. bit k n = bit k' n"
    by (auto simp: key_path_def list_eq_iff_nth_eq simp del: upt_rec_numeral)
  then show "k = k'" by (intro bit_word_eqI) simp
qed simp

record ref_radix =
  radix_trie :: trie
  radix_budget :: nat

definition ref_radix_insert :: "rkey \<Rightarrow> addr \<Rightarrow> ref_radix \<Rightarrow> int \<times> ref_radix" where
  "ref_radix_insert k p t =
     (if trie_lookup (radix_trie t) (key_path k) \<noteq> None then (-17, t)
      else if radix_budget t = 0 then (-12, t)
      else (0, t\<lparr>radix_trie := trie_update (Some p) (key_path k) (radix_trie t), radix_budget := radix_budget t - 1\<rparr>))"

definition ref_radix_delete :: "rkey \<Rightarrow> ref_radix \<Rightarrow> addr \<times> ref_radix" where
  "ref_radix_delete k t =
     (ptr_of (trie_lookup (radix_trie t) (key_path k)), t\<lparr>radix_trie := trie_update None (key_path k) (radix_trie t)\<rparr>)"

definition ref_radix_ops :: "ref_radix radix_ops" where
  "ref_radix_ops = \<lparr>
     INIT_RADIX_TREE_op = (\<lambda>t. t\<lparr>radix_trie := Tip\<rparr>), radix_tree_insert_op = ref_radix_insert,
     radix_tree_lookup_op = (\<lambda>k t. ptr_of (trie_lookup (radix_trie t) (key_path k))),
     radix_tree_delete_op = ref_radix_delete\<rparr>"

definition ref_entries :: "ref_radix \<Rightarrow> rkey \<rightharpoonup> addr" where
  "ref_entries t k = trie_lookup (radix_trie t) (key_path k)"

interpretation ref_rdx: radix_api ref_radix_ops ref_entries
proof
  show "ref_entries (INIT_RADIX_TREE_op ref_radix_ops t) = Map.empty" for t
    by (rule ext) (simp add: ref_radix_ops_def ref_entries_def)
next
  fix key p t ret t'
  assume "radix_tree_insert_op ref_radix_ops key p t = (ret, t')"
  then show "ret = 0 \<and> key \<notin> dom (ref_entries t) \<and> ref_entries t' = (ref_entries t)(key \<mapsto> p) \<or>
      ret < 0 \<and> ref_entries t' = ref_entries t"
    by (auto simp: ref_radix_ops_def ref_radix_insert_def ref_entries_def trie_lookup_update fun_eq_iff split: if_splits)
next
  show "radix_tree_lookup_op ref_radix_ops key t = ptr_of (ref_entries t key)" for key t
    by (simp add: ref_radix_ops_def ref_entries_def)
next
  fix key t r t'
  assume "radix_tree_delete_op ref_radix_ops key t = (r, t')"
  then show "r = ptr_of (ref_entries t key) \<and> ref_entries t' = (ref_entries t)(key := None)"
    by (auto simp: ref_radix_ops_def ref_radix_delete_def ref_entries_def trie_lookup_update fun_eq_iff)
qed

definition radix_boot :: "nat \<Rightarrow> ref_radix radix_tree" where
  "radix_boot n = \<lparr>kern = \<lparr>radix_trie = Tip, radix_budget = n\<rparr>, klog = [], faults = [], ints = (\<lambda>_. 0)\<rparr>"

section \<open>Properties\<close>

text \<open>
  C29. \<open>start\<close> of the radix tree module: either the insertion succeeds and it returns 0, having
  reported the failed lookup and deletion under the key 50 and the successful ones under the key
  5 with the value 14 it inserted, or the insertion fails and it returns -1. In both cases the
  tree is empty again, so that no pointer to the local variable \<open>item\<close> is left in it, and no
  other memory has been read.
\<close>

theorem radix_start_correct:
  assumes "radix_api R entries" and "item \<noteq> NULL"
  shows "\<exists>r s'. radix_start R item s = (r, s') \<and> entries (kern s') = Map.empty \<and> faults s' = faults s \<and>
    (r = 0 \<and> klog s' = klog s @ [Line KERN_INFO ''Start...!'' [], Line KERN_INFO ''insert success'' [],
        Line KERN_INFO ''lookup failed'' [], Line KERN_INFO ''lookup success %d'' [Num 14],
        Line KERN_INFO ''delete failed'' [], Line KERN_INFO ''delete success %d'' [Num 14]]
     \<or> r = -1 \<and> klog s' = klog s @ [Line KERN_INFO ''Start...!'' [], Line KERN_INFO ''insert failed'' []])"
  by (rule radix_api.radix_start_cases [OF assms, of s]) simp_all

theorem radix_start_correct_witness:
  "\<exists>s'. radix_start ref_radix_ops 10 (radix_boot 0) = (-1, s') \<and> ref_entries (kern s') = Map.empty"
proof -
  have "fst (radix_start ref_radix_ops 10 (radix_boot 0)) = -1"
    by (simp add: radix_start_def radix_boot_def ref_radix_ops_def ref_radix_insert_def env_defs)
  moreover have "(10::addr) \<noteq> NULL" by simp
  ultimately show ?thesis
    using radix_start_correct [OF ref_rdx.radix_api_axioms, of 10 "radix_boot 0"] by fastforce
qed

end
