(* ===== verification/Rcu.thy ===== *)
theory Rcu
  imports Ref_Kernel "HOL-Library.Monad_Syntax"
begin

text \<open>
  The module \<open>rcu/code.c\<close>: five structures on an RCU protected list, read, one replaced, read
  again, one deleted with its memory handed to \<open>call_rcu\<close>, and read again. The allocator, the
  list operations and the spinlock are the kernel's (\<open>K\<close> and \<open>L\<close>); the addresses of the global
  variables are arguments. The read-side sections are a nesting counter and the callbacks
  registered with \<open>call_rcu\<close> a queue of objects and functions, both part of the module's state, as is
  whether the module is still loaded: the callbacks are code of the module. When a grace period ends
  is the kernel's choice: the argument \<open>gp\<close> says at which points of \<open>start\<close> it does.
\<close>

section \<open>State and operations\<close>

text \<open>The functions the module hands to \<open>call_rcu\<close>: there is one.\<close>

datatype rcu_func = Destroy_old_structure

record 'k rcu = "'k env" +
  m_data :: "addr \<Rightarrow> int"
  val :: "nat \<Rightarrow> addr"
  rcu_flag :: int
  rcu_nesting :: nat
  rcu_pending :: "(addr \<times> rcu_func) list"
  rcu_loaded :: bool

abbreviation sizeof_mylist :: nat where
  "sizeof_mylist \<equiv> 40"

definition rcu_read_lock :: "'k rcu \<Rightarrow> 'k rcu" where
  "rcu_read_lock s = s\<lparr>rcu_nesting := rcu_nesting s + 1\<rparr>"

definition rcu_read_unlock :: "'k rcu \<Rightarrow> 'k rcu" where
  "rcu_read_unlock s = (if rcu_nesting s = 0 then fault (BadUnlock NULL) s else s\<lparr>rcu_nesting := rcu_nesting s - 1\<rparr>)"

text \<open>Waiting for the readers inside a read-side section would wait for itself.\<close>

definition synchronize_rcu :: "'k rcu \<Rightarrow> 'k rcu" where
  "synchronize_rcu s = (if rcu_nesting s = 0 then s else fault (SelfDeadlock NULL) s)"

definition call_rcu :: "addr \<Rightarrow> rcu_func \<Rightarrow> 'k rcu \<Rightarrow> 'k rcu" where
  "call_rcu p f s = s\<lparr>rcu_pending := rcu_pending s @ [(p, f)]\<rparr>"

definition destroy_old_structure :: "('k, 'y) slab_ops_scheme \<Rightarrow> addr \<Rightarrow> 'k rcu \<Rightarrow> 'k rcu" where
  "destroy_old_structure K rcu_h s =
     (let t = rcu_h; s = printk KERN_INFO ''Deleted old reference'' [] s
      in if t = NULL then printk KERN_INFO ''Value (t) not valid. Will exit.'' [] s
         else let s = deref K t s;
                  s = printk KERN_INFO ''Data = %d'' [Num (m_data s t)] s
              in kfree K t s)"

text \<open>
  The end of a grace period: the kernel runs the callbacks that are registered. A callback of a
  module that has been unloaded is no longer there to be run.
\<close>

definition rcu_callback :: "('k, 'y) slab_ops_scheme \<Rightarrow> addr \<times> rcu_func \<Rightarrow> 'k rcu \<Rightarrow> 'k rcu" where
  "rcu_callback K c s =
     (let s = (if rcu_loaded s then s else fault UnloadedCode s)
      in case c of (rcu_h, Destroy_old_structure) \<Rightarrow> destroy_old_structure K rcu_h s)"

definition rcu_grace_period :: "('k, 'y) slab_ops_scheme \<Rightarrow> 'k rcu \<Rightarrow> 'k rcu" where
  "rcu_grace_period K s = fold (rcu_callback K) (rcu_pending s) (s\<lparr>rcu_pending := []\<rparr>)"

text \<open>
  The points of \<open>start\<close> at which it makes a difference whether a grace period ends: right after
  \<open>call_rcu\<close>, at each later entry of the deleting loop, which is no read-side section since its
  \<open>rcu_read_lock\<close> is commented out, and at each entry of the last reading loop, whose read-side
  sections begin after \<open>call_rcu\<close> and do not hold up the grace period. Before \<open>call_rcu\<close> nothing is
  registered, and the end of a grace period has no effect.
\<close>

datatype rcu_point = After_call_rcu | In_delete addr | In_readers addr

definition rcu_gp :: "('k, 'y) slab_ops_scheme \<Rightarrow> (rcu_point \<Rightarrow> bool) \<Rightarrow> rcu_point \<Rightarrow> 'k rcu \<Rightarrow> 'k rcu" where
  "rcu_gp K gp pt s = (if gp pt then rcu_grace_period K s else s)"

subsection \<open>The loops of start\<close>

definition rcu_alloc :: "('k, 'y) slab_ops_scheme \<Rightarrow> nat \<Rightarrow> 'k rcu \<Rightarrow> (int \<times> 'k rcu) + 'k rcu" where
  "rcu_alloc K i s =
     (let (p, s) = kmalloc K sizeof_mylist s; s = s\<lparr>val := (val s)(i := p)\<rparr>
      in if val s i = NULL then Inl (-1, printk KERN_INFO ''Malloc failed for %d'' [Num (int i)] s)
         else let s = deref K (val s i) s
              in Inr (s\<lparr>m_data := (m_data s)(val s i := 10 * int i)\<rparr>))"

definition rcu_add ::
  "('k, 'y) rcu_list_ops_scheme \<Rightarrow> ('k, 'w) lock_ops_scheme \<Rightarrow> addr \<Rightarrow> addr \<Rightarrow> nat \<Rightarrow> 'k rcu \<Rightarrow> 'k rcu" where
  "rcu_add K L mylist_lock head_mylist i s =
     (let s = spin_lock L mylist_lock s;
          s = list_add_rcu K (val s i) head_mylist s
      in spin_unlock L mylist_lock s)"

definition rcu_reader :: "('k, 'y) slab_ops_scheme \<Rightarrow> string \<Rightarrow> addr \<Rightarrow> 'k rcu \<Rightarrow> 'k rcu" where
  "rcu_reader K fmt tmp1 s =
     (let s = rcu_read_lock s;
          s = deref K tmp1 s;
          s = printk KERN_ERR fmt [Num (m_data s tmp1)] s
      in rcu_read_unlock s)"

definition rcu_update ::
  "('k, 'y) rcu_list_ops_scheme \<Rightarrow> ('k, 'w) lock_ops_scheme \<Rightarrow> addr \<Rightarrow> addr \<Rightarrow> addr \<Rightarrow> 'k rcu \<Rightarrow> 'k rcu" where
  "rcu_update K L mylist_lock new_node tmp1 s =
     (let s = rcu_read_lock s;
          s = deref K tmp1 s;
          s = (if m_data s tmp1 = 10 then
                 let s = s\<lparr>m_data := (m_data s)(new_node := 1400)\<rparr>;
                     s = spin_lock L mylist_lock s;
                     s = list_replace_rcu K tmp1 new_node s
                 in spin_unlock L mylist_lock s
               else s)
      in rcu_read_unlock s)"

definition rcu_delete ::
  "('k, 'y) rcu_list_ops_scheme \<Rightarrow> ('k, 'w) lock_ops_scheme \<Rightarrow> addr \<Rightarrow> (rcu_point \<Rightarrow> bool) \<Rightarrow> addr \<Rightarrow> 'k rcu \<Rightarrow> 'k rcu" where
  "rcu_delete K L mylist_lock gp tmp1 s =
     (let s = rcu_gp K gp (In_delete tmp1) s;
          s = deref K tmp1 s
      in if m_data s tmp1 = 20 then
           let s = s\<lparr>rcu_flag := 1\<rparr>;
               s = list_del_rcu K tmp1 s;
               s = spin_unlock L mylist_lock s;
               s = call_rcu tmp1 Destroy_old_structure s
           in rcu_gp K gp After_call_rcu s
         else s)"

definition rcu_last_reader ::
  "('k, 'y) slab_ops_scheme \<Rightarrow> (rcu_point \<Rightarrow> bool) \<Rightarrow> addr \<Rightarrow> 'k rcu \<Rightarrow> 'k rcu" where
  "rcu_last_reader K gp tmp1 s = rcu_reader K ''value(2) = %d'' tmp1 (rcu_gp K gp (In_readers tmp1) s)"

text \<open>The part of \<open>start\<close> that follows the allocation loop.\<close>

definition rcu_rest ::
  "('k, 'y) rcu_list_ops_scheme \<Rightarrow> ('k, 'w) lock_ops_scheme \<Rightarrow> addr \<Rightarrow> addr \<Rightarrow> addr \<Rightarrow> (rcu_point \<Rightarrow> bool) \<Rightarrow> 'k rcu \<Rightarrow>
   (int \<times> 'k rcu) option" where
  "rcu_rest K L mylist_lock head_mylist new_node gp s =
     do {
       let s = fold (rcu_add K L mylist_lock head_mylist) [0..<5] s;
       s \<leftarrow> list_for_each_entry K head_mylist (rcu_reader K ''value(0) = %d'') s;
       let s = synchronize_rcu s;
       s \<leftarrow> list_for_each_entry K head_mylist (rcu_update K L mylist_lock new_node) s;
       let s = synchronize_rcu s;
       s \<leftarrow> list_for_each_entry K head_mylist (rcu_reader K ''value(1) = %d'') s;
       let s = s\<lparr>rcu_flag := 0\<rparr>;
       let s = spin_lock L mylist_lock s;
       s \<leftarrow> list_for_each_entry K head_mylist (rcu_delete K L mylist_lock gp) s;
       let s = (if rcu_flag s = 0 then spin_unlock L mylist_lock s else s);
       s \<leftarrow> list_for_each_entry K head_mylist (rcu_last_reader K gp) s;
       Some (0, s)
     }"

definition rcu_start ::
  "('k, 'y) rcu_list_ops_scheme \<Rightarrow> ('k, 'w) lock_ops_scheme \<Rightarrow> addr \<Rightarrow> addr \<Rightarrow> addr \<Rightarrow> (rcu_point \<Rightarrow> bool) \<Rightarrow> 'k rcu \<Rightarrow>
   (int \<times> 'k rcu) option" where
  "rcu_start K L mylist_lock head_mylist new_node gp s =
     (let s = printk KERN_INFO ''Hello!'' [] s
      in case c_for [0..<5] (rcu_alloc K) s of
           Inl r \<Rightarrow> Some r
         | Inr s \<Rightarrow> rcu_rest K L mylist_lock head_mylist new_node gp s)"

definition rcu_end :: "'k rcu \<Rightarrow> 'k rcu" where
  "rcu_end s = printk KERN_INFO ''Goodbye'' [] s"

text \<open>Unloading the module: its exit function, and its code is gone.\<close>

definition rcu_unload :: "'k rcu \<Rightarrow> 'k rcu" where
  "rcu_unload s = (rcu_end s)\<lparr>rcu_loaded := False\<rparr>"

text \<open>The log lines of one reading of the list.\<close>

definition value_lines :: "string \<Rightarrow> int list \<Rightarrow> logline list" where
  "value_lines fmt ds = map (\<lambda>d. Line KERN_ERR fmt [Num d]) ds"

text \<open>
  The log lines of the callback, and how far the last reading loop is when it runs: \<open>rcu_ends\<close> is
  the number of entries the loop has printed by then, or all of them when no grace period ends
  before the last entry is read. The first list holds the entries the deleting loop visits after
  \<open>call_rcu\<close>, the second the entries of the reading loop.
\<close>

definition destroy_lines :: "logline list" where
  "destroy_lines = [Line KERN_INFO ''Deleted old reference'' [], Line KERN_INFO ''Data = %d'' [Num 20]]"

definition rcu_ends :: "(rcu_point \<Rightarrow> bool) \<Rightarrow> addr list \<Rightarrow> addr list \<Rightarrow> nat" where
  "rcu_ends gp bs ys =
     (if \<exists>p\<in>set bs. gp (In_delete p) then 0 else length (takeWhile (\<lambda>p. \<not> gp (In_readers p)) ys))"

definition insert_at :: "nat \<Rightarrow> 'a list \<Rightarrow> 'a list \<Rightarrow> 'a list" where
  "insert_at i ds xs = (if i < length xs then take i xs @ ds @ drop i xs else xs)"

section \<open>Lemmas under the kernel's contract\<close>

text \<open>The state after the callback for \<open>x\<close>, and the states in which it may run.\<close>

definition rcu_ended :: "('k, 'y) slab_ops_scheme \<Rightarrow> addr \<Rightarrow> 'k rcu \<Rightarrow> 'k rcu" where
  "rcu_ended K x s = s\<lparr>klog := klog s @ destroy_lines, kern := kfree_op K x (kern s), rcu_pending := []\<rparr>"

definition rcu_waiting :: "('k, 'y) slab_ops_scheme \<Rightarrow> addr \<Rightarrow> 'k rcu \<Rightarrow> bool" where
  "rcu_waiting K x s \<longleftrightarrow> rcu_pending s = [(x, Destroy_old_structure)] \<and> rcu_loaded s \<and>
     x \<in> allocated K (kern s) \<and> m_data s x = 20"

definition rcu_walk_inv ::
  "('k, 'y) list_ops_scheme \<Rightarrow> ('k \<Rightarrow> addr \<Rightarrow> addr list \<Rightarrow> bool) \<Rightarrow> addr \<Rightarrow> addr \<Rightarrow> addr list \<Rightarrow> 'k rcu \<Rightarrow> bool" where
  "rcu_walk_inv K dlist h x ys s \<longleftrightarrow> dlist (kern s) h ys \<and> set ys \<subseteq> valid K (kern s) \<and> x \<notin> set (h # ys) \<and>
     (rcu_pending s = [] \<or> rcu_waiting K x s)"

definition rcu_alloc_inv ::
  "('k, 'y) list_ops_scheme \<Rightarrow> ('k \<Rightarrow> addr \<Rightarrow> addr list \<Rightarrow> bool) \<Rightarrow> ('k, 'w) lock_ops_scheme \<Rightarrow> addr \<Rightarrow>
   'k rcu \<Rightarrow> nat \<Rightarrow> 'k rcu \<Rightarrow> bool" where
  "rcu_alloc_inv K dlist L h s0 i s \<longleftrightarrow>
     dlist (kern s) h [] \<and> held L (kern s) = held L (kern s0) \<and> inj_on (val s) {..<i} \<and>
     val s ` {..<i} \<inter> valid K (kern s0) = {} \<and> allocated K (kern s) = allocated K (kern s0) \<union> val s ` {..<i} \<and>
     (\<forall>j<i. m_data s (val s j) = 10 * int j) \<and> klog s = klog s0 \<and> faults s = faults s0 \<and>
     rcu_nesting s = rcu_nesting s0 \<and> rcu_pending s = rcu_pending s0 \<and> rcu_loaded s = rcu_loaded s0"

context locked_rcu_api
begin

lemma rcu_reader_eq:
  "p \<in> valid K (kern s) \<Longrightarrow> rcu_reader K fmt p s = printk KERN_ERR fmt [Num (m_data s p)] s"
  by (simp add: rcu_reader_def rcu_read_lock_def rcu_read_unlock_def printk_def)

lemma rcu_reader_loop:
  assumes "dlist (kern s) h xs" and "set xs \<subseteq> valid K (kern s)"
  shows "list_for_each_entry K h (rcu_reader K fmt) s =
    Some (s\<lparr>klog := klog s @ value_lines fmt (map (m_data s) xs)\<rparr>)"
proof -
  have "kern (rcu_reader K fmt p s) = kern s" for p s
    by (simp add: rcu_reader_def rcu_read_lock_def rcu_read_unlock_def Let_def)
  then show ?thesis
    using for_each_entry_log [OF assms, where body = "rcu_reader K fmt" and lvl = KERN_ERR and fmt = fmt
        and args = "\<lambda>p s. [Num (m_data s p)]"]
    by (simp add: rcu_reader_eq value_lines_def comp_def)
qed

text \<open>The pushes under the lock: the nodes are on the list in reverse order, the lock is free again.\<close>

lemma rcu_add_loop:
  assumes "dlist (kern s) h xs" and "distinct (map (val s) is)" and "set (map (val s) is) \<inter> set (h # xs) = {}"
    and "set (map (val s) is) \<subseteq> valid K (kern s)" and "l \<notin> held L (kern s)"
  shows "\<exists>k. fold (rcu_add K L l h) is s = s\<lparr>kern := k\<rparr> \<and> dlist k h (rev (map (val s) is) @ xs) \<and>
    allocated K k = allocated K (kern s) \<and> held L k = held L (kern s)"
  using assms
proof (induction "is" arbitrary: s xs)
  case Nil
  then show ?case by (intro exI [of _ "kern s"]) simp
next
  case (Cons i "is")
  define k where "k = spin_unlock_op L l (list_add_rcu_op K (val s i) h (spin_lock_op L l (kern s)))"
  have step: "rcu_add K L l h i s = s\<lparr>kern := k\<rparr>"
    using Cons.prems
    by (simp add: rcu_add_def spin_lock_def spin_unlock_def list_add_rcu_def upd_kern_def held_add_rcu held_lock k_def)
  have k: "dlist k h (val s i # xs)" "allocated K k = allocated K (kern s)" "held L k = held L (kern s)"
    using Cons.prems
    by (auto simp: k_def dlist_spin_lock dlist_spin_unlock dlist_add_rcu held_add_rcu held_lock held_unlock)
  have "\<exists>k'. fold (rcu_add K L l h) is (s\<lparr>kern := k\<rparr>) = s\<lparr>kern := k\<rparr>\<lparr>kern := k'\<rparr> \<and>
      dlist k' h (rev (map (val s) is) @ val s i # xs) \<and> allocated K k' = allocated K k \<and> held L k' = held L k"
    using Cons.IH [of "s\<lparr>kern := k\<rparr>" "val s i # xs"] Cons.prems k by (auto simp: valid_def)
  then show ?case using step k by auto
qed

text \<open>The updating loop replaces the entry whose data is 10.\<close>

lemma rcu_update_loop:
  assumes ring: "dlist (kern s) h (as @ x # bs)" "set (as @ x # bs) \<subseteq> valid K (kern s)"
    and x: "m_data s x = 10" "\<forall>p\<in>set (as @ bs). m_data s p \<noteq> 10"
    and n: "n \<in> valid K (kern s)" "n \<notin> set (h # as @ x # bs)" and l: "l \<notin> held L (kern s)"
  shows "\<exists>k. list_for_each_entry K h (rcu_update K L l n) s =
      Some (s\<lparr>kern := k, m_data := (m_data s)(n := 1400)\<rparr>) \<and> dlist k h (as @ n # bs) \<and>
    allocated K k = allocated K (kern s) \<and> held L k = held L (kern s)"
proof -
  define k where "k = spin_unlock_op L l (list_replace_rcu_op K x n (spin_lock_op L l (kern s)))"
  define s' where "s' = s\<lparr>kern := k, m_data := (m_data s)(n := 1400)\<rparr>"
  have lk: "dlist (spin_lock_op L l (kern s)) h (as @ x # bs)" using ring by (simp add: dlist_spin_lock)
  have k: "dlist k h (as @ n # bs)" "allocated K k = allocated K (kern s)" "held L k = held L (kern s)"
    "list_next_op K x k = list_next_op K x (kern s)"
    using l dlist_replace_rcu [OF lk n(2)] next_replaced [OF lk n(2)]
    by (auto simp: k_def dlist_spin_unlock held_replace_rcu held_lock held_unlock next_spin_unlock next_spin_lock)
  have idle: "rcu_update K L l n p t = t" if "m_data t p \<noteq> 10" "p \<in> valid K (kern t)" for p t
    using that by (simp add: rcu_update_def rcu_read_lock_def rcu_read_unlock_def)
  have act: "rcu_update K L l n x s = s'"
    using x(1) ring n l
    by (simp add: rcu_update_def rcu_read_lock_def rcu_read_unlock_def spin_lock_def spin_unlock_def
        list_replace_rcu_def upd_kern_def held_replace_rcu held_lock k_def s'_def)
  have "list_for_each_entry K h (rcu_update K L l n) s = Some s'"
  proof (rule for_each_entry_one [where body = "rcu_update K L l n" and s = s and x = x, OF ring])
    show "dlist (kern s') h ((as @ [n]) @ bs)" using k by (simp add: s'_def)
  qed (use act k ring x n in \<open>auto simp: s'_def valid_def intro!: idle split: if_splits\<close>)
  then show ?thesis using k by (auto simp: s'_def)
qed

text \<open>The end of a grace period: nothing to do, or the deleted node is destroyed.\<close>

lemma rcu_gp_idle [simp]: "rcu_pending s = [] \<Longrightarrow> rcu_gp K gp pt s = s"
  by (simp add: rcu_gp_def rcu_grace_period_def)

lemma rcu_grace_period_waiting: "rcu_waiting K x s \<Longrightarrow> rcu_grace_period K s = rcu_ended K x s"
  using valid_nonnull [of x "kern s"]
  by (simp add: rcu_waiting_def rcu_grace_period_def rcu_callback_def destroy_old_structure_def kfree_def
      printk_def upd_kern_def rcu_ended_def destroy_lines_def valid_def)

lemma rcu_gp_waiting: "rcu_waiting K x s \<Longrightarrow> rcu_gp K gp pt s = (if gp pt then rcu_ended K x s else s)"
  by (simp add: rcu_gp_def rcu_grace_period_waiting)

lemma rcu_gp_walk_inv:
  assumes "rcu_walk_inv K dlist h x ys s"
  shows "rcu_walk_inv K dlist h x ys (rcu_gp K gp pt s)" and "m_data (rcu_gp K gp pt s) = m_data s"
proof -
  have "rcu_walk_inv K dlist h x ys (rcu_ended K x s)" if "rcu_waiting K x s"
    using assms that kfree_releases [of x "kern s"]
    by (auto simp: rcu_walk_inv_def rcu_ended_def rcu_waiting_def valid_def intro: dlist_kfree)
  then show "rcu_walk_inv K dlist h x ys (rcu_gp K gp pt s)" and "m_data (rcu_gp K gp pt s) = m_data s"
    using assms by (auto simp: rcu_walk_inv_def rcu_gp_waiting rcu_ended_def)
qed

text \<open>A walk over the list while the deleted node may be destroyed at any entry.\<close>

lemma rcu_walk:
  assumes inv: "rcu_walk_inv K dlist h x (as @ bs) s" "\<forall>p\<in>set bs. D (m_data s p)"
    and body: "\<And>p s. p \<in> set bs \<Longrightarrow> rcu_walk_inv K dlist h x (as @ bs) s \<Longrightarrow> D (m_data s p) \<Longrightarrow>
      rcu_walk_inv K dlist h x (as @ bs) (body p s) \<and> m_data (body p s) = m_data s"
  shows "list_walk K h body (hd (bs @ [h])) s = Some (fold body bs s)"
proof -
  let ?I = "\<lambda>cs t. rcu_walk_inv K dlist h x (as @ bs) t \<and> (\<exists>as'. as @ bs = as' @ cs) \<and> set cs \<subseteq> set bs \<and>
    (\<forall>p\<in>set bs. D (m_data t p))"
  have start: "?I bs s" using inv by auto
  have step: "c \<noteq> h \<and> c \<in> valid K (kern (body c t)) \<and> list_next_op K c (kern (body c t)) = hd (cs @ [h]) \<and>
      ?I cs (body c t)" if I: "?I (c # cs) t" for c cs t
  proof -
    obtain as' where as': "as @ bs = as' @ c # cs" using I by blast
    have t': "rcu_walk_inv K dlist h x (as @ bs) (body c t)" "m_data (body c t) = m_data t"
      using body [of c t] I by auto
    then have ring: "dlist (kern (body c t)) h (as' @ c # cs)" and "c \<in> valid K (kern (body c t))"
      by (auto simp: rcu_walk_inv_def as' simp del: append_assoc)
    moreover have "\<exists>as''. as @ bs = as'' @ cs" using as' by (intro exI [of _ "as' @ [c]"]) simp
    ultimately show ?thesis
      using dlist_distinct [OF ring] dlist_next [OF ring] I t' by auto
  qed
  show ?thesis by (rule list_walk_fold [where I = ?I, OF step start])
qed

text \<open>
  The deleting loop, when no grace period ends between \<open>call_rcu\<close> and the loop's next read: the
  entry whose data is 20 leaves the list, the lock is released, and the entry is queued for
  destruction or, when a grace period ends at one of the entries after it, destroyed.
\<close>

lemma rcu_delete_idle:
  "rcu_pending s = [] \<Longrightarrow> m_data s p \<noteq> 20 \<Longrightarrow> p \<in> valid K (kern s) \<Longrightarrow> rcu_delete K L l gp p s = s"
  by (simp add: rcu_delete_def)

lemma rcu_delete_passes:
  assumes "rcu_walk_inv K dlist h x ys s" and "m_data s p \<noteq> 20" and "p \<in> set ys"
  shows "rcu_delete K L l gp p s = rcu_gp K gp (In_delete p) s"
  using rcu_gp_walk_inv [OF assms(1), of gp "In_delete p"] assms(2,3)
  by (auto simp: rcu_delete_def rcu_walk_inv_def)

lemma rcu_delete_fold:
  assumes "rcu_walk_inv K dlist h x ys s" and "rcu_waiting K x s" and "set bs \<subseteq> set ys"
    and "\<forall>p\<in>set bs. m_data s p \<noteq> 20"
  shows "fold (rcu_delete K L l gp) bs s = (if \<exists>p\<in>set bs. gp (In_delete p) then rcu_ended K x s else s)"
  using assms(3,4)
proof (induction bs)
  case Nil
  then show ?case by simp
next
  case (Cons b bs)
  have idle: "fold (rcu_delete K L l gp) cs (rcu_ended K x s) = rcu_ended K x s"
    if "set cs \<subseteq> set ys" "\<forall>p\<in>set cs. m_data s p \<noteq> 20" for cs
    using that
  proof (induction cs)
    case (Cons c cs)
    have "rcu_walk_inv K dlist h x ys (rcu_ended K x s)"
      using rcu_gp_walk_inv(1) [OF assms(1), of "\<lambda>_. True"] assms(2) by (simp add: rcu_gp_waiting)
    then have "rcu_delete K L l gp c (rcu_ended K x s) = rcu_ended K x s"
      using Cons.prems by (intro rcu_delete_idle) (auto simp: rcu_walk_inv_def rcu_ended_def)
    then show ?case using Cons by simp
  qed simp
  show ?case
    using Cons idle [of bs] by (simp add: rcu_delete_passes [OF assms(1)] rcu_gp_waiting [OF assms(2)])
qed

lemma rcu_delete_loop:
  assumes ring: "dlist (kern s) h (as @ x # bs)" "set (as @ x # bs) \<subseteq> valid K (kern s)"
    and x: "m_data s x = 20" "\<forall>p\<in>set (as @ bs). m_data s p \<noteq> 20" "x \<in> allocated K (kern s)"
    and l: "l \<in> held L (kern s)" and gp: "\<not> gp After_call_rcu" and p: "rcu_pending s = []" "rcu_loaded s"
  obtains k t where "t = s\<lparr>kern := k, rcu_flag := 1, rcu_pending := [(x, Destroy_old_structure)]\<rparr>"
    "list_for_each_entry K h (rcu_delete K L l gp) s =
      Some (if \<exists>p\<in>set bs. gp (In_delete p) then rcu_ended K x t else t)"
    "rcu_walk_inv K dlist h x (as @ bs) t" "rcu_waiting K x t"
    "allocated K k = allocated K (kern s)" "held L k = held L (kern s) - {l}"
proof -
  define k where "k = spin_unlock_op L l (list_del_rcu_op K x (kern s))"
  define t where "t = s\<lparr>kern := k, rcu_flag := 1, rcu_pending := [(x, Destroy_old_structure)]\<rparr>"
  have k: "dlist k h (as @ bs)" "allocated K k = allocated K (kern s)" "held L k = held L (kern s) - {l}"
    "list_next_op K x k = hd (bs @ [h])"
    using l dlist_del_rcu [OF ring(1)] next_deleted [OF ring(1)] dlist_next [OF ring(1)]
    by (auto simp: k_def dlist_spin_unlock held_del_rcu held_unlock next_spin_unlock)
  have act: "rcu_delete K L l gp x s = t"
    using x(1) ring l gp p
    by (simp add: rcu_delete_def spin_unlock_def list_del_rcu_def call_rcu_def upd_kern_def held_del_rcu
        rcu_gp_def [of K gp After_call_rcu] k_def t_def)
  have w: "rcu_waiting K x t" using x p k(2) by (simp add: rcu_waiting_def t_def)
  then have inv: "rcu_walk_inv K dlist h x (as @ bs) t"
    using k ring dlist_distinct [OF ring(1)] by (auto simp: rcu_walk_inv_def t_def valid_def)
  have "list_for_each_entry K h (rcu_delete K L l gp) s = list_walk K h (rcu_delete K L l gp) x s"
    using list_walk_skip [of s h "[]" as "x # bs" "rcu_delete K L l gp"] ring x(2) p
    by (simp add: list_for_each_entry_def dlist_next_head rcu_delete_idle subset_iff)
  also have "\<dots> = list_walk K h (rcu_delete K L l gp) (hd (bs @ [h])) t"
    using dlist_distinct [OF ring(1)] x(3) k(2,4)
    by (subst list_walk.simps) (simp add: act t_def valid_def)
  also have "\<dots> = Some (fold (rcu_delete K L l gp) bs t)"
    by (rule rcu_walk [OF inv, where D = "\<lambda>d. d \<noteq> 20"])
      (use x(2) in \<open>auto simp: t_def rcu_delete_passes rcu_gp_walk_inv\<close>)
  also have "fold (rcu_delete K L l gp) bs t = (if \<exists>p\<in>set bs. gp (In_delete p) then rcu_ended K x t else t)"
    using rcu_delete_fold [OF inv w, of bs] x(2) by (simp add: t_def)
  finally show thesis using that inv w k t_def by blast
qed

text \<open>
  The last reading loop: it prints every entry of the list, and the callback's lines come in
  between when a grace period ends at one of them.
\<close>

lemma rcu_last_reader_idle:
  assumes "rcu_pending s = []" and "set ys \<subseteq> valid K (kern s)"
  shows "fold (rcu_last_reader K gp) ys s = s\<lparr>klog := klog s @ value_lines ''value(2) = %d'' (map (m_data s) ys)\<rparr>"
  using assms
  by (induction ys arbitrary: s) (simp_all add: rcu_last_reader_def rcu_reader_eq printk_def value_lines_def)

lemma rcu_last_reader_fold:
  assumes "rcu_walk_inv K dlist h x zs s" and "rcu_waiting K x s" and "set ys \<subseteq> set zs"
  shows "fold (rcu_last_reader K gp) ys s =
    (if rcu_ends gp [] ys < length ys then rcu_ended K x s else s)\<lparr>klog := klog s @
      insert_at (rcu_ends gp [] ys) destroy_lines (value_lines ''value(2) = %d'' (map (m_data s) ys))\<rparr>"
  using assms
proof (induction ys arbitrary: s)
  case Nil
  then show ?case by (simp add: rcu_ends_def insert_at_def value_lines_def)
next
  case (Cons y ys)
  have yv: "set (y # ys) \<subseteq> valid K (kern s)" using Cons.prems by (auto simp: rcu_walk_inv_def)
  have yv': "set (y # ys) \<subseteq> valid K (kern (rcu_ended K x s))"
    using Cons.prems rcu_gp_walk_inv(1) [OF Cons.prems(1), of "\<lambda>_. True"]
    by (auto simp: rcu_gp_waiting rcu_walk_inv_def)
  show ?case
  proof (cases "gp (In_readers y)")
    case True
    then have "fold (rcu_last_reader K gp) (y # ys) s = fold (rcu_last_reader K gp) (y # ys) (rcu_ended K x s)"
      using Cons.prems(2) by (simp add: rcu_last_reader_def rcu_gp_waiting rcu_ended_def)
    also have "\<dots> = (rcu_ended K x s)\<lparr>klog := klog s @ destroy_lines @
        value_lines ''value(2) = %d'' (map (m_data s) (y # ys))\<rparr>"
      using rcu_last_reader_idle [OF _ yv'] by (simp add: rcu_ended_def)
    finally show ?thesis using True by (simp add: rcu_ends_def insert_at_def value_lines_def)
  next
    case False
    let ?s = "s\<lparr>klog := klog s @ [Line KERN_ERR ''value(2) = %d'' [Num (m_data s y)]]\<rparr>"
    have s1: "rcu_last_reader K gp y s = ?s"
      using False Cons.prems(2) yv by (simp add: rcu_last_reader_def rcu_gp_waiting rcu_reader_eq printk_def)
    have "rcu_walk_inv K dlist h x zs ?s" "rcu_waiting K x ?s"
      using Cons.prems(1,2) by (simp_all add: rcu_walk_inv_def rcu_waiting_def)
    from Cons.IH [OF this] show ?thesis
      using False Cons.prems(3)
      by (auto simp: s1 rcu_ends_def insert_at_def value_lines_def rcu_ended_def)
  qed
qed

lemma rcu_last_reader_loop:
  assumes inv: "rcu_walk_inv K dlist h x ys s" and w: "rcu_waiting K x s" and bs: "set bs \<subseteq> set ys"
  shows "list_for_each_entry K h (rcu_last_reader K gp) (if \<exists>p\<in>set bs. gp (In_delete p) then rcu_ended K x s else s) =
    Some ((if rcu_ends gp bs ys < length ys then rcu_ended K x s else s)\<lparr>klog := klog s @
      insert_at (rcu_ends gp bs ys) destroy_lines (value_lines ''value(2) = %d'' (map (m_data s) ys))\<rparr>)"
proof -
  have step: "rcu_walk_inv K dlist h x ys (rcu_last_reader K gp p t) \<and> m_data (rcu_last_reader K gp p t) = m_data t"
    if "p \<in> set ys" "rcu_walk_inv K dlist h x ys t" for p t
  proof -
    have "p \<in> valid K (kern (rcu_gp K gp (In_readers p) t))"
      using rcu_gp_walk_inv(1) [OF that(2), of gp "In_readers p"] that(1) by (auto simp: rcu_walk_inv_def)
    then show ?thesis
      using rcu_gp_walk_inv [OF that(2), of gp "In_readers p"]
      by (simp add: rcu_last_reader_def rcu_reader_eq rcu_walk_inv_def rcu_waiting_def printk_def)
  qed
  have walk: "list_for_each_entry K h (rcu_last_reader K gp) t = Some (fold (rcu_last_reader K gp) ys t)"
    if t: "rcu_walk_inv K dlist h x ys t" for t
    using rcu_walk [of h x "[]" ys t "\<lambda>_. True" "rcu_last_reader K gp"] t step
    by (auto simp: list_for_each_entry_def rcu_walk_inv_def dlist_next_head)
  show ?thesis
  proof (cases "\<exists>p\<in>set bs. gp (In_delete p)")
    case True
    have inv': "rcu_walk_inv K dlist h x ys (rcu_ended K x s)"
      using rcu_gp_walk_inv(1) [OF inv, of "\<lambda>_. True"] w by (simp add: rcu_gp_waiting)
    have ne: "ys \<noteq> []" using True bs by auto
    show ?thesis
      using True walk [OF inv'] rcu_last_reader_idle [of "rcu_ended K x s" ys gp] inv' ne
      by (simp add: rcu_walk_inv_def rcu_ends_def insert_at_def rcu_ended_def value_lines_def)
  next
    case False
    then show ?thesis
      using walk [OF inv] rcu_last_reader_fold [OF inv w, of ys gp] by (simp add: rcu_ends_def)
  qed
qed

text \<open>The phases of \<open>start\<close> once the five nodes are on the list.\<close>

lemma rcu_phases:
  assumes ring: "dlist (kern s) h [v4, v3, v2, v1, v0]" "{v0, v1, v2, v3, v4} \<subseteq> valid K (kern s)"
    and data: "m_data s v0 = 0" "m_data s v1 = 10" "m_data s v2 = 20" "m_data s v3 = 30" "m_data s v4 = 40"
    and n: "n \<in> valid K (kern s)" "n \<notin> {h, v0, v1, v2, v3, v4}" and l: "l \<notin> held L (kern s)"
    and gp: "\<not> gp After_call_rcu" "rcu_pending s = []" "rcu_loaded s" "v2 \<in> allocated K (kern s)"
  defines "e \<equiv> rcu_ends gp [n, v0] [v4, v3, n, v0]"
  obtains s1 s2 s3 s4 s5 k4 where
    "list_for_each_entry K h (rcu_reader K ''value(0) = %d'') s = Some s1"
    "list_for_each_entry K h (rcu_update K L l n) s1 = Some s2"
    "list_for_each_entry K h (rcu_reader K ''value(1) = %d'') s2 = Some s3"
    "list_for_each_entry K h (rcu_delete K L l gp) (spin_lock L l (s3\<lparr>rcu_flag := 0\<rparr>)) = Some s4"
    "list_for_each_entry K h (rcu_last_reader K gp) s4 = Some s5"
    "rcu_nesting s1 = rcu_nesting s" "rcu_nesting s2 = rcu_nesting s" "rcu_flag s4 = 1"
    "s5 = s\<lparr>kern := k4, klog := klog s @ value_lines ''value(0) = %d'' [40, 30, 20, 10, 0] @
        value_lines ''value(1) = %d'' [40, 30, 20, 1400, 0] @
        insert_at e destroy_lines (value_lines ''value(2) = %d'' [40, 30, 1400, 0]),
      m_data := (m_data s)(n := 1400), rcu_flag := 1,
      rcu_pending := if e < 4 then [] else [(v2, Destroy_old_structure)]\<rparr>"
    "dlist k4 h [v4, v3, n, v0]" "allocated K k4 = allocated K (kern s) - (if e < 4 then {v2} else {})"
    "held L k4 = held L (kern s)"
proof -
  define l0 where "l0 = klog s @ value_lines ''value(0) = %d'' [40, 30, 20, 10, 0]"
  define l1 where "l1 = l0 @ value_lines ''value(1) = %d'' [40, 30, 20, 1400, 0]"
  define l2 where "l2 = l1 @ insert_at e destroy_lines (value_lines ''value(2) = %d'' [40, 30, 1400, 0])"
  define d where "d = (m_data s)(n := 1400)"
  define s1 where "s1 = s\<lparr>klog := l0\<rparr>"
  have r0: "list_for_each_entry K h (rcu_reader K ''value(0) = %d'') s = Some s1"
    using rcu_reader_loop [OF ring(1)] ring(2) data by (simp add: l0_def s1_def)
  obtain k2 where k2: "list_for_each_entry K h (rcu_update K L l n) s1 = Some (s1\<lparr>kern := k2, m_data := d\<rparr>)"
    "dlist k2 h [v4, v3, v2, n, v0]" "allocated K k2 = allocated K (kern s)" "held L k2 = held L (kern s)"
    using rcu_update_loop [of s1 h "[v4, v3, v2]" v1 "[v0]" n l] ring data n l
    by (auto simp: d_def s1_def)
  have sub: "valid K k2 = valid K (kern s)" using k2(3) by (simp add: valid_def)
  have dv: "d v0 = 0" "d v2 = 20" "d v3 = 30" "d v4 = 40" "d n = 1400"
    using data n by (auto simp: d_def)
  define s2 where "s2 = s1\<lparr>kern := k2, m_data := d\<rparr>"
  define s3 where "s3 = s2\<lparr>klog := l1\<rparr>"
  have r1: "list_for_each_entry K h (rcu_reader K ''value(1) = %d'') s2 = Some s3"
    using rcu_reader_loop [of s2 h "[v4, v3, v2, n, v0]"] k2(2) sub ring(2) n dv by (simp add: l1_def s2_def s3_def s1_def)
  define k3 where "k3 = spin_lock_op L l k2"
  define t where "t = s3\<lparr>kern := k3, rcu_flag := 0\<rparr>"
  have lock: "spin_lock L l (s3\<lparr>rcu_flag := 0\<rparr>) = t"
    using l k2(4) by (simp add: spin_lock_def upd_kern_def k3_def t_def s3_def s2_def)
  have k3: "dlist k3 h [v4, v3, v2, n, v0]" "allocated K k3 = allocated K (kern s)" "valid K k3 = valid K (kern s)"
    "held L k3 = insert l (held L (kern s))"
    using k2 l sub by (auto simp: k3_def dlist_spin_lock held_lock)
  have tf: "kern t = k3" "m_data t = d" "klog t = l1" "rcu_pending t = []" "rcu_loaded t" "rcu_nesting t = rcu_nesting s"
    using gp by (simp_all add: t_def s3_def s2_def s1_def)
  obtain k4 u where u: "u = t\<lparr>kern := k4, rcu_flag := 1, rcu_pending := [(v2, Destroy_old_structure)]\<rparr>"
    and del: "list_for_each_entry K h (rcu_delete K L l gp) t =
      Some (if \<exists>p\<in>set [n, v0]. gp (In_delete p) then rcu_ended K v2 u else u)"
    and inv: "rcu_walk_inv K dlist h v2 [v4, v3, n, v0] u" and w: "rcu_waiting K v2 u"
    and k4: "allocated K k4 = allocated K (kern s)" "held L k4 = held L (kern s)"
    by (rule rcu_delete_loop [of t h "[v4, v3]" v2 "[n, v0]" l gp])
      (use k3 ring(2) n dv l gp tf in auto)
  define s4 where "s4 = (if \<exists>p\<in>set [n, v0]. gp (In_delete p) then rcu_ended K v2 u else u)"
  define s5 where "s5 = (if e < 4 then rcu_ended K v2 u else u)\<lparr>klog := l2\<rparr>"
  have r2: "list_for_each_entry K h (rcu_last_reader K gp) s4 = Some s5"
    using rcu_last_reader_loop [OF inv w, of "[n, v0]" gp] tf dv by (simp add: s4_def s5_def u l2_def e_def)
  have flag: "rcu_flag s4 = 1" by (simp add: s4_def u rcu_ended_def)
  define k5 where "k5 = (if e < 4 then kfree_op K v2 k4 else k4)"
  have k5: "dlist k5 h [v4, v3, n, v0]" "allocated K k5 = allocated K (kern s) - (if e < 4 then {v2} else {})"
    "held L k5 = held L (kern s)"
    using inv k4 gp(4) kfree_releases [of v2 k4]
    by (auto simp: k5_def u rcu_walk_inv_def held_kfree intro: dlist_kfree)
  have s5: "s5 = s\<lparr>kern := k5, klog := l2, m_data := d, rcu_flag := 1,
      rcu_pending := if e < 4 then [] else [(v2, Destroy_old_structure)]\<rparr>"
    by (simp add: s5_def k5_def u rcu_ended_def t_def s3_def s2_def s1_def)
  show thesis
    by (rule that [of _ _ _ _ _ k5, OF r0 k2(1) [folded s2_def] r1 del [folded lock s4_def] r2 _ _ flag _ k5])
      (simp_all add: s5 s2_def s1_def l0_def l1_def l2_def d_def)
qed

lemma rcu_rest_ok:
  assumes inv: "rcu_alloc_inv K dlist L h s0 5 s" and nest: "rcu_nesting s0 = 0"
    and st: "h \<in> statics K" "n \<in> statics K" "n \<noteq> h" and l: "l \<notin> held L (kern s0)"
    and gp: "\<not> gp After_call_rcu" "rcu_pending s0 = []" "rcu_loaded s0"
  defines "e \<equiv> rcu_ends gp [n, val s 0] [val s 4, val s 3, n, val s 0]"
  shows "\<exists>s'. rcu_rest K L l h n gp s = Some (0, s') \<and> faults s' = faults s0 \<and>
    klog s' = klog s0 @ value_lines ''value(0) = %d'' [40, 30, 20, 10, 0] @
      value_lines ''value(1) = %d'' [40, 30, 20, 1400, 0] @
      insert_at e destroy_lines (value_lines ''value(2) = %d'' [40, 30, 1400, 0]) \<and>
    val s' = val s \<and> m_data s' = (m_data s)(n := 1400) \<and> rcu_nesting s' = 0 \<and>
    rcu_pending s' = (if e < 4 then [] else [(val s 2, Destroy_old_structure)]) \<and> rcu_loaded s' = rcu_loaded s0 \<and>
    dlist (kern s') h [val s 4, val s 3, n, val s 0] \<and> held L (kern s') = held L (kern s0) \<and>
    allocated K (kern s') = allocated K (kern s0) \<union> val s ` {..<5} - (if e < 4 then {val s 2} else {})"
proof -
  let ?v = "val s"
  have ns: "map ?v [0..<5] = [?v 0, ?v 1, ?v 2, ?v 3, ?v 4]"
    by (simp add: upt_rec numeral_eq_Suc)
  have range: "?v ` {..<5} = set (map ?v [0..<5])" by (simp add: atLeast0LessThan)
  have base: "dlist (kern s) h []" "l \<notin> held L (kern s)" "held L (kern s) = held L (kern s0)"
    "set (map ?v [0..<5]) \<inter> valid K (kern s0) = {}" "distinct (map ?v [0..<5])"
    "allocated K (kern s) = allocated K (kern s0) \<union> set (map ?v [0..<5])"
    using inv l unfolding rcu_alloc_inv_def range by (auto simp: distinct_map atLeast0LessThan simp del: upt_rec_numeral)
  have sub: "set (map ?v [0..<5]) \<subseteq> valid K (kern s)" and hs: "set (map ?v [0..<5]) \<inter> set [h] = {}"
    and nn: "n \<notin> set (map ?v [0..<5])"
    using base(4,6) st by (auto simp: valid_def simp del: upt_rec_numeral)
  obtain k1 where k1: "fold (rcu_add K L l h) [0..<5] s = s\<lparr>kern := k1\<rparr>"
      "dlist k1 h [?v 4, ?v 3, ?v 2, ?v 1, ?v 0]"
    "allocated K k1 = allocated K (kern s)" "held L k1 = held L (kern s)"
    using rcu_add_loop [OF base(1,5) hs sub base(2)] unfolding ns by auto
  have vals: "m_data s (?v 0) = 0" "m_data s (?v 1) = 10" "m_data s (?v 2) = 20" "m_data s (?v 3) = 30"
    "m_data s (?v 4) = 40" and rest: "klog s = klog s0" "faults s = faults s0" "rcu_nesting s = 0"
    "rcu_pending s = rcu_pending s0" "rcu_loaded s = rcu_loaded s0"
    using inv nest by (auto simp: rcu_alloc_inv_def)
  have nodes: "{?v 0, ?v 1, ?v 2, ?v 3, ?v 4} \<subseteq> valid K k1" "n \<in> valid K k1" "n \<notin> {h, ?v 0, ?v 1, ?v 2, ?v 3, ?v 4}"
    "l \<notin> held L k1" "?v 2 \<in> allocated K k1"
    using sub nn st base k1(3,4) unfolding ns by (auto simp: valid_def)
  show ?thesis
    by (rule rcu_phases [of "s\<lparr>kern := k1\<rparr>" h "?v 4" "?v 3" "?v 2" "?v 1" "?v 0" n l gp])
      (use k1 vals nodes rest gp base(3,6) in \<open>simp_all add: rcu_rest_def synchronize_rcu_def range e_def
        del: One_nat_def upt_rec_numeral list.set_map\<close>)
qed

lemma rcu_alloc_step:
  assumes "rcu_alloc_inv K dlist L h s0 i s"
  shows "case rcu_alloc K i s of
      Inl (r, s') \<Rightarrow> r = -1 \<and> klog s' = klog s0 @ [Line KERN_INFO ''Malloc failed for %d'' [Num (int i)]] \<and>
        faults s' = faults s0 \<and> allocated K (kern s') = allocated K (kern s0) \<union> val s ` {..<i} \<and>
        inj_on (val s) {..<i} \<and> val s ` {..<i} \<inter> allocated K (kern s0) = {} \<and> held L (kern s') = held L (kern s0)
    | Inr s' \<Rightarrow> rcu_alloc_inv K dlist L h s0 (Suc i) s'"
proof -
  obtain p s1 where m: "kmalloc K sizeof_mylist s = (p, s1)" by fastforce
  show ?thesis
    using m
  proof (cases rule: kmalloc_cases)
    case (1 k)
    then show ?thesis
      using assms m by (auto simp: rcu_alloc_def rcu_alloc_inv_def valid_def held_kmalloc)
  next
    case (2 k)
    have "p \<in> valid K k" using 2 by (simp add: valid_def)
    moreover have "dlist k h []" using 2 assms dlist_kmalloc by (auto simp: rcu_alloc_inv_def)
    moreover have "p \<notin> val s ` {..<i}" "p \<notin> valid K (kern s0)"
      using 2(2) assms by (auto simp: rcu_alloc_inv_def valid_def)
    ultimately show ?thesis
      using assms m 2
      by (auto simp: rcu_alloc_def rcu_alloc_inv_def lessThan_Suc inj_on_def less_Suc_eq held_kmalloc)
  qed
qed

text \<open>The whole of \<open>start\<close>: the log it has written and what it leaves, on both paths.\<close>

lemma rcu_start_cases:
  assumes st: "h \<in> statics K" "n \<in> statics K" "n \<noteq> h"
    and init: "dlist (kern s) h []" "l \<notin> held L (kern s)" "rcu_nesting s = 0" "rcu_pending s = []" "rcu_loaded s"
    and gp: "\<not> gp After_call_rcu"
  obtains (success) s' e where "rcu_start K L l h n gp s = Some (0, s')" "faults s' = faults s"
      "e = rcu_ends gp [n, val s' 0] [val s' 4, val s' 3, n, val s' 0]"
      "klog s' = klog s @ Line KERN_INFO ''Hello!'' [] # value_lines ''value(0) = %d'' [40, 30, 20, 10, 0] @
        value_lines ''value(1) = %d'' [40, 30, 20, 1400, 0] @
        insert_at e destroy_lines (value_lines ''value(2) = %d'' [40, 30, 1400, 0])"
      "inj_on (val s') {..<5}" "val s' ` {..<5} \<inter> valid K (kern s) = {}" "m_data s' (val s' 2) = 20"
      "rcu_nesting s' = 0" "rcu_pending s' = (if e < 4 then [] else [(val s' 2, Destroy_old_structure)])"
      "rcu_loaded s'"
      "dlist (kern s') h [val s' 4, val s' 3, n, val s' 0]" "held L (kern s') = held L (kern s)"
      "allocated K (kern s') = allocated K (kern s) \<union> val s' ` {..<5} - (if e < 4 then {val s' 2} else {})"
  | (no_memory) s' i V where "rcu_start K L l h n gp s = Some (-1, s')" "faults s' = faults s" "i < 5"
      "klog s' = klog s @ [Line KERN_INFO ''Hello!'' [], Line KERN_INFO ''Malloc failed for %d'' [Num (int i)]]"
      "allocated K (kern s') = allocated K (kern s) \<union> V" "V \<inter> allocated K (kern s) = {}" "card V = i"
      "held L (kern s') = held L (kern s)"
proof -
  define s0 where "s0 = printk KERN_INFO ''Hello!'' [] s"
  have s0: "kern s0 = kern s" "klog s0 = klog s @ [Line KERN_INFO ''Hello!'' []]" "faults s0 = faults s"
    "rcu_nesting s0 = rcu_nesting s" "rcu_pending s0 = rcu_pending s" "rcu_loaded s0 = rcu_loaded s"
    by (simp_all add: s0_def printk_def)
  let ?Q = "\<lambda>(r, s'). \<exists>i<5. \<exists>V. r = -1 \<and> faults s' = faults s \<and>
      klog s' = klog s0 @ [Line KERN_INFO ''Malloc failed for %d'' [Num (int i)]] \<and>
      allocated K (kern s') = allocated K (kern s) \<union> V \<and> V \<inter> allocated K (kern s) = {} \<and> card V = i \<and>
      held L (kern s') = held L (kern s)"
  have loop: "case c_for [0..<5] (rcu_alloc K) s0 of Inl r \<Rightarrow> ?Q r | Inr t \<Rightarrow> rcu_alloc_inv K dlist L h s0 5 t"
  proof (rule c_for_rule)
    show "rcu_alloc_inv K dlist L h s0 0 s0" using init by (simp add: rcu_alloc_inv_def s0)
  next
    fix i :: nat and t
    assume i: "i < 5" and inv: "rcu_alloc_inv K dlist L h s0 i t"
    have card: "inj_on (val t) {..<i} \<Longrightarrow> card (val t ` {..<i}) = i" by (simp add: card_image)
    show "case rcu_alloc K i t of Inl r \<Rightarrow> ?Q r | Inr t' \<Rightarrow> rcu_alloc_inv K dlist L h s0 (Suc i) t'"
      using rcu_alloc_step [OF inv] i card by (auto simp: s0 split: sum.splits)
  qed
  show thesis
  proof (cases "c_for [0..<5] (rcu_alloc K) s0")
    case (Inl r)
    then have "rcu_start K L l h n gp s = Some r" by (simp add: rcu_start_def s0_def)
    then show thesis using no_memory Inl loop by (cases r) (auto simp: s0)
  next
    case (Inr t)
    then have run: "rcu_start K L l h n gp s = rcu_rest K L l h n gp t"
      by (simp add: rcu_start_def s0_def)
    have inv: "rcu_alloc_inv K dlist L h s0 5 t" using loop Inr by simp
    then have vals: "val t ` {..<5} \<inter> valid K (kern s) = {}" "inj_on (val t) {..<5}" "m_data t (val t 2) = 20"
      by (auto simp: rcu_alloc_inv_def s0)
    then have "val t i \<notin> valid K (kern s)" if "i < 5" for i using that by auto
    from this [of 2] have "n \<noteq> val t 2" using st by (auto simp: valid_def)
    moreover obtain s' where "rcu_rest K L l h n gp t = Some (0, s')" and s':
      "faults s' = faults s" "rcu_nesting s' = 0" "rcu_loaded s'" "val s' = val t" "m_data s' = (m_data t)(n := 1400)"
      "klog s' = klog s0 @ value_lines ''value(0) = %d'' [40, 30, 20, 10, 0] @
        value_lines ''value(1) = %d'' [40, 30, 20, 1400, 0] @
        insert_at (rcu_ends gp [n, val t 0] [val t 4, val t 3, n, val t 0]) destroy_lines (value_lines ''value(2) = %d'' [40, 30, 1400, 0])"
      "dlist (kern s') h [val t 4, val t 3, n, val t 0]" "held L (kern s') = held L (kern s)"
      "rcu_pending s' = (if rcu_ends gp [n, val t 0] [val t 4, val t 3, n, val t 0] < 4 then [] else [(val t 2, Destroy_old_structure)])"
      "allocated K (kern s') = allocated K (kern s) \<union> val t ` {..<5} -
        (if rcu_ends gp [n, val t 0] [val t 4, val t 3, n, val t 0] < 4 then {val t 2} else {})"
      using rcu_rest_ok [OF inv _ st, of l gp] gp init unfolding s0 by blast
    ultimately show thesis
      using run vals by (intro success [of s', OF _ _ refl]) (simp_all add: s0)
  qed
qed

text \<open>
  The end of a grace period after \<open>start\<close>: the deleted node is destroyed unless it has been
  already, and the replaced node stays.
\<close>

lemma rcu_after_start:
  assumes p: "rcu_pending s' = (if e then [] else [(val s' 2, Destroy_old_structure)])" and loaded: "rcu_loaded s'"
    and inj: "inj_on (val s') {..<5}"
    and fresh: "val s' ` {..<5} \<inter> valid K (kern s) = {}" and d: "m_data s' (val s' 2) = 20"
    and ring: "dlist (kern s') h [val s' 4, val s' 3, n, val s' 0]" and st: "h \<in> statics K" "n \<in> statics K"
    and alloc: "allocated K (kern s') = allocated K (kern s) \<union> val s' ` {..<5} - (if e then {val s' 2} else {})"
  defines "s'' \<equiv> rcu_unload (rcu_grace_period K s')"
  shows "faults s'' = faults s'" and "rcu_pending s'' = []"
    and "faults (rcu_grace_period K (rcu_unload s')) = faults s' @ (if e then [] else [UnloadedCode])"
    and "klog s'' = klog s' @ (if e then [] else destroy_lines) @ [Line KERN_INFO ''Goodbye'' []]"
    and "allocated K (kern s'') = allocated K (kern s) \<union> {val s' 0, val s' 1, val s' 3, val s' 4}"
    and "val s' 2 \<notin> allocated K (kern s'')"
    and "dlist (kern s'') h [val s' 4, val s' 3, n, val s' 0]"
    and "val s' 1 \<notin> set [val s' 4, val s' 3, n, val s' 0]"
proof -
  have five: "{..<5::nat} = {0, 1, 2, 3, 4}" by auto
  have ne: "val s' i \<noteq> val s' j" if "i < 5" "j < 5" "i \<noteq> j" for i j
    using inj that by (auto simp: inj_on_def)
  have nv: "val s' i \<notin> valid K (kern s)" if "i < 5" for i using fresh that by auto
  then have no: "val s' i \<noteq> n" "val s' i \<noteq> h" if "i < 5" for i
    using that st by (auto simp: valid_def)
  have w: "rcu_waiting K (val s' 2) s'" if "\<not> e"
    using that p loaded d alloc by (simp add: rcu_waiting_def)
  then have run: "rcu_grace_period K s' = (if e then s' else rcu_ended K (val s' 2) s')"
    using p by (cases e) (simp add: rcu_grace_period_def, simp only: rcu_grace_period_waiting if_False simp_thms)
  have null: "val s' 2 \<noteq> NULL" if "\<not> e" using w [OF that] valid_nonnull [of "val s' 2" "kern s'"]
    by (simp add: rcu_waiting_def valid_def)
  show "faults (rcu_grace_period K (rcu_unload s')) = faults s' @ (if e then [] else [UnloadedCode])"
    using w null p by (cases e) (simp_all add: rcu_grace_period_def rcu_callback_def rcu_unload_def rcu_end_def
        destroy_old_structure_def kfree_def Let_def env_defs deref_def rcu_waiting_def valid_def)
  show "faults s'' = faults s'" "rcu_pending s'' = []"
    "klog s'' = klog s' @ (if e then [] else destroy_lines) @ [Line KERN_INFO ''Goodbye'' []]"
    using p by (simp_all add: s''_def rcu_unload_def rcu_end_def run env_defs rcu_ended_def)
  have k: "kern s'' = (if e then kern s' else kfree_op K (val s' 2) (kern s'))"
    by (simp add: s''_def rcu_unload_def rcu_end_def run rcu_ended_def)
  have out: "val s' 2 \<notin> allocated K (kern s)" "val s' 2 \<notin> {val s' 0, val s' 1, val s' 3, val s' 4}"
    using nv [of 2] ne [of 2 0] ne [of 2 1] ne [of 2 3] ne [of 2 4] by (simp_all add: valid_def)
  have "allocated K (kern s'') = allocated K (kern s) \<union> val s' ` {..<5} - {val s' 2}"
    using alloc w kfree_releases [of "val s' 2" "kern s'"] by (simp add: k rcu_waiting_def)
  moreover have "val s' ` {..<5} = insert (val s' 2) {val s' 0, val s' 1, val s' 3, val s' 4}"
    unfolding five by auto
  ultimately show eq: "allocated K (kern s'') = allocated K (kern s) \<union> {val s' 0, val s' 1, val s' 3, val s' 4}"
    using out by (simp only: insert_union_Diff not_False_eq_True)
  show "val s' 2 \<notin> allocated K (kern s'')" using out unfolding eq by simp
  show "dlist (kern s'') h [val s' 4, val s' 3, n, val s' 0]"
    using ne [of 2 0] ne [of 2 3] ne [of 2 4] no [of 2] by (auto simp: k intro!: dlist_kfree ring)
  show "val s' 1 \<notin> set [val s' 4, val s' 3, n, val s' 0]"
    using ne [of 1 0] ne [of 1 3] ne [of 1 4] no [of 1] by auto
qed

text \<open>A grace period that ends between \<open>call_rcu\<close> and the next read of the deleting loop.\<close>

lemma rcu_delete_early:
  assumes p: "p \<in> allocated K (kern s)" and d: "m_data s p = 20" and l: "l \<in> held L (kern s)"
    and "rcu_pending s = []" and "rcu_loaded s" and gp: "gp After_call_rcu"
  shows "faults (rcu_delete K L l gp p s) = faults s"
    and "faults (deref K p (rcu_delete K L l gp p s)) = faults s @ [UseAfterFree p]"
proof -
  define k where "k = spin_unlock_op L l (list_del_rcu_op K p (kern s))"
  define t where "t = s\<lparr>rcu_flag := 1, kern := k, rcu_pending := [(p, Destroy_old_structure)]\<rparr>"
  have v: "p \<in> valid K (kern s)" using p by (simp add: valid_def)
  then have "p \<noteq> NULL" by (rule valid_nonnull)
  note v = v this
  have k: "allocated K k = allocated K (kern s)" by (simp add: k_def)
  have w: "rcu_waiting K p t" using p d k assms(5) by (simp add: rcu_waiting_def t_def)
  have "rcu_delete K L l gp p s = rcu_gp K gp After_call_rcu t"
    using v d l assms(4)
    by (simp add: rcu_delete_def list_del_rcu_def spin_unlock_def held_del_rcu call_rcu_def upd_kern_def k_def t_def)
  then have run: "rcu_delete K L l gp p s = rcu_ended K p t" using gp by (simp add: rcu_gp_waiting [OF w])
  then show "faults (rcu_delete K L l gp p s) = faults s" by (simp add: rcu_ended_def t_def)
  have "p \<notin> valid K (kfree_op K p k)"
    using kfree_releases [of p k] p k statics_not_allocated by (auto simp: valid_def)
  then show "faults (deref K p (rcu_delete K L l gp p s)) = faults s @ [UseAfterFree p]"
    using v by (simp add: run deref_def rcu_ended_def t_def)
qed

end

section \<open>Runs on the reference kernel\<close>

definition rcu_boot :: "nat \<Rightarrow> ref_kernel rcu" where
  "rcu_boot m = \<lparr>kern = ref_init 10 (ref_boot m), klog = [], faults = [], m_data = (\<lambda>_. 0), val = (\<lambda>_. 0),
     rcu_flag = 0, rcu_nesting = 0, rcu_pending = [], rcu_loaded = True\<rparr>"

lemma rcu_boot_simps [simp]:
  "klog (rcu_boot m) = []" "faults (rcu_boot m) = []" "allocated ref_ops (kern (rcu_boot m)) = {}"
  "held ref_locks (kern (rcu_boot m)) = {}" "rcu_nesting (rcu_boot m) = 0" "rcu_pending (rcu_boot m) = []"
  "rcu_loaded (rcu_boot m)"
  "ring (kern (rcu_boot m)) 10 []"
  by (simp_all add: rcu_boot_def ring_init) (simp_all add: ref_eval)

lemma rcu_boot_success: "rcu_start ref_ops ref_locks 12 10 11 gp (rcu_boot 5) \<noteq> Some (-1, s')"
proof -
  have "\<not> isl (c_for [0..<5] (rcu_alloc ref_ops) (pr_info ''Hello!'' [] (rcu_boot 5)))"
    by (simp add: rcu_boot_def rcu_alloc_def ref_eval printk_def)
  moreover have "rcu_rest ref_ops ref_locks 12 10 11 gp t \<noteq> Some (-1, s')" for t
    by (simp add: rcu_rest_def Let_def split: bind_splits)
  ultimately show ?thesis by (auto simp: rcu_start_def split: sum.splits)
qed

section \<open>Properties\<close>

text \<open>
  C7. Whenever the grace periods end, except for one that ends between \<open>call_rcu\<close> and the next read
  of the deleting loop, \<open>start\<close> of the RCU module returns and commits no fault, every critical
  section and read-side section is left again, and either it returns 0 having printed 40 30 20 10 0,
  then 40 30 20 1400 0, then 40 30 1400 0, with the list now the nodes 4 and 3, the static node and
  node 0; node 2 waits for its destruction, or, when a grace period has ended before the \<open>e\<close>-th
  of the last four values was read, it has been freed and the callback's lines are in the log at that
  place. Or allocation \<open>i\<close> fails, it returns -1 and the \<open>i\<close> objects allocated before stay allocated.
\<close>

theorem rcu_start_correct:
  assumes "locked_rcu_api K dlist L" and "head \<in> statics K" and "new_node \<in> statics K" and "new_node \<noteq> head"
    and "dlist (kern s) head []" and "lock \<notin> held L (kern s)" and "rcu_nesting s = 0" and "rcu_pending s = []"
    and "rcu_loaded s" and "\<not> gp After_call_rcu"
  shows "\<exists>r s'. rcu_start K L lock head new_node gp s = Some (r, s') \<and> faults s' = faults s \<and>
    held L (kern s') = held L (kern s) \<and>
    (r = 0 \<and> rcu_nesting s' = 0 \<and>
      (let e = rcu_ends gp [new_node, val s' 0] [val s' 4, val s' 3, new_node, val s' 0] in
        klog s' = klog s @ Line KERN_INFO ''Hello!'' [] # value_lines ''value(0) = %d'' [40, 30, 20, 10, 0] @
          value_lines ''value(1) = %d'' [40, 30, 20, 1400, 0] @
          insert_at e destroy_lines (value_lines ''value(2) = %d'' [40, 30, 1400, 0]) \<and>
        rcu_pending s' = (if e < 4 then [] else [(val s' 2, Destroy_old_structure)]) \<and>
        allocated K (kern s') = allocated K (kern s) \<union> val s' ` {..<5} - (if e < 4 then {val s' 2} else {})) \<and>
      dlist (kern s') head [val s' 4, val s' 3, new_node, val s' 0] \<and>
      inj_on (val s') {..<5} \<and> val s' ` {..<5} \<inter> valid K (kern s) = {}
     \<or> r = -1 \<and> (\<exists>i<5. klog s' = klog s @
         [Line KERN_INFO ''Hello!'' [], Line KERN_INFO ''Malloc failed for %d'' [Num (int i)]] \<and>
        (\<exists>V. V \<inter> allocated K (kern s) = {} \<and> card V = i \<and> allocated K (kern s') = allocated K (kern s) \<union> V)))"
  unfolding Let_def by (rule locked_rcu_api.rcu_start_cases [where gp = gp, OF assms]) blast+

theorem rcu_start_correct_witness:
  "\<exists>s'. rcu_start ref_ops ref_locks 12 10 11 (\<lambda>pt. pt = In_readers 11) (rcu_boot 5) = Some (0, s') \<and> faults s' = [] \<and>
     klog s' = Line KERN_INFO ''Hello!'' [] # value_lines ''value(0) = %d'' [40, 30, 20, 10, 0] @
        value_lines ''value(1) = %d'' [40, 30, 20, 1400, 0] @ value_lines ''value(2) = %d'' [40, 30] @
        destroy_lines @ value_lines ''value(2) = %d'' [1400, 0]"
proof -
  have st: "(10::addr) \<in> statics ref_ops" "(11::addr) \<in> statics ref_ops" "(11::addr) \<noteq> 10" by simp_all
  let ?gp = "\<lambda>pt. pt = In_readers 11"
  have e: "rcu_ends ?gp [11, val t 0] [val t 4, val t 3, 11, val t 0] = 2"
    if "val t ` {..<5} \<inter> valid ref_ops (kern (rcu_boot 5)) = {}" for t :: "ref_kernel rcu"
  proof -
    have "val t i \<noteq> 11" if "i < 5" for i
      using that \<open>val t ` {..<5} \<inter> _ = {}\<close> st(2) by (auto simp: valid_def)
    then show ?thesis by (simp add: rcu_ends_def)
  qed
  show ?thesis
    using rcu_start_correct [OF ref_locked_rcu.locked_rcu_api_axioms st, of "rcu_boot 5" 12 ?gp]
      rcu_boot_success [of ?gp] by (auto simp: Let_def e insert_at_def value_lines_def)
qed



text \<open>
  The deleting loop is not a read-side section. If a grace period ends right after \<open>call_rcu\<close>,
  the node is freed while the loop still stands on it, and the loop's next step, the read of the
  node's forward pointer, is a use after free.
\<close>

theorem rcu_delete_early_grace_period:
  assumes "locked_rcu_api K dlist L" and "tmp1 \<in> allocated K (kern s)" and "m_data s tmp1 = 20"
    and "lock \<in> held L (kern s)" and "faults s = []" and "rcu_pending s = []" and "rcu_loaded s" and "gp After_call_rcu"
  shows "faults (rcu_delete K L lock gp tmp1 s) = [] \<and>
    faults (deref K tmp1 (rcu_delete K L lock gp tmp1 s)) = [UseAfterFree tmp1]"
  using locked_rcu_api.rcu_delete_early [where gp = gp, OF assms(1-4,6-8)] assms(5) by simp

theorem rcu_delete_early_grace_period_witness:
  "\<exists>s :: ref_kernel rcu. faults s = [] \<and>
     faults (deref ref_ops 100 (rcu_delete ref_ops ref_locks 12 (\<lambda>_. True) 100 s)) = [UseAfterFree 100]"
proof -
  define s where "s = (rcu_boot 5)\<lparr>kern := (ref_init 10 (ref_boot 5))\<lparr>objs := [100], taken := [12]\<rparr>, m_data := (\<lambda>_. 20)\<rparr>"
  have "faults s = []" "100 \<in> allocated ref_ops (kern s)" "m_data s 100 = 20" "12 \<in> held ref_locks (kern s)" "rcu_pending s = []" "rcu_loaded s"
    by (simp_all add: s_def) (simp_all add: ref_eval)
  then show ?thesis
    using rcu_delete_early_grace_period [OF ref_locked_rcu.locked_rcu_api_axioms, of 100 s 12 "\<lambda>_. True"] by blast
qed

end
