(* ===== verification/Red_Black_Tree.thy ===== *)
theory Red_Black_Tree
  imports Lkb_Prelude "HOL-Library.Tree" "HOL-Library.Monad_Syntax"
begin

text \<open>
  The module \<open>red_black_tree/code.c\<close>: insertion, search and in-order printing on a tree of
  \<open>struct rb_node\<close> nodes. The nodes live in memory and are linked by pointers; the pointer
  structure is related to the functional trees of the library, on which insertion is specified.
  The traversal functions \<open>rb_first\<close> and \<open>rb_next\<close> are the kernel's and are arguments.
\<close>

section \<open>Memory and operations\<close>

text \<open>
  The fields of every \<open>struct TREE\<close> (with the embedded \<open>rb_node\<close>: left, right and parent
  pointers) and the global \<open>root\<close>.
\<close>

record 'k rbtree = "'k env" +
  t_data :: "addr \<Rightarrow> int"
  rb_left :: "addr \<Rightarrow> addr"
  rb_right :: "addr \<Rightarrow> addr"
  rb_parent :: "addr \<Rightarrow> addr"
  rb_root :: addr

partial_function (option) rb_search_loop :: "'k rbtree \<Rightarrow> int \<Rightarrow> addr \<Rightarrow> addr option" where
  "rb_search_loop s v n =
     (if n = NULL then Some NULL
      else if t_data s n > v then rb_search_loop s v (rb_left s n)
      else if t_data s n < v then rb_search_loop s v (rb_right s n)
      else Some n)"

definition rb_search :: "'k rbtree \<Rightarrow> int \<Rightarrow> addr option" where
  "rb_search s v = rb_search_loop s v (rb_root s)"

text \<open>
  The loop of \<open>insert\<close>: the node reached (\<open>NULL\<close>, or the node with the same data at which the
  loop breaks) and its \<open>parent\<close> variable.
\<close>

partial_function (option) rb_descend :: "'k rbtree \<Rightarrow> int \<Rightarrow> addr \<Rightarrow> addr \<Rightarrow> (addr \<times> addr) option" where
  "rb_descend s d tmp parent =
     (if tmp = NULL then Some (NULL, parent)
      else if t_data s tmp > d then rb_descend s d (rb_left s tmp) tmp
      else if t_data s tmp < d then rb_descend s d (rb_right s tmp) tmp
      else Some (tmp, tmp))"

definition rb_insert :: "addr \<Rightarrow> 'k rbtree \<Rightarrow> (int \<times> 'k rbtree) option" where
  "rb_insert t s =
     (if rb_root s = NULL then Some (0, s\<lparr>rb_root := t\<rparr>)
      else do {
        (tmp, parent) \<leftarrow> rb_descend s (t_data s t) (rb_root s) NULL;
        if tmp \<noteq> NULL then Some (1, pr_info ''Data Already present in tree'' [] s)
        else if t_data s parent > t_data s t then Some (0, s\<lparr>rb_left := (rb_left s)(parent := t)\<rparr>)
        else Some (0, s\<lparr>rb_right := (rb_right s)(parent := t)\<rparr>)
      })"

partial_function (option) rb_print_loop ::
  "(addr \<Rightarrow> 'k rbtree \<Rightarrow> addr) \<Rightarrow> addr \<Rightarrow> 'k rbtree \<Rightarrow> 'k rbtree option" where
  "rb_print_loop rb_next tmp s =
     (if tmp = NULL then Some s
      else let s = pr_info ''Data = %d'' [Num (t_data s tmp)] s
           in rb_print_loop rb_next (rb_next tmp s) s)"

definition rb_print ::
  "('k rbtree \<Rightarrow> addr) \<Rightarrow> (addr \<Rightarrow> 'k rbtree \<Rightarrow> addr) \<Rightarrow> 'k rbtree \<Rightarrow> 'k rbtree option" where
  "rb_print rb_first rb_next s = rb_print_loop rb_next (rb_first s) s"

text \<open>
  The two loops of \<open>start\<close> over the array \<open>tree\<close>, whose cells the compiler places on the stack
  (\<open>tree i\<close> is the address of cell \<open>i\<close>), and \<open>start\<close> itself. The result of \<open>insert\<close> is not used.
\<close>

definition rb_init_node :: "(nat \<Rightarrow> addr) \<Rightarrow> nat \<Rightarrow> 'k rbtree \<Rightarrow> 'k rbtree" where
  "rb_init_node tree i s =
     s\<lparr>t_data := (t_data s)(tree i := int i * 100), rb_left := (rb_left s)(tree i := NULL),
       rb_right := (rb_right s)(tree i := NULL)\<rparr>"

fun rb_insert_all :: "addr list \<Rightarrow> 'k rbtree \<Rightarrow> 'k rbtree option" where
  "rb_insert_all [] s = Some s"
| "rb_insert_all (t # ts) s = do { (r, s) \<leftarrow> rb_insert t s; rb_insert_all ts s }"

definition rb_build :: "(nat \<Rightarrow> addr) \<Rightarrow> 'k rbtree \<Rightarrow> 'k rbtree option" where
  "rb_build tree s =
     rb_insert_all (map tree [0..<14]) (fold (rb_init_node tree) [0..<14] (pr_info ''Start...!'' [] s))"

definition rb_start ::
  "('k rbtree \<Rightarrow> addr) \<Rightarrow> (addr \<Rightarrow> 'k rbtree \<Rightarrow> addr) \<Rightarrow> (nat \<Rightarrow> addr) \<Rightarrow> 'k rbtree \<Rightarrow>
   (int \<times> 'k rbtree) option" where
  "rb_start rb_first rb_next tree s =
     do {
       s \<leftarrow> rb_build tree s;
       let search_data = 200;
       t \<leftarrow> rb_search s search_data;
       let s = (if t = NULL then pr_info ''Data %d Not found '' [Num search_data] s
                else pr_info ''Data %d found '' [Num (t_data s t)] s);
       s \<leftarrow> rb_print rb_first rb_next s;
       Some (0, s)
     }"

definition rb_stops :: "'k rbtree \<Rightarrow> 'k rbtree" where
  "rb_stops s = printk KERN_INFO ''Goodbye!'' [] s"

section \<open>Trees in memory\<close>

text \<open>\<open>tree_at s p T\<close>: the pointer \<open>p\<close> is the root of the node structure \<open>T\<close>.\<close>

fun tree_at :: "'k rbtree \<Rightarrow> addr \<Rightarrow> addr tree \<Rightarrow> bool" where
  "tree_at s p Leaf \<longleftrightarrow> p = NULL"
| "tree_at s p (Node l a r) \<longleftrightarrow>
     p = a \<and> a \<noteq> NULL \<and> tree_at s (rb_left s a) l \<and> tree_at s (rb_right s a) r"

text \<open>The parent pointers agree with the structure; \<open>q\<close> is the parent of the root.\<close>

fun parents_at :: "'k rbtree \<Rightarrow> addr \<Rightarrow> addr tree \<Rightarrow> bool" where
  "parents_at s q Leaf \<longleftrightarrow> True"
| "parents_at s q (Node l a r) \<longleftrightarrow> rb_parent s a = q \<and> parents_at s a l \<and> parents_at s a r"

text \<open>The search-tree order: the data strictly increase along the in-order sequence of nodes.\<close>

definition ordered :: "(addr \<Rightarrow> int) \<Rightarrow> addr tree \<Rightarrow> bool" where
  "ordered d T \<longleftrightarrow> sorted_wrt (<) (map d (inorder T))"

definition keys :: "(addr \<Rightarrow> int) \<Rightarrow> addr tree \<Rightarrow> int set" where
  "keys d T = d ` set_tree T"

text \<open>The specification of insertion: the textbook function on trees.\<close>

fun bst_insert :: "(addr \<Rightarrow> int) \<Rightarrow> addr \<Rightarrow> addr tree \<Rightarrow> addr tree" where
  "bst_insert d t Leaf = Node Leaf t Leaf"
| "bst_insert d t (Node l a r) =
     (if d a > d t then Node (bst_insert d t l) a r
      else if d a < d t then Node l a (bst_insert d t r)
      else Node l a r)"

lemma ordered_Node:
  "ordered d (Node l a r) \<longleftrightarrow>
     ordered d l \<and> ordered d r \<and> (\<forall>x\<in>set_tree l. d x < d a) \<and> (\<forall>x\<in>set_tree r. d a < d x)"
  by (fastforce simp: ordered_def sorted_wrt_append set_inorder [symmetric] simp del: set_inorder)

lemma ordered_Leaf [simp]: "ordered d Leaf"
  by (simp add: ordered_def)

lemma ordered_distinct: "ordered d T \<Longrightarrow> distinct (inorder T)"
  unfolding ordered_def by (metis distinct_map strict_sorted_iff)

lemma keys_simps [simp]:
  "keys d Leaf = {}" "keys d (Node l a r) = insert (d a) (keys d l \<union> keys d r)"
  by (auto simp: keys_def)

lemma keys_less: "ordered d (Node l a r) \<Longrightarrow> x \<in> keys d l \<Longrightarrow> x < d a"
  and keys_greater: "ordered d (Node l a r) \<Longrightarrow> x \<in> keys d r \<Longrightarrow> d a < x"
  by (auto simp: ordered_Node keys_def)

lemma bst_insert_set:
  "ordered d T \<Longrightarrow> set_tree (bst_insert d t T) = (if d t \<in> keys d T then set_tree T else insert t (set_tree T))"
proof (induction T)
  case Leaf
  then show ?case by simp
next
  case (Node l a r)
  then show ?case using keys_less [OF Node.prems, of "d t"] keys_greater [OF Node.prems, of "d t"]
    by (auto simp: ordered_Node split: if_splits)
qed

lemma bst_insert_ordered: "ordered d T \<Longrightarrow> ordered d (bst_insert d t T)"
  by (induction T) (auto simp: ordered_Node bst_insert_set split: if_splits)

lemma tree_at_frame:
  "tree_at s p T \<Longrightarrow> (\<And>x. x \<in> set_tree T \<Longrightarrow> rb_left s' x = rb_left s x \<and> rb_right s' x = rb_right s x) \<Longrightarrow> tree_at s' p T"
  by (induction T arbitrary: p) auto

lemma parents_at_frame:
  "parents_at s q T \<Longrightarrow> (\<And>x. x \<in> set_tree T \<Longrightarrow> rb_parent s' x = rb_parent s x) \<Longrightarrow> parents_at s' q T"
  by (induction T arbitrary: q) auto

lemma tree_at_null: "tree_at s NULL T \<longleftrightarrow> T = Leaf"
  by (cases T) auto

lemma tree_at_nonnull: "tree_at s p T \<Longrightarrow> x \<in> set_tree T \<Longrightarrow> x \<noteq> NULL"
  by (induction T arbitrary: p) auto

lemma tree_at_unique: "tree_at s p T \<Longrightarrow> tree_at s p T' \<Longrightarrow> T = T'"
proof (induction T arbitrary: p T')
  case Leaf
  then show ?case by (cases T') auto
next
  case (Node l a r)
  then show ?case by (cases T') auto
qed

text \<open>The degenerate tree that ascending insertion builds: every node is the right child of the one before.\<close>

fun spine :: "addr list \<Rightarrow> addr tree" where
  "spine [] = Leaf"
| "spine (a # as) = Node Leaf a (spine as)"

lemma inorder_spine [simp]: "inorder (spine as) = as"
  by (induction as) auto

lemma set_spine [simp]: "set_tree (spine as) = set as"
  by (induction as) auto

lemma height_spine: "height (spine as) = length as"
  by (induction as) auto

lemma bst_insert_spine: "\<forall>a\<in>set as. d a < d t \<Longrightarrow> bst_insert d t (spine as) = spine (as @ [t])"
  by (induction as) auto

section \<open>A traversal by parent pointers\<close>

text \<open>
  The textbook traversal, the way a tree with parent pointers is walked without a stack: leftmost
  node first; then the leftmost node of the right subtree or, if there is none, the first ancestor
  that is reached from its left.
\<close>

partial_function (option) leftmost :: "'k rbtree \<Rightarrow> addr \<Rightarrow> addr option" where
  "leftmost s n = (if rb_left s n = NULL then Some n else leftmost s (rb_left s n))"

partial_function (option) climb :: "'k rbtree \<Rightarrow> addr \<Rightarrow> addr option" where
  "climb s n =
     (let q = rb_parent s n
      in if q = NULL then Some NULL else if n = rb_right s q then climb s q else Some q)"

definition or_null :: "addr option \<Rightarrow> addr" where
  "or_null x = (case x of None \<Rightarrow> NULL | Some n \<Rightarrow> n)"

definition walk_first :: "'k rbtree \<Rightarrow> addr" where
  "walk_first s = (if rb_root s = NULL then NULL else or_null (leftmost s (rb_root s)))"

definition walk_next :: "addr \<Rightarrow> 'k rbtree \<Rightarrow> addr" where
  "walk_next n s = or_null (if rb_right s n = NULL then climb s n else leftmost s (rb_right s n))"

section \<open>Search\<close>

text \<open>On a tree the search loop ends; on an ordered tree it finds the node with the given data.\<close>

lemma rb_search_loop_correct:
  assumes "tree_at s p T" and "ordered (t_data s) T"
  shows "\<exists>n. rb_search_loop s v p = Some n \<and>
    (if v \<in> keys (t_data s) T then n \<in> set_tree T \<and> t_data s n = v else n = NULL)"
  using assms
proof (induction T arbitrary: p)
  case Leaf
  then show ?case by (simp add: rb_search_loop.simps)
next
  case (Node l a r)
  have ord: "ordered (t_data s) l" "ordered (t_data s) r" using Node.prems by (auto simp: ordered_Node)
  have a: "p = a" "a \<noteq> NULL" "tree_at s (rb_left s a) l" "tree_at s (rb_right s a) r" using Node.prems by auto
  consider "t_data s a > v" | "t_data s a < v" | "t_data s a = v" by linarith
  then show ?case
  proof cases
    case 1
    then have "v \<notin> keys (t_data s) r" using keys_greater [OF Node.prems(2)] by fastforce
    then show ?thesis
      using 1 Node.IH(1) [OF a(3) ord(1)] a(1,2) by (subst rb_search_loop.simps) auto
  next
    case 2
    then have "v \<notin> keys (t_data s) l" using keys_less [OF Node.prems(2)] by fastforce
    then show ?thesis
      using 2 Node.IH(2) [OF a(4) ord(2)] a(1,2) by (subst rb_search_loop.simps) auto
  next
    case 3
    then show ?thesis using a(1,2) by (subst rb_search_loop.simps) auto
  qed
qed

section \<open>Insertion refines the specification\<close>

definition rb_attach :: "addr \<Rightarrow> addr \<Rightarrow> 'k rbtree \<Rightarrow> 'k rbtree" where
  "rb_attach t parent s =
     (if t_data s parent > t_data s t then s\<lparr>rb_left := (rb_left s)(parent := t)\<rparr>
      else s\<lparr>rb_right := (rb_right s)(parent := t)\<rparr>)"

lemma tree_at_attach: "tree_at s p T \<Longrightarrow> par \<notin> set_tree T \<Longrightarrow> tree_at (rb_attach t par s) p T"
  by (erule tree_at_frame) (auto simp: rb_attach_def)

lemma attach_other [simp]:
  "x \<noteq> par \<Longrightarrow> rb_left (rb_attach t par s) x = rb_left s x"
  "x \<noteq> par \<Longrightarrow> rb_right (rb_attach t par s) x = rb_right s x"
  by (simp_all add: rb_attach_def)

text \<open>Attaching a node below one of the subtrees, or as a new child of a node without one.\<close>

lemma tree_at_attach_below:
  assumes "tree_at s p (Node l a r)" and "distinct (inorder (Node l a r))"
  shows "par \<in> set_tree l \<Longrightarrow> tree_at (rb_attach t par s) (rb_left s a) l' \<Longrightarrow> tree_at (rb_attach t par s) p (Node l' a r)"
    and "par \<in> set_tree r \<Longrightarrow> tree_at (rb_attach t par s) (rb_right s a) r' \<Longrightarrow> tree_at (rb_attach t par s) p (Node l a r')"
proof -
  have d: "a \<notin> set_tree l" "a \<notin> set_tree r" "set_tree l \<inter> set_tree r = {}" using assms(2) by auto
  show "tree_at (rb_attach t par s) p (Node l' a r)"
    if "par \<in> set_tree l" "tree_at (rb_attach t par s) (rb_left s a) l'"
  proof -
    have "a \<noteq> par" "par \<notin> set_tree r" using that(1) d by auto
    then show ?thesis using that(2) assms(1) by (simp add: tree_at_attach)
  qed
  show "tree_at (rb_attach t par s) p (Node l a r')"
    if "par \<in> set_tree r" "tree_at (rb_attach t par s) (rb_right s a) r'"
  proof -
    have "a \<noteq> par" "par \<notin> set_tree l" using that(1) d by auto
    then show ?thesis using that(2) assms(1) by (simp add: tree_at_attach)
  qed
qed

lemma tree_at_attach_child:
  assumes "tree_at s p (Node l a r)" and "distinct (inorder (Node l a r))" and "t \<notin> set_tree (Node l a r)"
    and "t \<noteq> NULL" "rb_left s t = NULL" "rb_right s t = NULL"
    and "l = Leaf \<and> t_data s a > t_data s t \<or> r = Leaf \<and> t_data s a < t_data s t"
  shows "tree_at (rb_attach t a s) p (bst_insert (t_data s) t (Node l a r))"
  using assms by (auto simp: rb_attach_def intro: tree_at_frame)

text \<open>
  The loop either stops at a node with the same data, and then the specification leaves the tree
  alone, or at the null link below which the specification puts the new node.
\<close>

lemma rb_descend_refines:
  assumes "tree_at s p T" and "T \<noteq> Leaf" and "distinct (inorder T)"
    and t: "t \<notin> set_tree T" "t \<noteq> NULL" "rb_left s t = NULL" "rb_right s t = NULL"
  shows "(\<exists>x. rb_descend s (t_data s t) p q = Some (x, x) \<and> x \<in> set_tree T \<and> t_data s x = t_data s t \<and>
      bst_insert (t_data s) t T = T) \<or>
    (\<exists>par. rb_descend s (t_data s t) p q = Some (NULL, par) \<and> par \<in> set_tree T \<and>
      t \<in> set_tree (bst_insert (t_data s) t T) \<and> tree_at (rb_attach t par s) p (bst_insert (t_data s) t T))"
  using assms(1-3) t(1)
proof (induction T arbitrary: p q)
  case Leaf
  then show ?case by simp
next
  case (Node l a r)
  have a: "p = a" "a \<noteq> NULL" "tree_at s (rb_left s a) l" "tree_at s (rb_right s a) r"
    and dist: "distinct (inorder l)" "distinct (inorder r)"
    and tn: "t \<noteq> a" "t \<notin> set_tree l" "t \<notin> set_tree r"
    using Node.prems by auto
  note below = tree_at_attach_below [OF Node.prems(1,3), of _ t]
  note child = tree_at_attach_child [OF Node.prems(1,3,4) t(2-4)]
  consider (left) "t_data s a > t_data s t" | (right) "t_data s a < t_data s t" | (eq) "t_data s a = t_data s t"
    by linarith
  then show ?case
  proof cases
    case left
    have unfold: "rb_descend s (t_data s t) p q = rb_descend s (t_data s t) (rb_left s a) a"
      using left a by (subst rb_descend.simps) simp
    show ?thesis
    proof (cases "l = Leaf")
      case True
      then have "rb_descend s (t_data s t) p q = Some (NULL, a)"
        using unfold a by (simp add: rb_descend.simps)
      then show ?thesis using left True child by auto
    next
      case False
      show ?thesis
        using Node.IH(1) [OF a(3) False dist(1) tn(2), of a] left below(1) unfold by auto
    qed
  next
    case right
    have unfold: "rb_descend s (t_data s t) p q = rb_descend s (t_data s t) (rb_right s a) a"
      using right a by (subst rb_descend.simps) simp
    show ?thesis
    proof (cases "r = Leaf")
      case True
      then have "rb_descend s (t_data s t) p q = Some (NULL, a)"
        using unfold a by (simp add: rb_descend.simps)
      then show ?thesis using right True child by auto
    next
      case False
      show ?thesis
        using Node.IH(2) [OF a(4) False dist(2) tn(3), of a] right below(2) unfold by auto
    qed
  next
    case eq
    then have "rb_descend s (t_data s t) p q = Some (a, a)"
      using a by (subst rb_descend.simps) simp
    then show ?thesis using eq by auto
  qed
qed

text \<open>The whole of \<open>insert\<close> against the specification.\<close>

lemma rb_insert_refines:
  assumes "tree_at s (rb_root s) T" and "ordered (t_data s) T"
    and t: "t \<notin> set_tree T" "t \<noteq> NULL" "rb_left s t = NULL" "rb_right s t = NULL"
  shows "\<exists>r s'. rb_insert t s = Some (r, s') \<and> r = (if t_data s t \<in> keys (t_data s) T then 1 else 0) \<and>
    tree_at s' (rb_root s') (bst_insert (t_data s) t T) \<and>
    t_data s' = t_data s \<and> rb_parent s' = rb_parent s \<and> kern s' = kern s \<and> faults s' = faults s \<and>
    (r = 1 \<longrightarrow> rb_root s' = rb_root s \<and> rb_left s' = rb_left s \<and> rb_right s' = rb_right s) \<and>
    klog s' = klog s @ (if r = 1 then [Line KERN_INFO ''Data Already present in tree'' []] else []) \<and>
    (\<forall>x. x \<notin> set_tree T \<longrightarrow> rb_left s' x = rb_left s x \<and> rb_right s' x = rb_right s x)"
proof (cases "T = Leaf")
  case True
  then have "rb_insert t s = Some (0, s\<lparr>rb_root := t\<rparr>)" using assms(1) by (simp add: rb_insert_def)
  then show ?thesis using True t by simp
next
  case False
  have root: "rb_root s \<noteq> NULL" using assms(1) False by (metis tree_at_null)
  have dist: "distinct (inorder T)" by (rule ordered_distinct [OF assms(2)])
  from rb_descend_refines [OF assms(1) False dist t, of NULL] show ?thesis
  proof (elim disjE exE conjE)
    fix x
    assume x: "rb_descend s (t_data s t) (rb_root s) 0 = Some (x, x)" "x \<in> set_tree T"
      "t_data s x = t_data s t" "bst_insert (t_data s) t T = T"
    have "x \<noteq> NULL" by (rule tree_at_nonnull [OF assms(1) x(2)])
    moreover have "t_data s t \<in> keys (t_data s) T" using x(2,3) by (auto simp: keys_def intro!: rev_image_eqI)
    moreover have "tree_at (pr_info ''Data Already present in tree'' [] s) (rb_root s) T"
      by (rule tree_at_frame [OF assms(1)]) (simp add: printk_def)
    ultimately show ?thesis using root x by (simp add: rb_insert_def printk_def)
  next
    fix par
    assume par: "rb_descend s (t_data s t) (rb_root s) 0 = Some (NULL, par)" "par \<in> set_tree T"
      "t \<in> set_tree (bst_insert (t_data s) t T)" "tree_at (rb_attach t par s) (rb_root s) (bst_insert (t_data s) t T)"
    have run: "rb_insert t s = Some (0, rb_attach t par s)"
      using root par by (simp add: rb_insert_def rb_attach_def)
    have "t_data s t \<notin> keys (t_data s) T"
      using par(3) bst_insert_set [OF assms(2), of t] t(1) by (auto split: if_splits)
    then show ?thesis using run par by (auto simp: rb_attach_def)
  qed
qed

section \<open>Printing\<close>

text \<open>
  What the kernel documents of its traversal, for a tree whose nodes are linked to their parents
  as \<open>rb_link_node\<close> does it: \<open>rb_first\<close> is the first node in sort order and \<open>rb_next\<close> the
  one after a given node, or null.
\<close>

locale rb_iter =
  fixes rb_first :: "'k rbtree \<Rightarrow> addr" and rb_next :: "addr \<Rightarrow> 'k rbtree \<Rightarrow> addr"
  assumes first: "tree_at s (rb_root s) T \<Longrightarrow> distinct (inorder T) \<Longrightarrow> parents_at s NULL T \<Longrightarrow>
      rb_first s = hd (inorder T @ [NULL])"
    and "next": "tree_at s (rb_root s) T \<Longrightarrow> distinct (inorder T) \<Longrightarrow> parents_at s NULL T \<Longrightarrow>
      inorder T = xs @ n # ys \<Longrightarrow> rb_next n s = hd (ys @ [NULL])"
begin

lemma print_suffix:
  assumes "tree_at s (rb_root s) T" and "distinct (inorder T)" and "parents_at s NULL T" and "inorder T = xs @ ys"
  shows "rb_print_loop rb_next (hd (ys @ [NULL])) s =
    Some (s\<lparr>klog := klog s @ map (\<lambda>n. Line KERN_INFO ''Data = %d'' [Num (t_data s n)]) ys\<rparr>)"
  using assms
proof (induction ys arbitrary: xs s)
  case Nil
  then show ?case by (simp add: rb_print_loop.simps)
next
  case (Cons y ys)
  let ?s = "s\<lparr>klog := klog s @ [Line KERN_INFO ''Data = %d'' [Num (t_data s y)]]\<rparr>"
  have y: "y \<noteq> NULL" using tree_at_nonnull [OF Cons.prems(1), of y] Cons.prems(4)
    by (metis in_set_conv_decomp set_inorder)
  have frame: "tree_at ?s (rb_root ?s) T" "parents_at ?s NULL T"
    using Cons.prems(1,3) by (auto intro: tree_at_frame parents_at_frame)
  have "rb_print_loop rb_next y s = rb_print_loop rb_next (rb_next y ?s) ?s"
    using y by (subst rb_print_loop.simps) (simp add: printk_def Let_def)
  also have "rb_next y ?s = hd (ys @ [NULL])" by (rule "next" [OF frame(1) Cons.prems(2) frame(2) Cons.prems(4)])
  also have "rb_print_loop rb_next (hd (ys @ [NULL])) ?s =
      Some (?s\<lparr>klog := klog ?s @ map (\<lambda>n. Line KERN_INFO ''Data = %d'' [Num (t_data ?s n)]) ys\<rparr>)"
    by (rule Cons.IH [OF frame(1) Cons.prems(2) frame(2), of "xs @ [y]"]) (simp add: Cons.prems(4))
  finally show ?case by simp
qed

lemma print_inorder:
  assumes "tree_at s (rb_root s) T" and "distinct (inorder T)" and "parents_at s NULL T"
  shows "rb_print rb_first rb_next s =
    Some (s\<lparr>klog := klog s @ map (\<lambda>n. Line KERN_INFO ''Data = %d'' [Num (t_data s n)]) (inorder T)\<rparr>)"
  using print_suffix [OF assms, of "[]" "inorder T"] first [OF assms] by (simp add: rb_print_def)

end

text \<open>The traversal by parent pointers keeps this contract.\<close>

lemma leftmost_first:
  "tree_at s p T \<Longrightarrow> T \<noteq> Leaf \<Longrightarrow> leftmost s p = Some (hd (inorder T))"
proof (induction T arbitrary: p)
  case Leaf
  then show ?case by simp
next
  case (Node l a r)
  then show ?case
  proof (cases l)
    case Leaf
    then show ?thesis using Node.prems by (subst leftmost.simps) simp
  next
    case (Node l1 b l2)
    then have "rb_left s a \<noteq> NULL" "tree_at s (rb_left s a) l" "p = a" using Node.prems by auto
    then show ?thesis using Node Node.IH(1) by (subst leftmost.simps) (simp add: hd_append)
  qed
qed

text \<open>From the last node of a subtree the climb goes on at the subtree's root.\<close>

lemma climb_last:
  assumes "tree_at s p T" and "parents_at s q T" and "inorder T = xs @ [n]" and "distinct (inorder T)"
  shows "rb_right s n = NULL" and "climb s n = climb s p"
proof -
  have "rb_right s n = NULL \<and> climb s n = climb s p"
    using assms
  proof (induction T arbitrary: p q xs)
    case Leaf
    then show ?case by simp
  next
    case (Node l a r)
    show ?case
    proof (cases r)
      case Leaf
      then show ?thesis using Node.prems by auto
    next
      case (Node r1 b r2)
      have ne: "inorder r \<noteq> []" using Node by simp
      moreover have "last (inorder r) = last (inorder (Tree.Node l a r))" using ne by simp
      ultimately have "inorder r = butlast (inorder r) @ [n]"
        using Node.prems(3) by (metis append_butlast_last_id last_snoc)
      then obtain zs where zs: "inorder r = zs @ [n]" ..
      have b: "rb_right s a = b" "rb_parent s b = a" "a \<noteq> NULL" "p = a" using Node.prems Node by auto
      have "rb_right s n = NULL \<and> climb s n = climb s b"
        by (rule Node.IH(2)) (use Node.prems zs b in auto)
      moreover have "climb s b = climb s a" using b by (subst climb.simps) simp
      ultimately show ?thesis using b by simp
    qed
  qed
  then show "rb_right s n = NULL" "climb s n = climb s p" by auto
qed

lemma walk_next_in:
  assumes "tree_at s p T" and "parents_at s q T" and "inorder T = xs @ n # ys" and "distinct (inorder T)"
    and "ys \<noteq> []"
  shows "walk_next n s = hd ys"
  using assms
proof (induction T arbitrary: p q xs ys)
  case Leaf
  then show ?case by simp
next
  case (Node l a r)
  have a: "p = a" "a \<noteq> NULL" "tree_at s (rb_left s a) l" "tree_at s (rb_right s a) r"
    "parents_at s a l" "parents_at s a r" using Node.prems by auto
  have dist: "distinct (inorder l)" "distinct (inorder r)" "n \<in> set_tree l \<Longrightarrow> n \<notin> insert a (set_tree r)"
    using Node.prems(4) by auto
  have "n \<in> set_tree l \<or> n = a \<or> n \<in> set_tree r"
    using arg_cong [OF Node.prems(3), of set] by auto
  then consider (left) "n \<in> set_tree l" | (here) "n = a" | (right) "n \<in> set_tree r" by blast
  then show ?case
  proof cases
    case left
    then obtain us vs where l: "inorder l = us @ n # vs" by (metis set_inorder split_list)
    have ys: "ys = vs @ a # inorder r"
      by (rule split_unique(2) [OF Node.prems(4,3)]) (simp add: l)
    show ?thesis
    proof (cases "vs = []")
      case True
      obtain l1 b l2 where b: "l = Tree.Node l1 b l2" using left by (cases l) auto
      have "rb_left s a \<noteq> rb_right s a"
        using a(3,4) Node.prems(4) b by (cases r) auto
      then have "climb s (rb_left s a) = Some a"
        using a b by (subst climb.simps) (auto simp: Let_def)
      moreover have "rb_right s n = NULL" "climb s n = climb s (rb_left s a)"
        using climb_last [OF a(3,5) _ dist(1)] l True by auto
      ultimately show ?thesis using ys True by (simp add: walk_next_def or_null_def)
    next
      case False
      then show ?thesis using Node.IH(1) [OF a(3,5) l dist(1)] ys by simp
    qed
  next
    case here
    have ys: "ys = inorder r"
      by (rule split_unique(2) [OF Node.prems(4,3)]) (simp add: here)
    then have "r \<noteq> Leaf" using Node.prems(5) by auto
    moreover have "rb_right s a \<noteq> NULL" using a(4) calculation by (cases r) auto
    ultimately show ?thesis
      using leftmost_first [OF a(4)] here ys by (simp add: walk_next_def or_null_def)
  next
    case right
    then obtain us vs where r: "inorder r = us @ n # vs" by (metis set_inorder split_list)
    have ys: "ys = vs"
      by (rule split_unique(2) [OF Node.prems(4,3)]) (simp add: r)
    then show ?thesis using Node.IH(2) [OF a(4,6) r dist(2)] Node.prems(5) by simp
  qed
qed

interpretation walk: rb_iter walk_first walk_next
proof
  fix s :: "'k rbtree" and T xs n ys
  assume T: "tree_at s (rb_root s) T" "distinct (inorder T)" "parents_at s NULL T"
  show "walk_first s = hd (inorder T @ [NULL])"
    using T(1) leftmost_first [OF T(1)] by (cases T) (auto simp: walk_first_def or_null_def hd_append)
  assume n: "inorder T = xs @ n # ys"
  show "walk_next n s = hd (ys @ [NULL])"
  proof (cases "ys = []")
    case True
    obtain l a r where a: "T = Tree.Node l a r" using n by (cases T) auto
    have "climb s (rb_root s) = Some NULL" using T a by (subst climb.simps) simp
    then show ?thesis
      using climb_last [OF T(1,3) _ T(2)] n True by (simp add: walk_next_def or_null_def)
  next
    case False
    then show ?thesis using walk_next_in [OF T(1,3) n T(2)] by simp
  qed
qed

section \<open>The tree that \<open>start\<close> builds\<close>

lemma rb_insert_all_spine:
  assumes "tree_at s (rb_root s) (spine ts)" and "sorted_wrt (<) (map (t_data s) (ts @ us))"
    and "NULL \<notin> set us" and "\<forall>u\<in>set us. rb_left s u = NULL \<and> rb_right s u = NULL"
  shows "\<exists>s'. rb_insert_all us s = Some s' \<and> tree_at s' (rb_root s') (spine (ts @ us)) \<and>
    t_data s' = t_data s \<and> rb_parent s' = rb_parent s \<and> klog s' = klog s"
  using assms
proof (induction us arbitrary: ts s)
  case Nil
  then show ?case by simp
next
  case (Cons u us)
  have less: "\<forall>a\<in>set ts. t_data s a < t_data s u" using Cons.prems(2) by (auto simp: sorted_wrt_append)
  have ord: "ordered (t_data s) (spine ts)" using Cons.prems(2) by (auto simp: ordered_def sorted_wrt_append)
  have fresh: "u \<notin> set ts" "t_data s u \<notin> keys (t_data s) (spine ts)" "u \<notin> set us" "set us \<inter> set ts = {}"
    using less Cons.prems(2) by (fastforce simp: keys_def sorted_wrt_append)+
  obtain s1 where s1: "rb_insert u s = Some (0, s1)" "tree_at s1 (rb_root s1) (spine (ts @ [u]))"
      "t_data s1 = t_data s" "rb_parent s1 = rb_parent s" "klog s1 = klog s"
      "\<forall>x. x \<notin> set ts \<longrightarrow> rb_left s1 x = rb_left s x \<and> rb_right s1 x = rb_right s x"
    using rb_insert_refines [OF Cons.prems(1) ord, of u] fresh Cons.prems(3,4) bst_insert_spine [OF less]
    by auto
  have "\<exists>s'. rb_insert_all us s1 = Some s' \<and> tree_at s' (rb_root s') (spine ((ts @ [u]) @ us)) \<and>
      t_data s' = t_data s1 \<and> rb_parent s' = rb_parent s1 \<and> klog s' = klog s1"
    by (rule Cons.IH [OF s1(2)]) (use Cons.prems fresh s1 in auto)
  then show ?case using s1 by auto
qed

text \<open>The initialisation loop, for an array whose cells have different addresses.\<close>

lemma rb_init_nodes:
  fixes s :: "'k rbtree"
  assumes "inj_on tree {..<n}"
  defines "s' \<equiv> fold (rb_init_node tree) [0..<n] s"
  shows "\<forall>i<n. t_data s' (tree i) = int i * 100 \<and> rb_left s' (tree i) = NULL \<and> rb_right s' (tree i) = NULL"
    and "rb_root s' = rb_root s" and "rb_parent s' = rb_parent s" and "klog s' = klog s"
proof -
  have "(\<forall>i<m. t_data t (tree i) = int i * 100 \<and> rb_left t (tree i) = NULL \<and> rb_right t (tree i) = NULL) \<and>
      rb_root t = rb_root s \<and> rb_parent t = rb_parent s \<and> klog t = klog s"
    if "m \<le> n" "t = fold (rb_init_node tree) [0..<m] s" for m t
    using that
  proof (induction m arbitrary: t)
    case 0
    then show ?case by simp
  next
    case (Suc m)
    define t0 where "t0 = fold (rb_init_node tree) [0..<m] s"
    have t: "t = rb_init_node tree m t0" using Suc.prems(2) by (simp add: t0_def)
    have "tree i \<noteq> tree m" if "i < m" for i
      using inj_onD [OF assms(1), of i m] that Suc.prems(1) by auto
    then show ?case
      using Suc.IH [OF _ t0_def] Suc.prems(1) by (auto simp: t rb_init_node_def less_Suc_eq)
  qed
  from this [OF order_refl refl] show
    "\<forall>i<n. t_data s' (tree i) = int i * 100 \<and> rb_left s' (tree i) = NULL \<and> rb_right s' (tree i) = NULL"
    "rb_root s' = rb_root s" "rb_parent s' = rb_parent s" "klog s' = klog s"
    by (simp_all add: s'_def)
qed

lemma rb_build_spine:
  assumes "inj_on tree {..<14}" and "\<forall>i<14. tree i \<noteq> NULL" and "rb_root s = NULL"
  shows "\<exists>s'. rb_build tree s = Some s' \<and> tree_at s' (rb_root s') (spine (map tree [0..<14])) \<and>
    (\<forall>i<14. t_data s' (tree i) = int i * 100) \<and> rb_parent s' = rb_parent s \<and>
    klog s' = klog s @ [Line KERN_INFO ''Start...!'' []]"
proof -
  let ?s0 = "pr_info ''Start...!'' [] s"
  let ?s1 = "fold (rb_init_node tree) [0..<14] ?s0"
  note init = rb_init_nodes [OF assms(1), of ?s0]
  have root: "rb_root ?s1 = NULL" using init(2) assms(3) by (simp add: printk_def)
  have data: "map (t_data ?s1) (map tree [0..<14]) = map (\<lambda>i. int i * 100) [0..<14]"
    using init(1) by (simp del: upt_rec_numeral)
  have "sorted_wrt (<) (map (\<lambda>i. int i * 100) [0..<14])"
    by (simp add: sorted_wrt_map sorted_wrt_upt [THEN sorted_wrt_mono_rel [rotated]] del: upt_rec_numeral)
  then have "sorted_wrt (<) (map (t_data ?s1) ([] @ map tree [0..<14]))"
    unfolding append_Nil data .
  moreover have "NULL \<notin> set (map tree [0..<14])" using assms(2) by fastforce
  ultimately obtain s' where s': "rb_insert_all (map tree [0..<14]) ?s1 = Some s'"
      "tree_at s' (rb_root s') (spine (map tree [0..<14]))" "t_data s' = t_data ?s1"
      "rb_parent s' = rb_parent ?s1" "klog s' = klog ?s1"
    using rb_insert_all_spine [of ?s1 "[]" "map tree [0..<14]"] root assms(2) init(1) by auto
  then show ?thesis using init by (auto simp: rb_build_def printk_def simp del: upt_rec_numeral)
qed

section \<open>Properties\<close>

text \<open>
  C4. Insertion on an ordered tree in memory refines the textbook insertion: it returns, with 1
  exactly when the data is already in the tree; the pointer structure afterwards is the tree the
  specification computes, which is ordered again and holds the old data and the new one. Data that is
  present already is reported in the log and no link is written. No node's data or parent pointer is
  ever written, no link of a node outside the tree, and nothing else is logged.
\<close>

theorem rb_insert_correct:
  assumes "tree_at s (rb_root s) T" and "ordered (t_data s) T"
    and "t \<notin> set_tree T" and "t \<noteq> NULL" and "rb_left s t = NULL" and "rb_right s t = NULL"
  shows "\<exists>s'. rb_insert t s = Some (if t_data s t \<in> keys (t_data s) T then 1 else 0, s') \<and>
    tree_at s' (rb_root s') (bst_insert (t_data s) t T) \<and> ordered (t_data s') (bst_insert (t_data s) t T) \<and>
    keys (t_data s') (bst_insert (t_data s) t T) = insert (t_data s t) (keys (t_data s) T) \<and>
    t_data s' = t_data s \<and> rb_parent s' = rb_parent s \<and> kern s' = kern s \<and> faults s' = faults s \<and>
    (\<forall>x. x \<notin> set_tree T \<longrightarrow> rb_left s' x = rb_left s x \<and> rb_right s' x = rb_right s x) \<and>
    (if t_data s t \<in> keys (t_data s) T
     then klog s' = klog s @ [Line KERN_INFO ''Data Already present in tree'' []] \<and> rb_root s' = rb_root s \<and>
       rb_left s' = rb_left s \<and> rb_right s' = rb_right s
     else klog s' = klog s)"
proof -
  have "keys (t_data s) (bst_insert (t_data s) t T) = insert (t_data s t) (keys (t_data s) T)"
    using bst_insert_set [OF assms(2), of t] by (auto simp: keys_def)
  then show ?thesis
    using rb_insert_refines [OF assms] bst_insert_ordered [OF assms(2)] by auto
qed

text \<open>Three nodes: 20 holds 5 and is the root, 21 holds 3 on its left, 22 holds 9 and is not linked.\<close>

definition rb_sample :: "unit rbtree" where
  "rb_sample = \<lparr>kern = (), klog = [], faults = [], t_data = (\<lambda>_. 0)(20 := 5, 21 := 3, 22 := 9),
     rb_left = (\<lambda>_. NULL)(20 := 21), rb_right = (\<lambda>_. NULL), rb_parent = (\<lambda>_. NULL)(21 := 20), rb_root = 20\<rparr>"

abbreviation rb_sample_tree :: "addr tree" where
  "rb_sample_tree \<equiv> Node (Node Leaf 21 Leaf) 20 Leaf"

lemma rb_sample_at:
  "tree_at rb_sample (rb_root rb_sample) rb_sample_tree" "ordered (t_data rb_sample) rb_sample_tree"
  "parents_at rb_sample NULL rb_sample_tree" "22 \<notin> set_tree rb_sample_tree"
  "rb_left rb_sample 22 = NULL" "rb_right rb_sample 22 = NULL" "t_data rb_sample 22 = 9"
  "keys (t_data rb_sample) rb_sample_tree = {3, 5}" "t_data rb_sample 20 = 5" "t_data rb_sample 21 = 3"
  by (auto simp: rb_sample_def ordered_def)

theorem rb_insert_correct_witness:
  "\<exists>s'. rb_insert 22 rb_sample = Some (0, s') \<and>
     tree_at s' (rb_root s') (bst_insert (t_data rb_sample) 22 rb_sample_tree) \<and>
     keys (t_data s') (bst_insert (t_data rb_sample) 22 rb_sample_tree) = {3, 5, 9}"
proof -
  have "(22::addr) \<noteq> NULL" by simp
  then show ?thesis
    using rb_insert_correct [OF rb_sample_at(1,2,4) _ rb_sample_at(5,6)] by (auto simp: rb_sample_at(7-10))
qed

text \<open>
  C5. Search on an ordered tree in memory returns: a node of the tree with the wanted data if there
  is one, null otherwise.
\<close>

theorem rb_search_correct:
  assumes "tree_at s (rb_root s) T" and "ordered (t_data s) T"
  shows "\<exists>n. rb_search s v = Some n \<and>
    (if v \<in> keys (t_data s) T then n \<in> set_tree T \<and> t_data s n = v else n = NULL)"
  using rb_search_loop_correct [OF assms] by (simp add: rb_search_def)

theorem rb_search_correct_witness:
  "rb_search rb_sample 3 = Some 21 \<and> rb_search rb_sample 4 = Some NULL"
  using rb_search_correct [OF rb_sample_at(1,2), of 3] rb_search_correct [OF rb_sample_at(1,2), of 4]
  by (auto simp: rb_sample_at(8)) (auto simp: rb_sample_def)

text \<open>
  C6. Round trip: after inserting a node whose data is not in the tree, searching for that data
  finds exactly that node; searching for any other data finds what it found before.
\<close>

theorem rb_insert_then_search:
  assumes "tree_at s (rb_root s) T" and "ordered (t_data s) T"
    and "t \<notin> set_tree T" and "t \<noteq> NULL" and "rb_left s t = NULL" and "rb_right s t = NULL"
    and "t_data s t \<notin> keys (t_data s) T" and "rb_insert t s = Some (r, s')"
  shows "rb_search s' (t_data s t) = Some t \<and> (\<forall>v. v \<noteq> t_data s t \<longrightarrow> rb_search s' v = rb_search s v)"
proof -
  let ?T = "bst_insert (t_data s) t T"
  have set: "set_tree ?T = insert t (set_tree T)" using bst_insert_set [OF assms(2)] assms(7) by simp
  have ord: "ordered (t_data s) ?T" by (rule bst_insert_ordered [OF assms(2)])
  have s': "tree_at s' (rb_root s') ?T" "t_data s' = t_data s"
    using rb_insert_refines [OF assms(1-6)] assms(8) by auto
  have inj: "x = y" if "x \<in> set_tree ?T" "y \<in> set_tree ?T" "t_data s x = t_data s y" for x y
    using ord that inj_onD [of "t_data s" "set (inorder ?T)"] unfolding ordered_def
    by (metis distinct_map set_inorder strict_sorted_iff)
  have found: "\<exists>n. rb_search s' v = Some n \<and>
      (if v \<in> keys (t_data s) ?T then n \<in> set_tree ?T \<and> t_data s n = v else n = NULL)" for v
    using rb_search_loop_correct [OF s'(1), unfolded s'(2), OF ord] unfolding rb_search_def .
  have old: "\<exists>n. rb_search s v = Some n \<and>
      (if v \<in> keys (t_data s) T then n \<in> set_tree T \<and> t_data s n = v else n = NULL)" for v
    using rb_search_loop_correct [OF assms(1,2), of v] by (simp add: rb_search_def)
  have keys: "keys (t_data s) ?T = insert (t_data s t) (keys (t_data s) T)" using set by (simp add: keys_def)
  obtain n where "rb_search s' (t_data s t) = Some n" "n \<in> set_tree ?T" "t_data s n = t_data s t"
    using found [of "t_data s t"] keys by auto
  then have "rb_search s' (t_data s t) = Some t" using inj [of n t] set by simp
  moreover have "rb_search s' v = rb_search s v" if v: "v \<noteq> t_data s t" for v
  proof (cases "v \<in> keys (t_data s) T")
    case True
    obtain n where n: "rb_search s v = Some n" "n \<in> set_tree T" "t_data s n = v" using old [of v] True by auto
    obtain m where m: "rb_search s' v = Some m" "m \<in> set_tree ?T" "t_data s m = v" using found [of v] True keys by auto
    show ?thesis using inj [of n m] n m set by simp
  next
    case False
    then show ?thesis using found [of v] old [of v] keys v by auto
  qed
  ultimately show ?thesis by blast
qed

theorem rb_insert_then_search_witness:
  "\<exists>r s'. rb_insert 22 rb_sample = Some (r, s') \<and> rb_search s' 9 = Some 22 \<and> rb_search s' 3 = rb_search rb_sample 3"
proof -
  have ne: "(22::addr) \<noteq> NULL" by simp
  obtain r s' where run: "rb_insert 22 rb_sample = Some (r, s')"
    using rb_insert_refines [OF rb_sample_at(1,2,4) ne rb_sample_at(5,6)] by blast
  have "t_data rb_sample 22 \<notin> keys (t_data rb_sample) rb_sample_tree" by (simp add: rb_sample_at(7-10))
  then show ?thesis
    using rb_insert_then_search [OF rb_sample_at(1,2,4) ne rb_sample_at(5,6) _ run] run
    by (auto simp: rb_sample_at(7))
qed

text \<open>
  C33. Printing an ordered tree whose parent pointers are right, with the kernel's in-order
  traversal, returns and logs the data in ascending order, each once.
\<close>

theorem rb_print_sorted:
  assumes "rb_iter rb_first rb_next"
    and "tree_at s (rb_root s) T" and "ordered (t_data s) T" and "parents_at s NULL T"
  shows "rb_print rb_first rb_next s = Some (s\<lparr>klog := klog s @
    map (\<lambda>d. Line KERN_INFO ''Data = %d'' [Num d]) (sorted_list_of_set (keys (t_data s) T))\<rparr>)"
proof -
  have "sorted_list_of_set (keys (t_data s) T) = map (t_data s) (inorder T)"
    using assms(3) unfolding ordered_def keys_def
    by (metis set_inorder list.set_map sorted_list_of_set.idem_if_sorted_distinct strict_sorted_iff)
  then show ?thesis
    using rb_iter.print_inorder [OF assms(1,2) ordered_distinct [OF assms(3)] assms(4)] by (simp add: comp_def)
qed

theorem rb_print_sorted_witness:
  "rb_print walk_first walk_next rb_sample = Some (rb_sample\<lparr>klog :=
     [Line KERN_INFO ''Data = %d'' [Num 3], Line KERN_INFO ''Data = %d'' [Num 5]]\<rparr>)"
proof -
  have "sorted_list_of_set {3, 5 :: int} = [3, 5]" by (simp add: sorted_list_of_set_nonempty)
  then show ?thesis
    using rb_print_sorted [OF walk.rb_iter_axioms rb_sample_at(1,2,3)]
    by (simp add: rb_sample_at(8) del: keys_simps) (simp add: rb_sample_def)
qed

text \<open>
  The loops of \<open>start\<close> return and build an ordered tree that holds 0, 100, ..., 1300, but since
  \<open>insert\<close> never rebalances the tree is a list: fourteen nodes, height fourteen, each the right child
  of the one before. Whatever the parent pointers of the nodes held before is what they hold after.
\<close>

theorem rb_build_degenerate:
  assumes "inj_on tree {..<14}" and "\<forall>i<14. tree i \<noteq> NULL" and "rb_root s = NULL"
  shows "\<exists>s' T. rb_build tree s = Some s' \<and> tree_at s' (rb_root s') T \<and> ordered (t_data s') T \<and>
    keys (t_data s') T = (\<lambda>i. int i * 100) ` {..<14} \<and> size T = 14 \<and> height T = 14 \<and> rb_parent s' = rb_parent s"
proof -
  let ?T = "spine (map tree [0..<14])"
  obtain s' where s': "rb_build tree s = Some s'" "tree_at s' (rb_root s') ?T"
      "\<forall>i<14. t_data s' (tree i) = int i * 100" "rb_parent s' = rb_parent s"
    using rb_build_spine [OF assms] by blast
  have "map (t_data s') (map tree [0..<14]) = map (\<lambda>i. int i * 100) [0..<14]"
    using s'(3) by (simp del: upt_rec_numeral)
  then have inorder: "map (t_data s') (inorder ?T) = map (\<lambda>i. int i * 100) [0..<14]" by simp
  have "ordered (t_data s') ?T"
    unfolding ordered_def inorder by (simp add: sorted_wrt_map sorted_wrt_upt [THEN sorted_wrt_mono_rel [rotated]] del: upt_rec_numeral)
  moreover have "keys (t_data s') ?T = (\<lambda>i. int i * 100) ` {..<14}"
    using arg_cong [OF inorder, of set] by (simp add: keys_def image_image atLeast0LessThan del: upt_rec_numeral)
  moreover have "size ?T = 14" using length_inorder [of ?T] by simp
  moreover have "height ?T = 14" using height_spine [of "map tree [0..<14]"] by simp
  ultimately show ?thesis using s' by blast
qed

definition rb_boot :: "unit rbtree" where
  "rb_boot = \<lparr>kern = (), klog = [], faults = [], t_data = (\<lambda>_. 0), rb_left = (\<lambda>_. 77), rb_right = (\<lambda>_. 77),
     rb_parent = (\<lambda>p. if p = 20 then NULL else p - 1), rb_root = NULL\<rparr>"

lemma rb_boot_array: "inj_on (\<lambda>i. 20 + i :: addr) {..<14}" "\<forall>i<14. 20 + i \<noteq> (NULL :: addr)" "rb_root rb_boot = NULL"
  by (simp_all add: rb_boot_def)

theorem rb_build_degenerate_witness:
  "\<exists>s' T. rb_build (\<lambda>i. 20 + i) rb_boot = Some s' \<and> tree_at s' (rb_root s') T \<and> height T = 14"
  using rb_build_degenerate [OF rb_boot_array] by blast

text \<open>
  With a traversal that keeps the kernel's contract, and parent pointers that happen to be right in
  the uninitialised array, \<open>start\<close> returns 0, finds 200 and prints 0, 100, ..., 1300 in this order.
\<close>

theorem rb_start_correct:
  assumes "rb_iter rb_first rb_next"
    and "inj_on tree {..<14}" and "\<forall>i<14. tree i \<noteq> NULL" and "rb_root s = NULL"
    and "parents_at s NULL (spine (map tree [0..<14]))"
  shows "\<exists>s'. rb_start rb_first rb_next tree s = Some (0, s') \<and>
    klog s' = klog s @ [Line KERN_INFO ''Start...!'' [], Line KERN_INFO ''Data %d found '' [Num 200]] @
      map (\<lambda>i. Line KERN_INFO ''Data = %d'' [Num (int i * 100)]) [0..<14]"
proof -
  let ?T = "spine (map tree [0..<14])"
  obtain s1 where s1: "rb_build tree s = Some s1" "tree_at s1 (rb_root s1) ?T"
      "\<forall>i<14. t_data s1 (tree i) = int i * 100" "rb_parent s1 = rb_parent s"
      "klog s1 = klog s @ [Line KERN_INFO ''Start...!'' []]"
    using rb_build_spine [OF assms(2-4)] by blast
  have data: "map (t_data s1) (inorder ?T) = map (\<lambda>i. int i * 100) [0..<14]"
    using s1(3) by (simp del: upt_rec_numeral)
  have ord: "ordered (t_data s1) ?T"
    unfolding ordered_def data by (simp add: sorted_wrt_map sorted_wrt_upt [THEN sorted_wrt_mono_rel [rotated]] del: upt_rec_numeral)
  have "t_data s1 (tree 2) \<in> keys (t_data s1) ?T" by (simp add: keys_def del: upt_rec_numeral)
  then obtain n where n: "rb_search s1 200 = Some n" "n \<in> set_tree ?T" "t_data s1 n = 200"
    using rb_search_loop_correct [OF s1(2) ord, of 200] s1(3) by (auto simp: rb_search_def simp del: upt_rec_numeral)
  have "n \<noteq> NULL" by (rule tree_at_nonnull [OF s1(2) n(2)])
  let ?s2 = "pr_info ''Data %d found '' [Num 200] s1"
  have at2: "tree_at ?s2 (rb_root ?s2) ?T" "parents_at ?s2 NULL ?T"
    using tree_at_frame [OF s1(2), of ?s2] parents_at_frame [OF assms(5), of ?s2] s1(4) by (auto simp: printk_def)
  have data2: "map (\<lambda>n. Line KERN_INFO ''Data = %d'' [Num (t_data ?s2 n)]) (inorder ?T) =
      map (\<lambda>i. Line KERN_INFO ''Data = %d'' [Num (int i * 100)]) [0..<14]"
    using arg_cong [OF data, of "map (\<lambda>d. Line KERN_INFO ''Data = %d'' [Num d])"]
    by (simp add: printk_def comp_def del: upt_rec_numeral)
  have "rb_print rb_first rb_next ?s2 = Some (?s2\<lparr>klog := klog ?s2 @
      map (\<lambda>i. Line KERN_INFO ''Data = %d'' [Num (int i * 100)]) [0..<14]\<rparr>)"
    using rb_iter.print_inorder [OF assms(1) at2(1) ordered_distinct [OF ord] at2(2)] unfolding data2 .
  then show ?thesis
    using s1 n \<open>n \<noteq> NULL\<close> by (simp add: rb_start_def del: upt_rec_numeral)
qed

theorem rb_start_correct_witness:
  "\<exists>s'. rb_start walk_first walk_next (\<lambda>i. 20 + i) rb_boot = Some (0, s') \<and> length (klog s') = 16"
proof -
  have "parents_at rb_boot NULL (spine (map (\<lambda>i. 20 + i) [0..<14]))"
    by (simp add: rb_boot_def upt_rec)
  then show ?thesis
    using rb_start_correct [OF walk.rb_iter_axioms rb_boot_array] by (force simp: rb_boot_def)
qed

end
