(* ===== verification/Spinlock.thy ===== *)
theory Spinlock
  imports Lock_Api
begin

text \<open>
  The module \<open>spinlock/code.c\<close>: one spinlock on the stack of \<open>start\<close>, taken and released in the
  four ways the kernel offers: plain, saving the interrupt state, with interrupts off, and with
  bottom halves off. The interface of the plain spinlock is extended with the interrupt state and
  the bottom-half count of the processor.
\<close>

section \<open>The interface with interrupts\<close>

record 'k irq_lock_ops = "'k lock_ops" +
  spin_lock_irqsave_op :: "addr \<Rightarrow> 'k \<Rightarrow> 64 word \<times> 'k"
  spin_unlock_irqrestore_op :: "addr \<Rightarrow> 64 word \<Rightarrow> 'k \<Rightarrow> 'k"
  spin_lock_irq_op :: "addr \<Rightarrow> 'k \<Rightarrow> 'k"
  spin_unlock_irq_op :: "addr \<Rightarrow> 'k \<Rightarrow> 'k"
  spin_lock_bh_op :: "addr \<Rightarrow> 'k \<Rightarrow> 'k"
  spin_unlock_bh_op :: "addr \<Rightarrow> 'k \<Rightarrow> 'k"
  irqs_on :: "'k \<Rightarrow> bool"
  bh_disabled :: "'k \<Rightarrow> nat"

text \<open>Every variant of the lock call has the same ways to be wrong.\<close>

definition acquire :: "('k, 'y) lock_ops_scheme \<Rightarrow> (addr \<Rightarrow> 'k \<Rightarrow> 'k) \<Rightarrow> addr \<Rightarrow> ('k, 'z) env_scheme \<Rightarrow> ('k, 'z) env_scheme" where
  "acquire L f l s = (if l \<in> held L (kern s) then fault (SelfDeadlock l) s else upd_kern (f l) s)"

definition release :: "('k, 'y) lock_ops_scheme \<Rightarrow> (addr \<Rightarrow> 'k \<Rightarrow> 'k) \<Rightarrow> addr \<Rightarrow> ('k, 'z) env_scheme \<Rightarrow> ('k, 'z) env_scheme" where
  "release L f l s = (if l \<in> held L (kern s) then upd_kern (f l) s else fault (BadUnlock l) s)"

definition spin_lock_irqsave ::
  "('k, 'y) irq_lock_ops_scheme \<Rightarrow> addr \<Rightarrow> ('k, 'z) env_scheme \<Rightarrow> 64 word \<times> ('k, 'z) env_scheme" where
  "spin_lock_irqsave L l s =
     (fst (spin_lock_irqsave_op L l (kern s)), acquire L (\<lambda>l k. snd (spin_lock_irqsave_op L l k)) l s)"

section \<open>The module\<close>

definition spinlock_type1 :: "('k, 'y) irq_lock_ops_scheme \<Rightarrow> addr \<Rightarrow> 'k env \<Rightarrow> 'k env" where
  "spinlock_type1 L sl s =
     (let s = spin_lock L sl s;
          i = spin_is_locked_op L sl (kern s);
          s = (if i = 0 then printk KERN_INFO ''spin_is_lock:Lock is free'' [] s
               else printk KERN_INFO ''spin_is_lock:Lock is taken'' [] s);
          (i, s) = spin_trylock L sl s;
          s = (if i = 0 then printk KERN_INFO ''spin_trylock:Lock already taken.'' [] s
               else printk KERN_INFO ''spin_trylock:Lock is free and lock taken'' [] s)
      in spin_unlock L sl s)"

definition spinlock_type2 :: "('k, 'y) irq_lock_ops_scheme \<Rightarrow> addr \<Rightarrow> 'k env \<Rightarrow> 'k env" where
  "spinlock_type2 L sl s =
     (let (flag, s) = spin_lock_irqsave L sl s
      in release L (\<lambda>l. spin_unlock_irqrestore_op L l flag) sl s)"

definition spinlock_type3 :: "('k, 'y) irq_lock_ops_scheme \<Rightarrow> addr \<Rightarrow> 'k env \<Rightarrow> 'k env" where
  "spinlock_type3 L sl s =
     (let s = acquire L (spin_lock_irq_op L) sl s
      in release L (spin_unlock_irq_op L) sl s)"

definition spinlock_type4 :: "('k, 'y) irq_lock_ops_scheme \<Rightarrow> addr \<Rightarrow> 'k env \<Rightarrow> 'k env" where
  "spinlock_type4 L sl s =
     (let s = acquire L (spin_lock_bh_op L) sl s
      in release L (spin_unlock_bh_op L) sl s)"

definition spinlock_start :: "('k, 'y) irq_lock_ops_scheme \<Rightarrow> addr \<Rightarrow> 'k env \<Rightarrow> int \<times> 'k env" where
  "spinlock_start L sl s =
     (let s = printk KERN_INFO ''Start...!'' [] s;
          s = spin_lock_init L sl s;
          s = spinlock_type1 L sl s;
          s = spinlock_type2 L sl s;
          s = spinlock_type3 L sl s;
          s = spinlock_type4 L sl s
      in (0, s))"

definition spinlock_stops :: "'k env \<Rightarrow> 'k env" where
  "spinlock_stops s = printk KERN_INFO ''Goodbye!'' [] s"

section \<open>What the lock variants promise\<close>

locale irq_lock_api = lock_api L for L :: "('k, 'y) irq_lock_ops_scheme" +
  assumes irqsave: "l \<notin> held L k \<Longrightarrow> spin_lock_irqsave_op L l k = (f, k') \<Longrightarrow>
      held L k' = insert l (held L k) \<and> \<not> irqs_on L k' \<and> bh_disabled L k' = bh_disabled L k"
    and held_irqrestore: "l \<in> held L k \<Longrightarrow> held L (spin_unlock_irqrestore_op L l f k) = held L k - {l}"
    and irqs_irqrestore: "spin_lock_irqsave_op L l k = (f, k') \<Longrightarrow>
      irqs_on L (spin_unlock_irqrestore_op L l f k'') = irqs_on L k"
    and bh_irqrestore: "bh_disabled L (spin_unlock_irqrestore_op L l f k) = bh_disabled L k"
    and lock_irq: "l \<notin> held L k \<Longrightarrow> held L (spin_lock_irq_op L l k) = insert l (held L k) \<and>
      \<not> irqs_on L (spin_lock_irq_op L l k) \<and> bh_disabled L (spin_lock_irq_op L l k) = bh_disabled L k"
    and unlock_irq: "l \<in> held L k \<Longrightarrow> held L (spin_unlock_irq_op L l k) = held L k - {l} \<and>
      irqs_on L (spin_unlock_irq_op L l k) \<and> bh_disabled L (spin_unlock_irq_op L l k) = bh_disabled L k"
    and lock_bh: "l \<notin> held L k \<Longrightarrow> held L (spin_lock_bh_op L l k) = insert l (held L k) \<and>
      irqs_on L (spin_lock_bh_op L l k) = irqs_on L k \<and> bh_disabled L (spin_lock_bh_op L l k) = bh_disabled L k + 1"
    and unlock_bh: "l \<in> held L k \<Longrightarrow> held L (spin_unlock_bh_op L l k) = held L k - {l} \<and>
      irqs_on L (spin_unlock_bh_op L l k) = irqs_on L k \<and> bh_disabled L (spin_unlock_bh_op L l k) = bh_disabled L k - 1"
    and irqs_plain: "irqs_on L (spin_lock_init_op L l k) = irqs_on L k" "irqs_on L (spin_lock_op L l k) = irqs_on L k"
      "irqs_on L (spin_unlock_op L l k) = irqs_on L k" "irqs_on L (snd (spin_trylock_op L l k)) = irqs_on L k"
    and bh_plain: "bh_disabled L (spin_lock_init_op L l k) = bh_disabled L k"
      "bh_disabled L (spin_lock_op L l k) = bh_disabled L k" "bh_disabled L (spin_unlock_op L l k) = bh_disabled L k"
      "bh_disabled L (snd (spin_trylock_op L l k)) = bh_disabled L k"
begin

text \<open>Each section, entered with the lock free, leaves it free and commits no fault.\<close>

lemma spinlock_type1_ok:
  assumes "sl \<notin> held L (kern s)"
  shows "held L (kern (spinlock_type1 L sl s)) = held L (kern s)"
    and "irqs_on L (kern (spinlock_type1 L sl s)) = irqs_on L (kern s)"
    and "bh_disabled L (kern (spinlock_type1 L sl s)) = bh_disabled L (kern s)"
    and "faults (spinlock_type1 L sl s) = faults s"
    and "klog (spinlock_type1 L sl s) = klog s @ [Line KERN_INFO ''spin_is_lock:Lock is taken'' [],
      Line KERN_INFO ''spin_trylock:Lock already taken.'' []]"
proof -
  define k where "k = spin_lock_op L sl (kern s)"
  have k: "held L k = insert sl (held L (kern s))" using assms by (simp add: k_def held_lock)
  then have taken: "sl \<in> held L k" by simp
  obtain i k' where t: "spin_trylock_op L sl k = (i, k')" by fastforce
  have t': "i = 0" "held L k' = held L k" using trylock_held [OF taken t] by simp_all
  have nz: "spin_is_locked_op L sl k \<noteq> 0" using taken is_locked_iff by simp
  have run: "spinlock_type1 L sl s = upd_kern (spin_unlock_op L sl)
      (printk KERN_INFO ''spin_trylock:Lock already taken.'' []
        ((printk KERN_INFO ''spin_is_lock:Lock is taken'' [] (s\<lparr>kern := k\<rparr>))\<lparr>kern := k'\<rparr>))"
    using assms nz t t'(1) taken t'(2)
    by (simp add: spinlock_type1_def spin_lock_def spin_trylock_def spin_unlock_def upd_kern_def k_def [symmetric])
  have "held L (spin_unlock_op L sl k') = held L (kern s)"
    using k t'(2) assms held_unlock [of sl k'] by simp
  then show "held L (kern (spinlock_type1 L sl s)) = held L (kern s)" by (simp add: run)
  show "irqs_on L (kern (spinlock_type1 L sl s)) = irqs_on L (kern s)"
    using irqs_plain(4) [of sl k] t by (simp add: run irqs_plain(2,3) k_def)
  show "bh_disabled L (kern (spinlock_type1 L sl s)) = bh_disabled L (kern s)"
    using bh_plain(4) [of sl k] t by (simp add: run bh_plain(2,3) k_def)
  show "faults (spinlock_type1 L sl s) = faults s"
    "klog (spinlock_type1 L sl s) = klog s @ [Line KERN_INFO ''spin_is_lock:Lock is taken'' [],
      Line KERN_INFO ''spin_trylock:Lock already taken.'' []]"
    by (simp_all add: run)
qed

lemma spinlock_type2_ok:
  assumes "sl \<notin> held L (kern s)"
  shows "held L (kern (spinlock_type2 L sl s)) = held L (kern s)"
    and "irqs_on L (kern (spinlock_type2 L sl s)) = irqs_on L (kern s)"
    and "bh_disabled L (kern (spinlock_type2 L sl s)) = bh_disabled L (kern s)"
    and "faults (spinlock_type2 L sl s) = faults s" and "klog (spinlock_type2 L sl s) = klog s"
proof -
  obtain f k where f: "spin_lock_irqsave_op L sl (kern s) = (f, k)" by fastforce
  note k = irqsave [OF assms f]
  have "spinlock_type2 L sl s = s\<lparr>kern := spin_unlock_irqrestore_op L sl f k\<rparr>"
    using assms f k by (simp add: spinlock_type2_def spin_lock_irqsave_def acquire_def release_def upd_kern_def)
  then show "held L (kern (spinlock_type2 L sl s)) = held L (kern s)"
    "irqs_on L (kern (spinlock_type2 L sl s)) = irqs_on L (kern s)"
    "bh_disabled L (kern (spinlock_type2 L sl s)) = bh_disabled L (kern s)"
    "faults (spinlock_type2 L sl s) = faults s" "klog (spinlock_type2 L sl s) = klog s"
    using k assms irqs_irqrestore [OF f] by (simp_all add: held_irqrestore bh_irqrestore)
qed

lemma spinlock_type3_ok:
  assumes "sl \<notin> held L (kern s)"
  shows "held L (kern (spinlock_type3 L sl s)) = held L (kern s)"
    and "irqs_on L (kern (spinlock_type3 L sl s))"
    and "bh_disabled L (kern (spinlock_type3 L sl s)) = bh_disabled L (kern s)"
    and "faults (spinlock_type3 L sl s) = faults s" and "klog (spinlock_type3 L sl s) = klog s"
  using assms lock_irq [OF assms] unlock_irq [of sl "spin_lock_irq_op L sl (kern s)"]
  by (auto simp: spinlock_type3_def acquire_def release_def Let_def)

lemma spinlock_type4_ok:
  assumes "sl \<notin> held L (kern s)"
  shows "held L (kern (spinlock_type4 L sl s)) = held L (kern s)"
    and "irqs_on L (kern (spinlock_type4 L sl s)) = irqs_on L (kern s)"
    and "bh_disabled L (kern (spinlock_type4 L sl s)) = bh_disabled L (kern s)"
    and "faults (spinlock_type4 L sl s) = faults s" and "klog (spinlock_type4 L sl s) = klog s"
  using assms lock_bh [OF assms] unlock_bh [of sl "spin_lock_bh_op L sl (kern s)"]
  by (auto simp: spinlock_type4_def acquire_def release_def Let_def)

lemmas section_ok = spinlock_type1_ok spinlock_type2_ok spinlock_type3_ok spinlock_type4_ok

lemma spinlock_start_ok:
  "fst (spinlock_start L sl s) = 0"
  "held L (kern (snd (spinlock_start L sl s))) = held L (kern s) - {sl}"
  "irqs_on L (kern (snd (spinlock_start L sl s)))"
  "bh_disabled L (kern (snd (spinlock_start L sl s))) = bh_disabled L (kern s)"
  "faults (snd (spinlock_start L sl s)) = faults s"
  "klog (snd (spinlock_start L sl s)) = klog s @ [Line KERN_INFO ''Start...!'' [],
     Line KERN_INFO ''spin_is_lock:Lock is taken'' [], Line KERN_INFO ''spin_trylock:Lock already taken.'' []]"
  by (simp_all add: spinlock_start_def Let_def section_ok spin_lock_init_def held_init bh_plain)

end

section \<open>A reference processor\<close>

record ref_cpu =
  cpu_taken :: "addr list"
  cpu_irqs :: bool
  cpu_bh :: nat

definition ref_cpu_ops :: "ref_cpu irq_lock_ops" where
  "ref_cpu_ops = \<lparr>
     spin_lock_init_op = (\<lambda>l k. k\<lparr>cpu_taken := removeAll l (cpu_taken k)\<rparr>),
     spin_lock_op = (\<lambda>l k. k\<lparr>cpu_taken := l # cpu_taken k\<rparr>),
     spin_unlock_op = (\<lambda>l k. k\<lparr>cpu_taken := removeAll l (cpu_taken k)\<rparr>),
     spin_is_locked_op = (\<lambda>l k. if l \<in> set (cpu_taken k) then 1 else 0),
     spin_trylock_op = (\<lambda>l k. if l \<in> set (cpu_taken k) then (0, k) else (1, k\<lparr>cpu_taken := l # cpu_taken k\<rparr>)),
     held = (\<lambda>k. set (cpu_taken k)),
     spin_lock_irqsave_op = (\<lambda>l k. (if cpu_irqs k then 512 else 0, k\<lparr>cpu_taken := l # cpu_taken k, cpu_irqs := False\<rparr>)),
     spin_unlock_irqrestore_op = (\<lambda>l f k. k\<lparr>cpu_taken := removeAll l (cpu_taken k), cpu_irqs := (f = 512)\<rparr>),
     spin_lock_irq_op = (\<lambda>l k. k\<lparr>cpu_taken := l # cpu_taken k, cpu_irqs := False\<rparr>),
     spin_unlock_irq_op = (\<lambda>l k. k\<lparr>cpu_taken := removeAll l (cpu_taken k), cpu_irqs := True\<rparr>),
     spin_lock_bh_op = (\<lambda>l k. k\<lparr>cpu_taken := l # cpu_taken k, cpu_bh := cpu_bh k + 1\<rparr>),
     spin_unlock_bh_op = (\<lambda>l k. k\<lparr>cpu_taken := removeAll l (cpu_taken k), cpu_bh := cpu_bh k - 1\<rparr>),
     irqs_on = cpu_irqs, bh_disabled = cpu_bh\<rparr>"

interpretation ref_irq: irq_lock_api ref_cpu_ops
  by unfold_locales (auto simp: ref_cpu_ops_def split: if_splits)

definition spinlock_boot :: "bool \<Rightarrow> ref_cpu env" where
  "spinlock_boot irqs = \<lparr>kern = \<lparr>cpu_taken = [], cpu_irqs = irqs, cpu_bh = 0\<rparr>, klog = [], faults = []\<rparr>"

section \<open>Properties\<close>

text \<open>
  C27. \<open>start\<close> of the spinlock module returns 0 without a fault: no lock call waits for the lock it
  holds and no release is of a free lock, in any of the four sections. It logs that the lock was
  taken and that the trial failed, leaves the lock free and the bottom-half count as it was, and
  interrupts enabled.
\<close>

theorem spinlock_start_correct:
  assumes "irq_lock_api L"
  shows "\<exists>s'. spinlock_start L sl s = (0, s') \<and> faults s' = faults s \<and>
    held L (kern s') = held L (kern s) - {sl} \<and> irqs_on L (kern s') \<and>
    bh_disabled L (kern s') = bh_disabled L (kern s) \<and>
    klog s' = klog s @ [Line KERN_INFO ''Start...!'' [], Line KERN_INFO ''spin_is_lock:Lock is taken'' [],
      Line KERN_INFO ''spin_trylock:Lock already taken.'' []]"
  using irq_lock_api.spinlock_start_ok [OF assms, of sl s]
  by (cases "spinlock_start L sl s") simp

theorem spinlock_start_correct_witness:
  "\<exists>s'. spinlock_start ref_cpu_ops 10 (spinlock_boot True) = (0, s') \<and> faults s' = [] \<and> cpu_taken (kern s') = []"
  using spinlock_start_correct [OF ref_irq.irq_lock_api_axioms, of 10 "spinlock_boot True"]
  by (simp add: spinlock_boot_def ref_cpu_ops_def) blast

text \<open>
  The section with the saved state leaves interrupts as it found them, whether they were on or
  off; the section that disables them unconditionally leaves them on even when they were off, so
  it must not be entered with interrupts disabled. Both leave the lock free.
\<close>

theorem spinlock_irq_sections:
  assumes "irq_lock_api L" and "sl \<notin> held L (kern s)"
  shows "irqs_on L (kern (spinlock_type2 L sl s)) = irqs_on L (kern s) \<and>
    irqs_on L (kern (spinlock_type3 L sl s)) \<and>
    held L (kern (spinlock_type2 L sl s)) = held L (kern s) \<and>
    held L (kern (spinlock_type3 L sl s)) = held L (kern s)"
  using irq_lock_api.section_ok [OF assms] by simp

theorem spinlock_irq_sections_witness:
  "\<not> irqs_on ref_cpu_ops (kern (spinlock_boot False)) \<and>
   \<not> irqs_on ref_cpu_ops (kern (spinlock_type2 ref_cpu_ops 10 (spinlock_boot False))) \<and>
   irqs_on ref_cpu_ops (kern (spinlock_type3 ref_cpu_ops 10 (spinlock_boot False)))"
proof -
  have "10 \<notin> held ref_cpu_ops (kern (spinlock_boot False))" "\<not> irqs_on ref_cpu_ops (kern (spinlock_boot False))"
    by (simp_all add: spinlock_boot_def ref_cpu_ops_def)
  then show ?thesis
    using spinlock_irq_sections [OF ref_irq.irq_lock_api_axioms, of 10 "spinlock_boot False"] by simp
qed

end
