(* ===== verification/Task_Struct.thy ===== *)
theory Task_Struct
  imports Ref_Kernel "HOL-Library.Monad_Syntax"
begin

text \<open>
  The module \<open>task_struct/code.c\<close>: the list of all processes is printed. The processes are a ring
  through \<open>init_task\<close>; their names and numbers are the kernel's and are read through the
  arguments \<open>comm\<close> and \<open>pid\<close>. The module takes no lock, so other processors go on changing the
  ring: what they do between the printing of a process and the step to the next one is the
  argument \<open>other\<close>.
\<close>

section \<open>The module\<close>

text \<open>
  \<open>for_each_process\<close> starts behind \<open>init_task\<close> and ends when it is back there; the next pointer is
  read after the body.
\<close>

definition for_each_process ::
  "('k, 'y) list_ops_scheme \<Rightarrow> addr \<Rightarrow> (addr \<Rightarrow> 'k env \<Rightarrow> 'k env) \<Rightarrow> (addr \<Rightarrow> 'k env \<Rightarrow> 'k env) \<Rightarrow> 'k env \<Rightarrow> 'k env option" where
  "for_each_process K init_task other body s = list_for_each_entry K init_task (\<lambda>task s. other task (body task s)) s"

definition task_start ::
  "('k, 'y) list_ops_scheme \<Rightarrow> ('k \<Rightarrow> addr \<Rightarrow> string) \<Rightarrow> ('k \<Rightarrow> addr \<Rightarrow> int) \<Rightarrow> addr \<Rightarrow> (addr \<Rightarrow> 'k env \<Rightarrow> 'k env) \<Rightarrow>
   'k env \<Rightarrow> (int \<times> 'k env) option" where
  "task_start K comm pid init_task other s =
     do {
       let s = pr_info ''Hello, World!'' [] s;
       s \<leftarrow> for_each_process K init_task other (\<lambda>task s.
              let s = deref K task s
              in pr_info ''process: %s, PID: %d'' [Str (comm (kern s) task), Num (pid (kern s) task)] s) s;
       Some (0, s)
     }"

definition task_stops :: "'k env \<Rightarrow> 'k env" where
  "task_stops s = printk KERN_INFO ''Goodbye, World!'' [] s"

section \<open>Processes that come and go\<close>

text \<open>A process is taken off the ring and its structure is freed.\<close>

definition task_exit :: "('k, 'y) rcu_list_ops_scheme \<Rightarrow> addr \<Rightarrow> 'k env \<Rightarrow> 'k env" where
  "task_exit K old s = kfree K old (upd_kern (list_del_rcu_op K old) s)"

definition process_line :: "('k \<Rightarrow> addr \<Rightarrow> string) \<Rightarrow> ('k \<Rightarrow> addr \<Rightarrow> int) \<Rightarrow> 'k \<Rightarrow> addr \<Rightarrow> logline" where
  "process_line comm pid k t = Line KERN_INFO ''process: %s, PID: %d'' [Str (comm k t), Num (pid k t)]"

context list_api
begin

lemma task_start_ok:
  assumes "dlist (kern s) init_task xs" and "set xs \<subseteq> valid K (kern s)"
  shows "task_start K comm pid init_task (\<lambda>_ s. s) s =
    Some (0, s\<lparr>klog := klog s @ Line KERN_INFO ''Hello, World!'' [] # map (process_line comm pid (kern s)) xs\<rparr>)"
proof -
  let ?s = "pr_info ''Hello, World!'' [] s"
  have "list_for_each_entry K init_task (\<lambda>task s. let s = deref K task s
      in pr_info ''process: %s, PID: %d'' [Str (comm (kern s) task), Num (pid (kern s) task)] s) ?s =
    Some (?s\<lparr>klog := klog ?s @ map (\<lambda>p. Line KERN_INFO ''process: %s, PID: %d'' [Str (comm (kern ?s) p), Num (pid (kern ?s) p)]) xs\<rparr>)"
    using assms by (intro for_each_entry_log [where args = "\<lambda>p s. [Str (comm (kern s) p), Num (pid (kern s) p)]"]) simp_all
  then show ?thesis
    by (simp add: task_start_def for_each_process_def process_line_def [abs_def] printk_def)
qed

end

section \<open>Properties\<close>

text \<open>
  A reference kernel with two processes besides \<open>init_task\<close>, which is the static object 1; they are
  allocated objects.
\<close>

definition task_boot :: "ref_kernel env" where
  "task_boot = \<lparr>kern = ref_add_tail 101 1 (ref_add_tail 100 1 (ref_init 1 ((ref_boot 0)\<lparr>objs := [101, 100]\<rparr>))), klog = [], faults = []\<rparr>"

lemma task_boot_ring: "ring (kern task_boot) 1 [100, 101]" "set [100, 101] \<subseteq> valid ref_ops (kern task_boot)"
proof -
  have "ring (ref_add_tail 100 1 (ref_init 1 k)) 1 ([] @ [100])" for k
    using ref_list.dlist_add_tail [of "ref_init 1 k" 1 "[]" 100] ring_init by (simp add: ref_ops_simps)
  then show "ring (kern task_boot) 1 [100, 101]"
    using ref_list.dlist_add_tail [of _ 1 "[100]" 101] by (simp add: ref_ops_simps task_boot_def)
  show "set [100, 101] \<subseteq> valid ref_ops (kern task_boot)"
    by (simp add: task_boot_def ref_eval)
qed

text \<open>
  C35. While the ring of processes does not change, loading the module returns 0 and prints every
  process except \<open>init_task\<close> once, in the order of the ring, and changes nothing else.
\<close>

theorem task_start_lists_processes:
  assumes "list_api K dlist" and "dlist (kern s) init_task xs" and "set xs \<subseteq> valid K (kern s)"
  shows "\<exists>s'. task_start K comm pid init_task (\<lambda>_ s. s) s = Some (0, s') \<and> kern s' = kern s \<and> faults s' = faults s \<and>
    distinct xs \<and> init_task \<notin> set xs \<and>
    klog s' = klog s @ Line KERN_INFO ''Hello, World!'' [] # map (process_line comm pid (kern s)) xs"
  using list_api.task_start_ok [OF assms] list_api.dlist_distinct [OF assms(1,2)] by simp

theorem task_start_lists_processes_witness:
  "\<exists>s'. task_start ref_ops (\<lambda>_ _. ''sh'') (\<lambda>_ t. int t) 1 (\<lambda>_ s. s) task_boot = Some (0, s') \<and> length (klog s') = 3"
  using task_start_lists_processes [OF ref_list.list_api_axioms task_boot_ring, of "\<lambda>_ _. ''sh''" "\<lambda>_ t. int t"]
  by (auto simp: task_boot_def)

text \<open>
  Without a lock the walk is not safe: when the process that has just been printed exits and its
  structure is freed before the walk goes on, the walk reads the next pointer from freed memory.
\<close>

theorem task_start_race:
  "\<exists>s'. task_start ref_ops (\<lambda>_ _. ''sh'') (\<lambda>_ t. int t) 1 (\<lambda>t. if t = 100 then task_exit ref_ops 100 else (\<lambda>s. s)) task_boot =
     Some (0, s') \<and> faults s' = [UseAfterFree 100]"
  by (simp add: task_start_def for_each_process_def task_exit_def task_boot_def ref_eval)

end
