(* ===== verification/Thread01.thy ===== *)
theory Thread01
  imports Ref_Kernel "HOL-Library.Monad_Syntax"
begin

text \<open>
  The module \<open>thread01/code.c\<close>: five kernel threads are created stopped, put on a list, woken by
  a walk over it, and stopped one after the other when the module is unloaded. The allocator and
  the lists are the argument \<open>K\<close>, the threads \<open>T\<close>; the address of the list head \<open>gwl\<close> is an
  argument. \<open>msleep\<close> has no effect on the state. A woken thread writes its messages while \<open>km_init\<close>,
  \<open>km_exit\<close> and the rest of the system run, and changes nothing else: the log of the state holds the
  lines of \<open>km_init\<close> and \<open>km_exit\<close> in their order, and those of the threads, which the theorem about
  \<open>mfoo\<close> gives, come in between anywhere.
\<close>

section \<open>State and operations\<close>

text \<open>
  The array \<open>g_work\<close> of pointers and the member \<open>task\<close> of every \<open>struct mywork\<close>; the member
  \<open>list\<close> is kept by the kernel. \<open>loop_i\<close> is the local variable \<open>i\<close> of \<open>start_mythread\<close> and
  \<open>km_exit\<close>, which their loop bodies update.
\<close>

record 'k thread01 = "'k env" +
  g_work :: "nat \<Rightarrow> addr"
  work_task :: "addr \<Rightarrow> addr"
  loop_i :: int

abbreviation (input) ELEMENTS :: nat where "ELEMENTS \<equiv> 5"
abbreviation (input) sizeof_mywork :: nat where "sizeof_mywork \<equiv> 24"

text \<open>
  The thread function. \<open>stop n\<close> is what the call number \<open>n\<close> of \<open>kthread_should_stop\<close> returns.
\<close>

partial_function (option) mfoo_loop :: "(nat \<Rightarrow> bool) \<Rightarrow> nat \<Rightarrow> logline list \<Rightarrow> (int \<times> logline list) option" where
  "mfoo_loop stop n l =
     (if stop n then Some (0, l)
      else mfoo_loop stop (Suc n) (l @ [Line KERN_INFO ''My thread is running...'' []]))"

definition mfoo :: threadfn where
  "mfoo stop l = mfoo_loop stop 0 l"

definition start_mythread ::
  "('k, 'y) list_ops_scheme \<Rightarrow> ('k, 'w) kthread_ops_scheme \<Rightarrow> addr \<Rightarrow> 'k thread01 \<Rightarrow> 'k thread01 option" where
  "start_mythread K T gwl s =
     do {
       s \<leftarrow> list_for_each_entry_block K gwl (\<lambda>work s.
              let s = pr_info ''Data = %d'' [Num (loop_i s)] s;
                  s = s\<lparr>loop_i := loop_i s + 1\<rparr>;
                  s = deref K work s
              in Some (wake_process T (work_task s work) s)) (s\<lparr>loop_i := 0\<rparr>);
       Some (pr_info ''=============='' [] s)
     }"

text \<open>\<open>sprintf(task_name, "my_super_task%d", i)\<close>, for one digit.\<close>

definition task_name :: "nat \<Rightarrow> string" where
  "task_name i = ''my_super_task'' @ [char_of (48 + i)]"

text \<open>One round of the loop that creates the threads; \<open>Inl\<close> is the early return.\<close>

definition km_create ::
  "('k, 'y) list_ops_scheme \<Rightarrow> ('k, 'w) kthread_ops_scheme \<Rightarrow> nat \<Rightarrow> 'k thread01 \<Rightarrow> (int \<times> 'k thread01) + 'k thread01" where
  "km_create K T i s =
     (let (p, s) = kmalloc K sizeof_mywork s; s = s\<lparr>g_work := (g_work s)(i := p)\<rparr>
      in if g_work s i = NULL then Inl (-1, pr_info ''Kmalloc Failed %d'' [Num (int i)] s)
         else
           let (t, s) = kthread_create T mfoo (task_name i) s;
               s = deref K (g_work s i) s;
               s = s\<lparr>work_task := (work_task s)(g_work s i := t)\<rparr>
           in if IS_ERR (work_task s (g_work s i)) then Inl (-1, printk KERN_INFO ''kthread failed for:%d'' [Num (int i)] s)
              else Inr s)"

definition km_init ::
  "('k, 'y) list_ops_scheme \<Rightarrow> ('k, 'w) kthread_ops_scheme \<Rightarrow> addr \<Rightarrow> 'k thread01 \<Rightarrow> (int \<times> 'k thread01) option" where
  "km_init K T gwl s =
     (case c_for [0..<ELEMENTS] (km_create K T) s of
        Inl r \<Rightarrow> Some r
      | Inr s \<Rightarrow>
          let s = pr_info ''All task created!'' [] s;
              s = INIT_LIST_HEAD K gwl s;
              s = fold (\<lambda>i s. list_add K (g_work s i) gwl s) [0..<ELEMENTS] s
          in do {
               s \<leftarrow> start_mythread K T gwl s;
               Some (0, s)
             })"

text \<open>The body of the loop of \<open>km_exit\<close>; the stop waits for the thread.\<close>

definition km_exit_body ::
  "('k, 'y) list_ops_scheme \<Rightarrow> ('k, 'w) kthread_ops_scheme \<Rightarrow> addr \<Rightarrow> 'k thread01 \<Rightarrow> 'k thread01 option" where
  "km_exit_body K T work s =
     do {
       (ret, s) \<leftarrow> kthread_stop T (work_task s work) (deref K work s);
       Some (if ret = 0 then (printk KERN_INFO ''Thread stopped:%d'' [Num (loop_i s)] s)\<lparr>loop_i := loop_i s + 1\<rparr>
             else s)
     }"

definition km_exit ::
  "('k, 'y) list_ops_scheme \<Rightarrow> ('k, 'w) kthread_ops_scheme \<Rightarrow> addr \<Rightarrow> 'k thread01 \<Rightarrow> 'k thread01 option" where
  "km_exit K T gwl s =
     do {
       s \<leftarrow> list_for_each_entry_block K gwl (km_exit_body K T) (s\<lparr>loop_i := 0\<rparr>);
       let s = fold (\<lambda>i s. kfree K (g_work s i) s) [0..<ELEMENTS] s;
       Some (printk KERN_INFO ''Goodbye'' [] s)
     }"

section \<open>The thread function\<close>

lemma mfoo_loop_returns: "stop (n + d) \<Longrightarrow> (\<And>i. i < d \<Longrightarrow> \<not> stop (n + i)) \<Longrightarrow>
    mfoo_loop stop n l = Some (0, l @ replicate d (Line KERN_INFO ''My thread is running...'' []))"
proof (induction d arbitrary: n l)
  case 0
  then show ?case by (simp add: mfoo_loop.simps)
next
  case (Suc d)
  have "\<not> stop n" using Suc.prems(2) [of 0] by simp
  moreover have "\<not> stop (Suc n + i)" if "i < d" for i using Suc.prems(2) [of "Suc i"] that by simp
  then have "mfoo_loop stop (Suc n) l' = Some (0, l' @ replicate d (Line KERN_INFO ''My thread is running...'' []))" for l'
    using Suc.IH [of "Suc n"] Suc.prems(1) by simp
  ultimately show ?case by (subst mfoo_loop.simps) simp
qed

lemma mfoo_loop_stopped: "mfoo_loop stop n l = Some r \<Longrightarrow> \<exists>i. stop i"
  by (rule mfoo_loop.raw_induct [where P = "\<lambda>stop n l r. \<exists>i. stop i"]) (auto split: if_splits)

text \<open>The thread returns 0, and only when it is told to.\<close>

lemma mfoo_eq:
  "mfoo stop l = (if \<exists>n. stop n then Some (0, l @ replicate (LEAST n. stop n) (Line KERN_INFO ''My thread is running...'' []))
     else None)"
proof (cases "\<exists>n. stop n")
  case True
  define m where "m = (LEAST n. stop n)"
  have "stop (0 + m)" unfolding m_def add_0 by (rule LeastI_ex [OF True])
  moreover have "\<not> stop (0 + i)" if "i < m" for i
    using that unfolding m_def add_0 by (rule not_less_Least)
  ultimately have "mfoo stop l = Some (0, l @ replicate m (Line KERN_INFO ''My thread is running...'' []))"
    unfolding mfoo_def by (rule mfoo_loop_returns)
  then show ?thesis using True by (simp only: m_def if_True)
next
  case False
  have "mfoo_loop stop 0 l = None"
  proof (cases "mfoo_loop stop 0 l")
    case (Some r)
    then show ?thesis using mfoo_loop_stopped False by blast
  qed
  then show ?thesis using False by (simp add: mfoo_def)
qed

lemma stoppable_mfoo: "stoppable mfoo"
  by (auto simp: stoppable_def mfoo_eq)

lemma mfoo_result: "mfoo stop l = Some (r, l') \<Longrightarrow> r = 0"
  by (simp add: mfoo_eq split: if_splits)

text \<open>The messages of the two loops over the list.\<close>

definition data_line :: "nat \<Rightarrow> logline" where
  "data_line i = Line KERN_INFO ''Data = %d'' [Num (int i)]"

definition end_line :: logline where
  "end_line = Line KERN_INFO ''=============='' []"

definition stopped_line :: "nat \<Rightarrow> logline" where
  "stopped_line i = Line KERN_INFO ''Thread stopped:%d'' [Num (int i)]"

section \<open>Loading\<close>

definition my_task :: "'k thread01 \<Rightarrow> nat \<Rightarrow> addr" where
  "my_task s i = work_task s (g_work s i)"

text \<open>What holds before round \<open>i\<close> of the creation loop, for a module loaded in state \<open>s0\<close>.\<close>

definition create_inv ::
  "('k, 'y) list_ops_scheme \<Rightarrow> ('k, 'w) kthread_ops_scheme \<Rightarrow> 'k thread01 \<Rightarrow> nat \<Rightarrow> 'k thread01 \<Rightarrow> bool" where
  "create_inv K T s0 i s \<longleftrightarrow>
     inj_on (g_work s) {..<i} \<and> g_work s ` {..<i} \<inter> valid K (kern s0) = {} \<and>
     allocated K (kern s) = allocated K (kern s0) \<union> g_work s ` {..<i} \<and>
     inj_on (my_task s) {..<i} \<and> my_task s ` {..<i} \<inter> dom (threads T (kern s0)) = {} \<and>
     threads T (kern s) = (\<lambda>t. if t \<in> my_task s ` {..<i} then Some mfoo else threads T (kern s0) t) \<and>
     runnable T (kern s) = runnable T (kern s0) \<and> klog s = klog s0 \<and> faults s = faults s0"

text \<open>
  What an early return leaves behind: the structures and the stopped threads of the earlier
  rounds, and in the second case the structure of this round.
\<close>

definition create_left ::
  "('k, 'y) list_ops_scheme \<Rightarrow> ('k, 'w) kthread_ops_scheme \<Rightarrow> 'k thread01 \<Rightarrow> nat \<Rightarrow> 'k thread01 \<Rightarrow> bool" where
  "create_left K T s0 i s \<longleftrightarrow> faults s = faults s0 \<and> runnable T (kern s) = runnable T (kern s0) \<and>
     (\<exists>ws ts. ws \<inter> allocated K (kern s0) = {} \<and> allocated K (kern s) = allocated K (kern s0) \<union> ws \<and>
        ts \<inter> dom (threads T (kern s0)) = {} \<and> dom (threads T (kern s)) = dom (threads T (kern s0)) \<union> ts \<and> card ts = i \<and>
        (klog s = klog s0 @ [Line KERN_INFO ''Kmalloc Failed %d'' [Num (int i)]] \<and> card ws = i \<or>
         klog s = klog s0 @ [Line KERN_INFO ''kthread failed for:%d'' [Num (int i)]] \<and> card ws = Suc i))"

lemma dom_overlay: "dom (\<lambda>t. if t \<in> A then Some x else m t) = dom m \<union> A"
  by (auto simp: dom_def)

lemma create_inv_dom:
  "create_inv K T s0 i s \<Longrightarrow> dom (threads T (kern s)) = dom (threads T (kern s0)) \<union> my_task s ` {..<i}"
  by (simp add: create_inv_def dom_overlay)

lemma create_leftI:
  assumes "create_inv K T s0 i s" and "faults s' = faults s" and "runnable T (kern s') = runnable T (kern s)"
    and "threads T (kern s') = threads T (kern s)"
    and "allocated K (kern s') = allocated K (kern s) \<and> klog s' = klog s @ [Line KERN_INFO ''Kmalloc Failed %d'' [Num (int i)]] \<or>
      p \<notin> valid K (kern s) \<and> allocated K (kern s') = insert p (allocated K (kern s)) \<and>
      klog s' = klog s @ [Line KERN_INFO ''kthread failed for:%d'' [Num (int i)]]"
  shows "create_left K T s0 i s'"
proof -
  note inv = assms(1) [unfolded create_inv_def]
  let ?ws = "g_work s ` {..<i}" and ?ts = "my_task s ` {..<i}"
  have ws: "card ?ws = i" "?ws \<inter> allocated K (kern s0) = {}" and ts: "card ?ts = i"
    using inv by (auto simp: card_image valid_def)
  have base: "faults s' = faults s0" "runnable T (kern s') = runnable T (kern s0)"
    "dom (threads T (kern s')) = dom (threads T (kern s0)) \<union> ?ts" "?ts \<inter> dom (threads T (kern s0)) = {}"
    using inv assms(2-4) create_inv_dom [OF assms(1)] by simp_all
  show ?thesis
    using assms(5)
  proof
    assume "allocated K (kern s') = allocated K (kern s) \<and> klog s' = klog s @ [Line KERN_INFO ''Kmalloc Failed %d'' [Num (int i)]]"
    then show ?thesis
      unfolding create_left_def using base ws ts inv by (intro conjI exI [of _ ?ws] exI [of _ ?ts]) simp_all
  next
    assume a: "p \<notin> valid K (kern s) \<and> allocated K (kern s') = insert p (allocated K (kern s)) \<and>
      klog s' = klog s @ [Line KERN_INFO ''kthread failed for:%d'' [Num (int i)]]"
    then have "p \<notin> ?ws" "p \<notin> allocated K (kern s0)" using inv by (auto simp: valid_def)
    then have "card (insert p ?ws) = Suc i" "insert p ?ws \<inter> allocated K (kern s0) = {}" using ws by auto
    then show ?thesis
      unfolding create_left_def using base ts inv a by (intro conjI exI [of _ "insert p ?ws"] exI [of _ ?ts]) simp_all
  qed
qed

context kthread_api
begin

text \<open>A round with a structure \<open>p\<close> and a thread \<open>t\<close>; the earlier rounds' are untouched.\<close>

lemma create_inv_add:
  assumes inv: "create_inv K T s0 i s" and p: "p \<notin> valid K (kern s)"
    and a: "allocated K k = insert p (allocated K (kern s))" and t: "threads T (kern s) t = None"
    and th: "threads T k = (threads T (kern s))(t \<mapsto> mfoo)" and r: "runnable T k = runnable T (kern s)"
  shows "create_inv K T s0 (Suc i) (s\<lparr>g_work := (g_work s)(i := p), kern := k, work_task := (work_task s)(p := t)\<rparr>)"
    (is "create_inv K T s0 (Suc i) ?s")
proof -
  have p': "p \<notin> g_work s ` {..<i}" "p \<notin> valid K (kern s0)"
    using p inv by (auto simp: create_inv_def valid_def)
  have g: "g_work ?s j = g_work s j" if "j < i" for j using that by simp
  have m: "my_task ?s j = my_task s j" if "j < i" for j using that p' by (auto simp: my_task_def)
  have "g_work ?s ` {..<i} = g_work s ` {..<i}" "my_task ?s ` {..<i} = my_task s ` {..<i}"
    by (rule image_cong; use g m in simp)+
  moreover have "g_work ?s i = p" "my_task ?s i = t" by (simp_all add: my_task_def)
  ultimately have im: "g_work ?s ` {..<Suc i} = insert p (g_work s ` {..<i})"
      "my_task ?s ` {..<Suc i} = insert t (my_task s ` {..<i})"
    by (simp_all only: lessThan_Suc image_insert)
  have t': "t \<notin> my_task s ` {..<i}" "t \<notin> dom (threads T (kern s0))"
    using t create_inv_dom [OF inv] by auto
  have "inj_on (g_work ?s) {..<Suc i}" "inj_on (my_task ?s) {..<Suc i}"
    using inv p' t' g m unfolding create_inv_def lessThan_Suc by (auto simp: inj_on_def my_task_def)
  then show ?thesis
    using inv p' t' a th r unfolding create_inv_def im by (auto simp: fun_eq_iff)
qed

lemma km_create_step:
  assumes inv: "create_inv K T s0 i s"
  shows "case km_create K T i s of Inl (r, s') \<Rightarrow> r = -1 \<and> create_left K T s0 i s' | Inr s' \<Rightarrow> create_inv K T s0 (Suc i) s'"
proof -
  obtain p s1 where m: "kmalloc K sizeof_mywork s = (p, s1)" by fastforce
  show ?thesis
    using m
  proof (cases rule: kmalloc_cases)
    case (1 k)
    have "create_left K T s0 i (pr_info ''Kmalloc Failed %d'' [Num (int i)] (s\<lparr>kern := k, g_work := (g_work s)(i := NULL)\<rparr>))"
      using 1(3) threads_kmalloc [OF 1(4)] by (intro create_leftI [OF inv]) (simp_all add: printk_def)
    then show ?thesis using 1(1,2) m by (simp add: km_create_def)
  next
    case (2 k)
    obtain t k' where c: "kthread_create_op T mfoo (task_name i) k = (t, k')" by fastforce
    have v: "p \<in> valid K k'" using 2(4) allocated_create [OF c] by (simp add: valid_def)
    note th = threads_kmalloc [OF 2(5)]
    have a: "allocated K k' = insert p (allocated K (kern s))" using 2(4) allocated_create [OF c] by simp
    show ?thesis
    proof (cases "IS_ERR t")
      case True
      have "create_left K T s0 i (printk KERN_INFO ''kthread failed for:%d'' [Num (int i)]
          (s\<lparr>g_work := (g_work s)(i := p), kern := k', work_task := (work_task s)(p := t)\<rparr>))"
        using 2(2) a th create_stopped [OF c] create_failed [OF c True]
        by (intro create_leftI [OF inv, where p = p]) (simp_all add: printk_def)
      then show ?thesis
        using 2(1,3) m c v True by (simp add: km_create_def kthread_create_def)
    next
      case False
      have "create_inv K T s0 (Suc i) (s\<lparr>g_work := (g_work s)(i := p), kern := k', work_task := (work_task s)(p := t)\<rparr>)"
        using create_thread [OF c False] th create_stopped [OF c] by (intro create_inv_add [OF inv 2(2) a]) simp_all
      then show ?thesis
        using 2(1,3) m c v False by (simp add: km_create_def kthread_create_def)
    qed
  qed
qed

lemma km_create_all:
  assumes "c_for [0..<ELEMENTS] (km_create K T) s = res"
  shows "case res of Inl (r, s') \<Rightarrow> r = -1 \<and> (\<exists>i<ELEMENTS. create_left K T s i s') | Inr s' \<Rightarrow> create_inv K T s ELEMENTS s'"
proof -
  have "case c_for [0..<ELEMENTS] (km_create K T) s of
      Inl r \<Rightarrow> fst r = -1 \<and> (\<exists>i<ELEMENTS. create_left K T s i (snd r)) | Inr s' \<Rightarrow> create_inv K T s ELEMENTS s'"
  proof (rule c_for_rule [where P = "create_inv K T s"])
    show "create_inv K T s 0 s" by (simp add: create_inv_def)
    fix i s1
    assume "i < ELEMENTS" and "create_inv K T s i s1"
    then show "case km_create K T i s1 of Inl r \<Rightarrow> fst r = -1 \<and> (\<exists>i<ELEMENTS. create_left K T s i (snd r))
        | Inr s' \<Rightarrow> create_inv K T s (Suc i) s'"
      using km_create_step [of s i s1] by (auto split: sum.splits prod.splits)
  qed
  then show ?thesis using assms by (auto split: sum.splits)
qed

section \<open>Waking and stopping\<close>

lemma start_mythread_ok:
  assumes d: "dlist (kern s) h xs" and v: "set xs \<subseteq> valid K (kern s)"
    and t: "work_task s ` set xs \<subseteq> dom (threads T (kern s))"
  shows "\<exists>k. start_mythread K T h s =
      Some (s\<lparr>loop_i := int (length xs), kern := k, klog := klog s @ map data_line [0..<length xs] @ [end_line]\<rparr>) \<and>
    dlist k h xs \<and> allocated K k = allocated K (kern s) \<and> threads T k = threads T (kern s) \<and>
    runnable T k = runnable T (kern s) \<union> work_task s ` set xs"
proof -
  define I where "I as s' \<longleftrightarrow> (\<exists>k. s' = s\<lparr>loop_i := int (length as), kern := k, klog := klog s @ map data_line [0..<length as]\<rparr> \<and>
    dlist k h xs \<and> allocated K k = allocated K (kern s) \<and> threads T k = threads T (kern s) \<and>
    runnable T k = runnable T (kern s) \<union> work_task s ` set as)" for as s'
  let ?body = "\<lambda>work s. let s = pr_info ''Data = %d'' [Num (loop_i s)] s; s = s\<lparr>loop_i := loop_i s + 1\<rparr>; s = deref K work s
      in Some (wake_process T (work_task s work) s)"
  have "\<exists>s'. list_for_each_entry_block K h ?body (s\<lparr>loop_i := 0\<rparr>) = Some s' \<and> I xs s'"
  proof (rule for_each_entry_block)
    show "I [] (s\<lparr>loop_i := 0\<rparr>)" unfolding I_def using d by (intro exI [of _ "kern s"]) simp
    show "dlist (kern s') h xs \<and> set xs \<subseteq> valid K (kern s')" if "I as s'" for as s'
      using that v by (auto simp: I_def valid_def)
    fix as b bs s'
    assume xs: "xs = as @ b # bs" and "I as s'"
    then obtain k where k: "s' = s\<lparr>loop_i := int (length as), kern := k, klog := klog s @ map data_line [0..<length as]\<rparr>"
      "dlist k h xs" "allocated K k = allocated K (kern s)" "threads T k = threads T (kern s)"
      "runnable T k = runnable T (kern s) \<union> work_task s ` set as"
      by (auto simp: I_def)
    have b: "b \<in> valid K k" "work_task s b \<in> dom (threads T k)" using xs v t k(3,4) by (auto simp: valid_def)
    let ?k = "wake_up_process_op T (work_task s b) k"
    have "?body b s' = Some (s\<lparr>loop_i := int (length (as @ [b])), kern := ?k,
        klog := klog s @ map data_line [0..<length (as @ [b])]\<rparr>)"
      using b by (simp add: k(1) printk_def data_line_def wake_process_ok)
    moreover have "I (as @ [b]) (s\<lparr>loop_i := int (length (as @ [b])), kern := ?k,
        klog := klog s @ map data_line [0..<length (as @ [b])]\<rparr>)"
      unfolding I_def using k dlist_wake [OF k(2)] wake_threads wake_runnable [OF b(2)] allocated_wake
      by (intro exI [of _ ?k]) auto
    ultimately show "\<exists>s''. ?body b s' = Some s'' \<and> I (as @ [b]) s''" by blast
  qed
  then show ?thesis by (auto simp: I_def start_mythread_def printk_def end_line_def)
qed

lemma km_exit_loop:
  assumes d: "dlist (kern s) h xs" and v: "set xs \<subseteq> valid K (kern s)" and inj: "inj_on (work_task s) (set xs)"
    and t: "\<And>w. w \<in> set xs \<Longrightarrow> threads T (kern s) (work_task s w) = Some mfoo \<and> work_task s w \<in> runnable T (kern s)"
  shows "\<exists>k. list_for_each_entry_block K h (km_exit_body K T) (s\<lparr>loop_i := 0\<rparr>) =
      Some (s\<lparr>loop_i := int (length xs), kern := k, klog := klog s @ map stopped_line [0..<length xs]\<rparr>) \<and>
    dlist k h xs \<and> allocated K k = allocated K (kern s) \<and>
    threads T k = threads T (kern s) |` (- work_task s ` set xs) \<and>
    runnable T k = runnable T (kern s) - work_task s ` set xs"
proof -
  define I where "I as s' \<longleftrightarrow> (\<exists>k. s' = s\<lparr>loop_i := int (length as), kern := k, klog := klog s @ map stopped_line [0..<length as]\<rparr> \<and>
    dlist k h xs \<and> allocated K k = allocated K (kern s) \<and> threads T k = threads T (kern s) |` (- work_task s ` set as) \<and>
    runnable T k = runnable T (kern s) - work_task s ` set as)" for as s'
  have "\<exists>s'. list_for_each_entry_block K h (km_exit_body K T) (s\<lparr>loop_i := 0\<rparr>) = Some s' \<and> I xs s'"
  proof (rule for_each_entry_block)
    show "I [] (s\<lparr>loop_i := 0\<rparr>)" unfolding I_def using d by (intro exI [of _ "kern s"]) (simp add: restrict_map_def)
    show "dlist (kern s') h xs \<and> set xs \<subseteq> valid K (kern s')" if "I as s'" for as s'
      using that v by (auto simp: I_def valid_def)
    fix as b bs s'
    assume xs: "xs = as @ b # bs" and "I as s'"
    then obtain k where k: "s' = s\<lparr>loop_i := int (length as), kern := k, klog := klog s @ map stopped_line [0..<length as]\<rparr>"
      "dlist k h xs" "allocated K k = allocated K (kern s)" "threads T k = threads T (kern s) |` (- work_task s ` set as)"
      "runnable T k = runnable T (kern s) - work_task s ` set as"
      by (auto simp: I_def)
    have "work_task s b \<notin> work_task s ` set as"
      using inj dlist_distinct [OF d] unfolding xs by (auto simp: inj_on_def)
    then have b: "threads T (kern s') (work_task s' b) = Some mfoo" "work_task s' b \<in> runnable T (kern s')"
      using t [of b] xs k by auto
    obtain k' where k': "kthread_stop T (work_task s' b) s' = Some (0, s'\<lparr>kern := k'\<rparr>)"
      "threads T k' = (threads T (kern s'))(work_task s' b := None)"
      "runnable T k' = runnable T (kern s') - {work_task s' b}" "allocated K k' = allocated K (kern s')"
      "\<And>h xs. dlist (kern s') h xs \<Longrightarrow> dlist k' h xs"
      by (rule kthread_stop_ok [OF b stoppable_mfoo, of 0]) (auto dest: mfoo_result)
    let ?s = "s\<lparr>loop_i := int (length (as @ [b])), kern := k', klog := klog s @ map stopped_line [0..<length (as @ [b])]\<rparr>"
    have "b \<in> valid K (kern s')" using xs v k(1,3) by (auto simp: valid_def)
    then have "km_exit_body K T b s' = Some ?s"
      using k'(1) by (simp add: km_exit_body_def) (simp add: k(1) printk_def stopped_line_def)
    moreover have "I (as @ [b]) ?s"
      unfolding I_def using k k'(2-5) by (intro exI [of _ k']) (auto simp: restrict_map_def fun_eq_iff)
    ultimately show "\<exists>s''. km_exit_body K T b s' = Some s'' \<and> I (as @ [b]) s''" by blast
  qed
  then show ?thesis by (auto simp: I_def)
qed

end

text \<open>The loops over the array, as loops over the pointers in it.\<close>

lemma g_work_list_add [simp]: "g_work (list_add K n h s) = g_work s"
  by (simp add: list_add_def deref_def env_defs)

lemma g_work_kfree [simp]: "g_work (kfree K n s) = g_work s"
  by (simp add: kfree_def env_defs)

lemma add_all: "fold (\<lambda>i s. list_add K (g_work s i) h s) is s = fold (\<lambda>n. list_add K n h) (map (g_work s) is) s"
  by (induction "is" arbitrary: s) simp_all

lemma free_all: "fold (\<lambda>i s. kfree K (g_work s i) s) is s = fold (kfree K) (map (g_work s) is) s"
  by (induction "is" arbitrary: s) simp_all

text \<open>The state of the loaded module.\<close>

definition thread01_loaded ::
  "('k, 'y) list_ops_scheme \<Rightarrow> ('k \<Rightarrow> addr \<Rightarrow> addr list \<Rightarrow> bool) \<Rightarrow> ('k, 'w) kthread_ops_scheme \<Rightarrow> addr \<Rightarrow> 'k thread01 \<Rightarrow> bool" where
  "thread01_loaded K dlist T gwl s \<longleftrightarrow>
     dlist (kern s) gwl (map (g_work s) (rev [0..<ELEMENTS])) \<and>
     inj_on (g_work s) {..<ELEMENTS} \<and> g_work s ` {..<ELEMENTS} \<subseteq> allocated K (kern s) \<and>
     inj_on (my_task s) {..<ELEMENTS} \<and>
     (\<forall>i<ELEMENTS. threads T (kern s) (my_task s i) = Some mfoo \<and> my_task s i \<in> runnable T (kern s))"

context kthread_api
begin

text \<open>The five structures go on the list; the last one is first.\<close>

lemma km_init_list:
  assumes inv: "create_inv K T s0 ELEMENTS s" and g: "gwl \<in> statics K"
  shows "\<exists>k. fold (\<lambda>i s. list_add K (g_work s i) gwl s) [0..<ELEMENTS]
        (INIT_LIST_HEAD K gwl (pr_info ''All task created!'' [] s)) =
      s\<lparr>kern := k, klog := klog s @ [Line KERN_INFO ''All task created!'' []]\<rparr> \<and>
    dlist k gwl (rev (map (g_work s) [0..<ELEMENTS])) \<and> allocated K k = allocated K (kern s) \<and>
    threads T k = threads T (kern s) \<and> runnable T k = runnable T (kern s)"
proof -
  note i = inv [unfolded create_inv_def]
  let ?ns = "map (g_work s) [0..<ELEMENTS]"
  define s1 where "s1 = INIT_LIST_HEAD K gwl (pr_info ''All task created!'' [] s)"
  have gv: "gwl \<in> valid K k" for k using g by (simp add: valid_def)
  have s1: "s1 = s\<lparr>kern := INIT_LIST_HEAD_op K gwl (kern s), klog := klog s @ [Line KERN_INFO ''All task created!'' []]\<rparr>"
    using gv by (simp add: s1_def INIT_LIST_HEAD_def printk_def upd_kern_def)
  have nset: "set ?ns = g_work s ` {..<ELEMENTS}" by (simp only: set_map set_upt_image_less)
  have "set ?ns \<inter> valid K (kern s0) = {}" using i unfolding nset by blast
  then have fresh: "gwl \<notin> set ?ns" using gv by blast
  have v: "set ?ns \<subseteq> valid K (kern s1)"
    unfolding nset using i by (auto simp: s1 valid_def)
  have dist: "distinct ?ns" using i by (simp add: distinct_map atLeast0LessThan del: upt_rec_numeral)
  define k2 where "k2 = fold (\<lambda>n. list_add_op K n gwl) ?ns (kern s1)"
  have "fold (\<lambda>i s. list_add K (g_work s i) gwl s) [0..<ELEMENTS] s1 = s1\<lparr>kern := k2\<rparr>"
    using list_add_fold(1) [OF v] unfolding add_all by (simp add: s1 k2_def upd_kern_def)
  moreover have "allocated K k2 = allocated K (kern s)" using list_add_fold(2) [OF v] by (simp add: k2_def s1)
  moreover have "threads T k2 = threads T (kern s)" "runnable T k2 = runnable T (kern s)"
    by (simp_all add: k2_def s1 threads_add_all threads_init del: upt_rec_numeral)
  moreover have "dlist k2 gwl (rev ?ns)"
    using dlist_push_all [OF _ dist, of "kern s1" gwl "[]"] fresh dlist_init by (simp add: k2_def s1 del: upt_rec_numeral)
  ultimately show ?thesis
    by (intro exI [of _ k2]) (simp add: s1_def [symmetric] del: upt_rec_numeral, simp add: s1)
qed

text \<open>From the end of the creation loop to the end of \<open>km_init\<close>.\<close>

lemma km_init_rest:
  assumes inv: "create_inv K T s0 ELEMENTS s" and g: "gwl \<in> statics K"
  shows "\<exists>s'. (let s = pr_info ''All task created!'' [] s; s = INIT_LIST_HEAD K gwl s;
        s = fold (\<lambda>i s. list_add K (g_work s i) gwl s) [0..<ELEMENTS] s
      in do { s \<leftarrow> start_mythread K T gwl s; Some (0, s) }) = Some (0 :: int, s') \<and>
    thread01_loaded K dlist T gwl s' \<and> faults s' = faults s0 \<and>
    allocated K (kern s') = allocated K (kern s0) \<union> g_work s' ` {..<ELEMENTS} \<and>
    g_work s' ` {..<ELEMENTS} \<inter> allocated K (kern s0) = {} \<and>
    threads T (kern s') = (\<lambda>t. if t \<in> my_task s' ` {..<ELEMENTS} then Some mfoo else threads T (kern s0) t) \<and>
    my_task s' ` {..<ELEMENTS} \<inter> dom (threads T (kern s0)) = {} \<and>
    runnable T (kern s') = runnable T (kern s0) \<union> my_task s' ` {..<ELEMENTS} \<and>
    klog s' = klog s0 @ [Line KERN_INFO ''All task created!'' []] @ map data_line [0..<ELEMENTS] @ [end_line]"
proof -
  note i = inv [unfolded create_inv_def]
  let ?ns = "map (g_work s) [0..<ELEMENTS]"
  obtain k2 where s2: "fold (\<lambda>i s. list_add K (g_work s i) gwl s) [0..<ELEMENTS]
        (INIT_LIST_HEAD K gwl (pr_info ''All task created!'' [] s)) =
      s\<lparr>kern := k2, klog := klog s @ [Line KERN_INFO ''All task created!'' []]\<rparr>" (is "_ = ?s2")
    and d2: "dlist k2 gwl (rev ?ns)" and a2: "allocated K k2 = allocated K (kern s)"
    and t2: "threads T k2 = threads T (kern s)" "runnable T k2 = runnable T (kern s)"
    using km_init_list [OF inv g] by blast
  have nset: "set ?ns = g_work s ` {..<ELEMENTS}" by (simp only: set_map set_upt_image_less)
  have rset: "set (rev ?ns) = g_work s ` {..<ELEMENTS}" using nset by simp
  have tset: "work_task s ` set (rev ?ns) = my_task s ` {..<ELEMENTS}"
    unfolding rset by (auto simp: my_task_def)
  have "work_task ?s2 ` set (rev ?ns) \<subseteq> dom (threads T (kern ?s2))"
    using tset create_inv_dom [OF inv] t2 by (simp del: upt_rec_numeral)
  moreover have "set (rev ?ns) \<subseteq> valid K (kern ?s2)" unfolding rset using a2 i by (auto simp: valid_def)
  ultimately obtain k where k: "start_mythread K T gwl ?s2 = Some (?s2\<lparr>loop_i := int (length (rev ?ns)), kern := k,
        klog := klog ?s2 @ map data_line [0..<length (rev ?ns)] @ [end_line]\<rparr>)"
      "dlist k gwl (rev ?ns)" "allocated K k = allocated K k2" "threads T k = threads T k2"
      "runnable T k = runnable T k2 \<union> work_task s ` set (rev ?ns)"
    using start_mythread_ok [of ?s2 gwl "rev ?ns"] d2 by (auto simp del: upt_rec_numeral)
  define s' where "s' = ?s2\<lparr>loop_i := 5, kern := k, klog := klog ?s2 @ map data_line [0..<ELEMENTS] @ [end_line]\<rparr>"
  have run: "start_mythread K T gwl ?s2 = Some s'" using k(1) by (simp add: s'_def del: upt_rec_numeral)
  have my: "g_work s' = g_work s" "my_task s' = my_task s" "kern s' = k" "faults s' = faults s"
    by (simp_all add: s'_def my_task_def fun_eq_iff del: upt_rec_numeral)
  have th: "threads T k = (\<lambda>t. if t \<in> my_task s ` {..<ELEMENTS} then Some mfoo else threads T (kern s0) t)"
    "runnable T k = runnable T (kern s0) \<union> my_task s ` {..<ELEMENTS}"
    "allocated K k = allocated K (kern s0) \<union> g_work s ` {..<ELEMENTS}"
    using k(3-5) t2 a2 i unfolding tset by simp_all
  have "dlist k gwl (map (g_work s) (rev [0..<ELEMENTS]))" using k(2) by (simp add: rev_map del: upt_rec_numeral)
  then have "thread01_loaded K dlist T gwl s'"
    using i th unfolding thread01_loaded_def my by auto
  moreover have "klog s' = klog s0 @ [Line KERN_INFO ''All task created!'' []] @ map data_line [0..<ELEMENTS] @ [end_line]"
    using i by (simp add: s'_def del: upt_rec_numeral)
  moreover have "g_work s ` {..<ELEMENTS} \<inter> allocated K (kern s0) = {}" using i by (auto simp: valid_def)
  ultimately show ?thesis
    using run i th my by (intro exI [of _ s']) (simp add: s2 del: upt_rec_numeral)
qed

lemma km_exit_ok:
  assumes "thread01_loaded K dlist T gwl s"
  shows "\<exists>s'. km_exit K T gwl s = Some s' \<and> faults s' = faults s \<and>
    allocated K (kern s') = allocated K (kern s) - g_work s ` {..<ELEMENTS} \<and>
    threads T (kern s') = threads T (kern s) |` (- my_task s ` {..<ELEMENTS}) \<and>
    runnable T (kern s') = runnable T (kern s) - my_task s ` {..<ELEMENTS} \<and>
    klog s' = klog s @ map stopped_line [0..<ELEMENTS] @ [Line KERN_INFO ''Goodbye'' []]"
proof -
  note l = assms [unfolded thread01_loaded_def]
  let ?xs = "map (g_work s) (rev [0..<ELEMENTS])" and ?ns = "map (g_work s) [0..<ELEMENTS]"
  have xset: "set ?xs = g_work s ` {..<ELEMENTS}" and nset: "set ?ns = g_work s ` {..<ELEMENTS}"
    by (simp_all only: set_map set_rev set_upt_image_less)
  have "set ?xs \<subseteq> valid K (kern s)" unfolding xset using l by (auto simp: valid_def)
  moreover have "inj_on (work_task s) (set ?xs)"
    unfolding xset using l by (auto simp: inj_on_def my_task_def)
  moreover have "threads T (kern s) (work_task s w) = Some mfoo \<and> work_task s w \<in> runnable T (kern s)" if "w \<in> set ?xs" for w
    using that l unfolding xset by (auto simp: my_task_def)
  ultimately obtain k where k: "list_for_each_entry_block K gwl (km_exit_body K T) (s\<lparr>loop_i := 0\<rparr>) =
      Some (s\<lparr>loop_i := int (length ?xs), kern := k, klog := klog s @ map stopped_line [0..<length ?xs]\<rparr>)" (is "_ = Some ?s1")
    "allocated K k = allocated K (kern s)" "threads T k = threads T (kern s) |` (- work_task s ` set ?xs)"
    "runnable T k = runnable T (kern s) - work_task s ` set ?xs"
    using km_exit_loop [of s gwl ?xs] l by blast
  have tset: "work_task s ` set ?xs = my_task s ` {..<ELEMENTS}" unfolding xset by (auto simp: my_task_def)
  have "distinct ?ns" using l by (simp add: distinct_map atLeast0LessThan del: upt_rec_numeral)
  moreover have "set ?ns \<subseteq> allocated K (kern ?s1)" unfolding nset using l k(2) by simp
  ultimately have fr: "allocated K (kern (fold (kfree K) ?ns ?s1)) = allocated K (kern ?s1) - set ?ns"
      "faults (fold (kfree K) ?ns ?s1) = faults ?s1" "klog (fold (kfree K) ?ns ?s1) = klog ?s1"
    by (rule kfree_all)+
  have "km_exit K T gwl s = Some (printk KERN_INFO ''Goodbye'' [] (fold (kfree K) ?ns ?s1))"
    by (simp add: km_exit_def k(1) free_all del: upt_rec_numeral)
  then show ?thesis
    using fr k(2-4) unfolding nset tset by (simp add: threads_kfree_all del: upt_rec_numeral)
qed

lemma km_init_cases:
  assumes "gwl \<in> statics K"
  obtains s' where "km_init K T gwl s = Some (0, s')" "thread01_loaded K dlist T gwl s'" "faults s' = faults s"
      "allocated K (kern s') = allocated K (kern s) \<union> g_work s' ` {..<ELEMENTS}"
      "g_work s' ` {..<ELEMENTS} \<inter> allocated K (kern s) = {}"
      "threads T (kern s') = (\<lambda>t. if t \<in> my_task s' ` {..<ELEMENTS} then Some mfoo else threads T (kern s) t)"
      "my_task s' ` {..<ELEMENTS} \<inter> dom (threads T (kern s)) = {}"
      "runnable T (kern s') = runnable T (kern s) \<union> my_task s' ` {..<ELEMENTS}"
      "klog s' = klog s @ [Line KERN_INFO ''All task created!'' []] @ map data_line [0..<ELEMENTS] @ [end_line]"
  | s' i where "km_init K T gwl s = Some (-1, s')" "i < ELEMENTS" "create_left K T s i s'"
proof (cases "c_for [0..<ELEMENTS] (km_create K T) s")
  case (Inl rs)
  obtain r s' where rs: "rs = (r, s')" by fastforce
  show thesis using that(2) km_create_all [OF Inl] by (auto simp: rs km_init_def Inl simp del: upt_rec_numeral)
next
  case (Inr s1)
  have inv: "create_inv K T s ELEMENTS s1" using km_create_all [OF Inr] by simp
  note rest = km_init_rest [OF inv assms]
  have "km_init K T gwl s = (let s = pr_info ''All task created!'' [] s1; s = INIT_LIST_HEAD K gwl s;
        s = fold (\<lambda>i s. list_add K (g_work s i) gwl s) [0..<ELEMENTS] s
      in do { s \<leftarrow> start_mythread K T gwl s; Some (0, s) })"
    by (simp only: km_init_def Inr sum.case)
  from rest [folded this] show thesis by (elim exE conjE) (rule that(1))
qed

text \<open>Whether loading succeeds is decided by the creation loop.\<close>

lemma km_init_success:
  assumes "gwl \<in> statics K" and "\<not> isl (c_for [0..<ELEMENTS] (km_create K T) s)"
  shows "\<exists>s'. km_init K T gwl s = Some (0, s')"
proof -
  obtain s1 where Inr: "c_for [0..<ELEMENTS] (km_create K T) s = Inr s1" using assms(2) unfolding isl_def by (metis sumE)
  then have "create_inv K T s ELEMENTS s1" using km_create_all [OF Inr] by simp
  from km_init_rest [OF this assms(1)] show ?thesis unfolding km_init_def Inr sum.case by (elim exE conjE) (rule exI)
qed

end

section \<open>Properties\<close>

definition thread01_boot :: "nat \<Rightarrow> ref_kernel thread01" where
  "thread01_boot n = \<lparr>kern = ref_boot n, klog = [], faults = [], g_work = (\<lambda>_. NULL), work_task = (\<lambda>_. NULL), loop_i = 0\<rparr>"

text \<open>
  C28. The thread function returns as soon as \<open>kthread_should_stop\<close> is true, with the result 0,
  having written one message for every earlier call; a thread that is never told to stop never
  returns.
\<close>

theorem mfoo_returns:
  "mfoo stop l = (if \<exists>n. stop n then Some (0, l @ replicate (LEAST n. stop n) (Line KERN_INFO ''My thread is running...'' []))
     else None)"
  by (rule mfoo_eq)

text \<open>
  C24. Loading the module returns in every case. It returns 0 when all five structures and threads
  were created: then the threads run, the list holds the structures with the last one first, and
  the messages are in order. It returns -1 when an allocation or a creation failed in round \<open>i\<close>:
  then nothing is undone, \<open>i\<close> stopped threads and their structures are left (and one more
  structure when the thread could not be created).
\<close>

theorem thread01_init:
  assumes "kthread_api K dlist T" and "gwl \<in> statics K"
  shows "\<exists>r s'. km_init K T gwl s = Some (r, s') \<and> faults s' = faults s \<and>
    (r = 0 \<and> thread01_loaded K dlist T gwl s' \<and>
       klog s' = klog s @ [Line KERN_INFO ''All task created!'' []] @ map data_line [0..<ELEMENTS] @ [end_line] \<or>
     r = -1 \<and> (\<exists>i<ELEMENTS. create_left K T s i s'))"
proof (cases rule: kthread_api.km_init_cases [OF assms(1,2), of s])
  case (1 s')
  then show ?thesis by (intro exI [of _ 0] exI [of _ s']) simp
next
  case (2 s' i)
  then have "faults s' = faults s" by (simp add: create_left_def)
  then show ?thesis using 2 by (intro exI [of _ "-1"] exI [of _ s']) blast
qed

theorem thread01_init_witness:
  "\<exists>s'. km_init ref_ops ref_threads 1 (thread01_boot 2) = Some (-1, s') \<and>
     card (dom (threads ref_threads (kern s'))) = 1"
proof -
  obtain r s' where run: "km_init ref_ops ref_threads 1 (thread01_boot 2) = Some (r, s')"
    and left: "r = 0 \<or> r = -1 \<and> (\<exists>i<ELEMENTS. create_left ref_ops ref_threads (thread01_boot 2) i s')"
    using thread01_init [OF ref_kthread.kthread_api_axioms, of 1 "thread01_boot 2"] by auto
  have "map_option fst (km_init ref_ops ref_threads 1 (thread01_boot 2)) = Some (-1)"
    "map_option (\<lambda>x. dom (threads ref_threads (kern (snd x)))) (km_init ref_ops ref_threads 1 (thread01_boot 2)) = Some {1}"
    by (simp_all add: km_init_def km_create_def thread01_boot_def ref_eval ref_threads_simps ref_create_def ref_tid_def IS_ERR_def)
  then show ?thesis using run left by auto
qed

text \<open>
  C14. Unloading what was loaded terminates, since every thread obeys its stop; it stops all five
  threads, each with the result 0, and frees all five structures, so that the threads of the
  kernel and its memory are what they were before the module was loaded.
\<close>

theorem thread01_lifecycle:
  assumes "kthread_api K dlist T" and "gwl \<in> statics K" and "km_init K T gwl s = Some (0, s1)"
  shows "\<exists>s2. km_exit K T gwl s1 = Some s2 \<and> threads T (kern s2) = threads T (kern s) \<and>
    allocated K (kern s2) = allocated K (kern s) \<and> faults s2 = faults s \<and>
    klog s2 = klog s1 @ map stopped_line [0..<ELEMENTS] @ [Line KERN_INFO ''Goodbye'' []]"
proof (cases rule: kthread_api.km_init_cases [OF assms(1,2), of s])
  case (1 s')
  then have s': "s' = s1" using assms(3) by simp
  obtain s2 where s2: "km_exit K T gwl s1 = Some s2" "faults s2 = faults s1"
    "allocated K (kern s2) = allocated K (kern s1) - g_work s1 ` {..<ELEMENTS}"
    "threads T (kern s2) = threads T (kern s1) |` (- my_task s1 ` {..<ELEMENTS})"
    "klog s2 = klog s1 @ map stopped_line [0..<ELEMENTS] @ [Line KERN_INFO ''Goodbye'' []]"
    using kthread_api.km_exit_ok [OF assms(1) 1(2)] unfolding s' by blast
  have "threads T (kern s2) = threads T (kern s)"
  proof
    fix t
    have "threads T (kern s) t = None" if "t \<in> my_task s1 ` {..<ELEMENTS}"
      using that 1(7) unfolding s' by blast
    then show "threads T (kern s2) t = threads T (kern s) t"
      unfolding s2(4) 1(6) [unfolded s'] by (simp add: restrict_map_def)
  qed
  moreover have "allocated K (kern s2) = allocated K (kern s)" using 1(4,5) unfolding s' s2(3) by auto
  ultimately show ?thesis using s2 1(3) s' by simp
qed (use assms(3) in simp)

theorem thread01_lifecycle_witness:
  "\<exists>s1 s2. km_init ref_ops ref_threads 1 (thread01_boot 10) = Some (0, s1) \<and>
     km_exit ref_ops ref_threads 1 s1 = Some s2 \<and> dom (threads ref_threads (kern s2)) = {} \<and> ref_allocated (kern s2) = {}"
proof -
  have "\<not> isl (c_for [0..<ELEMENTS] (km_create ref_ops ref_threads) (thread01_boot 10))"
    by (simp add: km_create_def thread01_boot_def ref_eval ref_threads_simps ref_create_def ref_tid_def IS_ERR_def)
  then obtain s1 where s1: "km_init ref_ops ref_threads 1 (thread01_boot 10) = Some (0, s1)"
    using ref_kthread.km_init_success [of 1] by auto
  then show ?thesis
    using thread01_lifecycle [OF ref_kthread.kthread_api_axioms _ s1]
    by (auto simp: thread01_boot_def ref_boot_def ref_ops_simps ref_threads_simps ref_allocated_def ref_top_def)
qed

end
