(* ===== verification/Wait_Api.thy ===== *)
theory Wait_Api
  imports Thread_Api
begin

text \<open>
  Tasks and wait queues, as the modules that wait for an event use them: the creation of a stopped
  task, the wake-ups, the two calls \<open>wait_event_interruptible\<close> makes around its sleep, and the
  arrival of a signal. The operations are the kernel's; their laws are those of
  \<open>linux/wait.h\<close> and \<open>kernel/sched/wait.c\<close>.
\<close>

section \<open>Operations\<close>

text \<open>
  A queue and a task are named by their addresses. \<open>waits_on\<close> observes that a task has an entry on
  a queue, \<open>ready\<close> that the scheduler may run it (\<open>TASK_RUNNING\<close>), \<open>signalled\<close> that a signal is
  pending for it. \<open>prepare_to_wait_event_op\<close> puts the task on the queue and takes it out of the running state
  and returns 0, or, when a signal is pending, takes it off the queue and returns an error.
\<close>

record 'w wait_ops =
  kthread_new_op :: "string \<Rightarrow> 'w \<Rightarrow> addr \<times> 'w"
  wake_task_op :: "addr \<Rightarrow> 'w \<Rightarrow> 'w"
  init_waitqueue_head_op :: "addr \<Rightarrow> 'w \<Rightarrow> 'w"
  wake_up_interruptible_op :: "addr \<Rightarrow> 'w \<Rightarrow> 'w"
  prepare_to_wait_event_op :: "addr \<Rightarrow> addr \<Rightarrow> 'w \<Rightarrow> int \<times> 'w"
  finish_wait_op :: "addr \<Rightarrow> addr \<Rightarrow> 'w \<Rightarrow> 'w"
  signal_op :: "addr \<Rightarrow> 'w \<Rightarrow> 'w"
  waits_on :: "'w \<Rightarrow> addr \<Rightarrow> addr \<Rightarrow> bool"
  ready :: "'w \<Rightarrow> addr \<Rightarrow> bool"
  signalled :: "'w \<Rightarrow> addr \<Rightarrow> bool"

section \<open>What the kernel promises\<close>

text \<open>
  A created task is stopped until it is woken. A wake-up of a queue makes the tasks on it ready, and
  takes off the queue those that it has made ready; a signal makes its task ready and leaves the
  queue alone. A task sleeps until it is made ready: there are no other wake-ups.
\<close>

locale wait_api =
  fixes W :: "('w, 'v) wait_ops_scheme"
  assumes new_stopped: "kthread_new_op W nm w = (t, w') \<Longrightarrow> \<not> IS_ERR t \<Longrightarrow> \<not> ready W w' t \<and> \<not> signalled W w' t"
    and wake_task_ready: "ready W (wake_task_op W t w) t"
    and wake_task_signalled: "signalled W (wake_task_op W t w) t = signalled W w t"
    and init_ready: "ready W (init_waitqueue_head_op W q w) t = ready W w t"
    and init_signalled: "signalled W (init_waitqueue_head_op W q w) t = signalled W w t"
    and wake_up_ready: "ready W (wake_up_interruptible_op W q w) t \<longleftrightarrow> ready W w t \<or> waits_on W w q t"
    and wake_up_waits: "waits_on W (wake_up_interruptible_op W q w) q t \<longleftrightarrow> waits_on W w q t \<and> ready W w t"
    and wake_up_signalled: "signalled W (wake_up_interruptible_op W q w) t = signalled W w t"
    and prepare_waits: "\<not> signalled W w t \<Longrightarrow> prepare_to_wait_event_op W q t w = (r, w') \<Longrightarrow>
      r = 0 \<and> waits_on W w' q t \<and> \<not> ready W w' t"
    and prepare_interrupted: "signalled W w t \<Longrightarrow> prepare_to_wait_event_op W q t w = (r, w') \<Longrightarrow>
      r \<noteq> 0 \<and> \<not> waits_on W w' q t"
    and prepare_signalled: "prepare_to_wait_event_op W q t w = (r, w') \<Longrightarrow> signalled W w' t = signalled W w t"
    and finish_waits: "\<not> waits_on W (finish_wait_op W q t w) q t"
    and finish_ready: "ready W (finish_wait_op W q t w) t"
    and finish_signalled: "signalled W (finish_wait_op W q t w) t = signalled W w t"
    and signal_ready: "ready W (signal_op W t w) t"
    and signal_waits: "waits_on W (signal_op W t w) q t = waits_on W w q t"
    and signal_signalled: "signalled W (signal_op W t w) t"
begin

lemmas wait_laws = wake_task_ready wake_task_signalled init_ready init_signalled wake_up_ready wake_up_signalled
  finish_waits finish_ready finish_signalled signal_ready signal_waits signal_signalled

text \<open>A task on the queue, or ready, is ready after the wake-up: it is not lost.\<close>

lemma wake_up_not_lost: "waits_on W w q t \<or> ready W w t \<Longrightarrow> ready W (wake_up_interruptible_op W q w) t"
  by (auto simp: wake_up_ready)

end

section \<open>A reference instance\<close>

text \<open>The addresses of the tasks that can still be created, and the three observations as lists.\<close>

record wait_state =
  spare :: "addr list"
  entries :: "(addr \<times> addr) list"
  running :: "addr list"
  signals :: "addr list"

definition ref_wait :: "wait_state wait_ops" where
  "ref_wait = \<lparr>
     kthread_new_op = (\<lambda>nm w. case spare w of [] \<Rightarrow> (2 ^ 64 - 12, w)
       | t # ts \<Rightarrow> (t, w\<lparr>spare := ts, running := removeAll t (running w), signals := removeAll t (signals w)\<rparr>)),
     wake_task_op = (\<lambda>t w. w\<lparr>running := t # running w\<rparr>),
     init_waitqueue_head_op = (\<lambda>q w. w\<lparr>entries := filter (\<lambda>e. fst e \<noteq> q) (entries w)\<rparr>),
     wake_up_interruptible_op = (\<lambda>q w. w\<lparr>
       entries := filter (\<lambda>e. fst e \<noteq> q \<or> snd e \<in> set (running w)) (entries w),
       running := map snd (filter (\<lambda>e. fst e = q) (entries w)) @ running w\<rparr>),
     prepare_to_wait_event_op = (\<lambda>q t w.
       if t \<in> set (signals w) then (-512, w\<lparr>entries := removeAll (q, t) (entries w)\<rparr>)
       else (0, w\<lparr>entries := (q, t) # removeAll (q, t) (entries w), running := removeAll t (running w)\<rparr>)),
     finish_wait_op = (\<lambda>q t w. w\<lparr>entries := removeAll (q, t) (entries w), running := t # removeAll t (running w)\<rparr>),
     signal_op = (\<lambda>t w. w\<lparr>signals := t # signals w, running := t # running w\<rparr>),
     waits_on = (\<lambda>w q t. (q, t) \<in> set (entries w)),
     ready = (\<lambda>w t. t \<in> set (running w)),
     signalled = (\<lambda>w t. t \<in> set (signals w))\<rparr>"

lemma ref_wait_simps:
  "kthread_new_op ref_wait nm w = (case spare w of [] \<Rightarrow> (2 ^ 64 - 12, w)
     | t # ts \<Rightarrow> (t, w\<lparr>spare := ts, running := removeAll t (running w), signals := removeAll t (signals w)\<rparr>))"
  "wake_task_op ref_wait t w = w\<lparr>running := t # running w\<rparr>"
  "init_waitqueue_head_op ref_wait q w = w\<lparr>entries := filter (\<lambda>e. fst e \<noteq> q) (entries w)\<rparr>"
  "wake_up_interruptible_op ref_wait q w = w\<lparr>
     entries := filter (\<lambda>e. fst e \<noteq> q \<or> snd e \<in> set (running w)) (entries w),
     running := map snd (filter (\<lambda>e. fst e = q) (entries w)) @ running w\<rparr>"
  "prepare_to_wait_event_op ref_wait q t w =
     (if t \<in> set (signals w) then (-512, w\<lparr>entries := removeAll (q, t) (entries w)\<rparr>)
      else (0, w\<lparr>entries := (q, t) # removeAll (q, t) (entries w), running := removeAll t (running w)\<rparr>))"
  "finish_wait_op ref_wait q t w = w\<lparr>entries := removeAll (q, t) (entries w), running := t # removeAll t (running w)\<rparr>"
  "signal_op ref_wait t w = w\<lparr>signals := t # signals w, running := t # running w\<rparr>"
  "waits_on ref_wait w q t \<longleftrightarrow> (q, t) \<in> set (entries w)"
  "ready ref_wait w t \<longleftrightarrow> t \<in> set (running w)"
  "signalled ref_wait w t \<longleftrightarrow> t \<in> set (signals w)"
  by (simp_all add: ref_wait_def)

interpretation ref_waits: wait_api ref_wait
  by unfold_locales (auto simp: ref_wait_simps IS_ERR_def image_iff split: list.splits if_splits)

end
