(* ===== verification/Wait_Queue.thy ===== *)
theory Wait_Queue
  imports Step_System Wait_Api
begin

text \<open>
  The module \<open>wait_queue/code.c\<close>: \<open>start\<close> creates a kernel thread that waits on a queue until
  \<open>condition\<close> becomes positive, and wakes it twice, the first time in vain. The two run
  concurrently; the model is a step relation in which every statement of \<open>start\<close> and every
  step of \<open>wait_event_interruptible\<close> is atomic and they interleave in any order (\<open>msleep\<close> gives
  no guarantee about the other thread and is no step of its own). The creation of the thread, the
  wake-ups and the calls the wait makes are the kernel's (\<open>W\<close>, theory \<open>Wait_Api\<close>); \<open>q\<close> is the address of
  the queue \<open>wq\<close>. What the scheduler does is in the step relation: a thread that is not ready does
  not run.
\<close>

section \<open>State\<close>

text \<open>
  Where the thread is: it does not exist; before its first message; at the first test of the
  condition; about to put itself on the queue; about to test again, with the result of the
  preparation; asleep; behind the wait; finished.
\<close>

datatype foo_pc = F_none | F_begin | F_test | F_prepare | F_check int | F_sleep | F_again | F_done

text \<open>
  \<open>start_pc\<close> is the number of the next statement of \<open>start\<close> and \<open>ret\<close> its result, once it has
  returned; \<open>loaded\<close> says that the module is still in memory.
\<close>

record 'w wait_queue = "'w env" +
  mytask :: addr
  condition :: int
  start_pc :: nat
  ret :: "int option"
  foo :: foo_pc
  loaded :: bool

definition wq_boot :: "'w \<Rightarrow> 'w wait_queue" where
  "wq_boot w = \<lparr>kern = w, klog = [], faults = [], mytask = NULL, condition = 0, start_pc = 0, ret = None,
     foo = F_none, loaded = True\<rparr>"

section \<open>The statements\<close>

text \<open>The beginning of \<open>start\<close>: the queue is initialised and the thread created, stopped.\<close>

definition wq_create :: "('w, 'v) wait_ops_scheme \<Rightarrow> addr \<Rightarrow> 'w wait_queue \<Rightarrow> 'w wait_queue" where
  "wq_create W q s =
     (let s = upd_kern (init_waitqueue_head_op W q) s;
          (t, k) = kthread_new_op W ''my_super_task'' (kern s);
          s = s\<lparr>kern := k, mytask := t\<rparr>
      in if IS_ERR (mytask s) then (printk KERN_INFO ''kthread failed'' [] s)\<lparr>start_pc := 12, ret := Some (-1)\<rparr>
         else s\<lparr>start_pc := 1, foo := F_begin\<rparr>)"

text \<open>
  The statements of \<open>start\<close> after the creation of the thread, numbered from 1; the last one
  returns.
\<close>

definition wq_start_stmt :: "('w, 'v) wait_ops_scheme \<Rightarrow> addr \<Rightarrow> nat \<Rightarrow> 'w wait_queue \<Rightarrow> 'w wait_queue" where
  "wq_start_stmt W q n s =
     (if n = 1 then printk KERN_INFO ''***** Hello world! waiting...***** '' [] s
      else if n = 2 then upd_kern (wake_task_op W (mytask s)) s
      else if n = 3 then s\<lparr>condition := 0\<rparr>
      else if n = 4 then printk KERN_INFO ''***** Attempt 1: The condition is not met... ***** '' [] s
      else if n = 5 then upd_kern (wake_up_interruptible_op W q) s
      else if n = 6 then s\<lparr>condition := 1\<rparr>
      else if n = 7 then printk KERN_INFO ''***** Attempt 2: The condition is met... ***** '' [] s
      else if n = 8 then upd_kern (wake_up_interruptible_op W q) s
      else if n = 9 then printk KERN_INFO ''***** wake up Done... 2nd time.... pause then exit***** '' [] s
      else if n = 10 then printk KERN_INFO ''***** Hello world! Done...***** '' [] s
      else s\<lparr>ret := Some 0\<rparr>)"

text \<open>
  The steps of \<open>mfoo\<close>; \<open>None\<close> when the thread cannot run. \<open>wait_event_interruptible\<close> tests the
  condition, and while it is false prepares to wait, tests again and, unless the preparation reported
  a signal, sleeps until the thread is ready.
\<close>

fun wq_mfoo :: "('w, 'v) wait_ops_scheme \<Rightarrow> addr \<Rightarrow> foo_pc \<Rightarrow> 'w wait_queue \<Rightarrow> 'w wait_queue option" where
  "wq_mfoo W q F_begin s =
     (if ready W (kern s) (mytask s)
      then Some ((printk KERN_INFO ''My thread is running...Oh its going to sleep... '' [] s)\<lparr>foo := F_test\<rparr>)
      else None)"
| "wq_mfoo W q F_test s = Some (if condition s > 0 then s\<lparr>foo := F_again\<rparr> else s\<lparr>foo := F_prepare\<rparr>)"
| "wq_mfoo W q F_prepare s =
     (let (r, k) = prepare_to_wait_event_op W q (mytask s) (kern s) in Some (s\<lparr>kern := k, foo := F_check r\<rparr>))"
| "wq_mfoo W q (F_check r) s =
     Some (if condition s > 0 then (upd_kern (finish_wait_op W q (mytask s)) s)\<lparr>foo := F_again\<rparr>
           else if r \<noteq> 0 then s\<lparr>foo := F_again\<rparr>
           else s\<lparr>foo := F_sleep\<rparr>)"
| "wq_mfoo W q F_sleep s = (if ready W (kern s) (mytask s) then Some (s\<lparr>foo := F_prepare\<rparr>) else None)"
| "wq_mfoo W q F_again s = Some ((printk KERN_INFO ''My thread is running again...'' [] s)\<lparr>foo := F_done\<rparr>)"
| "wq_mfoo W q _ s = None"

definition wq_stops :: "'w wait_queue \<Rightarrow> 'w wait_queue" where
  "wq_stops s = (printk KERN_INFO ''Cleaning up module.'' [] s)\<lparr>loaded := False\<rparr>"

text \<open>The thread executes code of the module: to run it when the module is unloaded is a fault.\<close>

definition wq_code :: "'w wait_queue \<Rightarrow> 'w wait_queue" where
  "wq_code s = (if loaded s then s else fault UnloadedCode s)"

inductive wq_step :: "('w, 'v) wait_ops_scheme \<Rightarrow> addr \<Rightarrow> 'w wait_queue \<Rightarrow> 'w wait_queue \<Rightarrow> bool" for W q where
  create: "start_pc s = 0 \<Longrightarrow> ret s = None \<Longrightarrow> wq_step W q s (wq_create W q s)"
| main: "1 \<le> start_pc s \<Longrightarrow> start_pc s \<le> 11 \<Longrightarrow> ret s = None \<Longrightarrow>
    wq_step W q s ((wq_start_stmt W q (start_pc s) s)\<lparr>start_pc := start_pc s + 1\<rparr>)"
| thread: "wq_mfoo W q (foo s) (wq_code s) = Some t \<Longrightarrow> wq_step W q s t"
| unload: "ret s = Some 0 \<Longrightarrow> loaded s \<Longrightarrow> wq_step W q s (wq_stops s)"

abbreviation wq_reach :: "('w, 'v) wait_ops_scheme \<Rightarrow> addr \<Rightarrow> 'w \<Rightarrow> 'w wait_queue \<Rightarrow> bool" where
  "wq_reach W q w \<equiv> reachable (wq_boot w) (wq_step W q)"

lemmas wq_reach_step = reachable.step [where boot = "wq_boot w" and step = "wq_step W q"] for w W q

inductive_cases wq_stepE: "wq_step W q s t"

section \<open>The invariant\<close>

text \<open>
  The result -1 means that no thread was created; the only fault there can be is that the thread
  runs after the module was unloaded.
\<close>

definition wq_faults_ok :: "bool \<Rightarrow> fault list \<Rightarrow> bool" where
  "wq_faults_ok l fs \<longleftrightarrow> set fs \<subseteq> (if l then {} else {UnloadedCode})"

lemma wq_faults_ok_simps [simp]:
  "wq_faults_ok l []" "wq_faults_ok False (fs @ [UnloadedCode]) = wq_faults_ok False fs"
  by (simp_all add: wq_faults_ok_def)

lemma wq_faults_ok_unload: "wq_faults_ok l fs \<Longrightarrow> wq_faults_ok False fs"
  by (auto simp: wq_faults_ok_def split: if_splits)

text \<open>The thread is in the loop of its wait, and the result of its preparation.\<close>

fun in_wait :: "foo_pc \<Rightarrow> bool" where
  "in_wait F_sleep = True"
| "in_wait (F_check r) = True"
| "in_wait _ = False"

fun undisturbed :: "foo_pc \<Rightarrow> bool" where
  "undisturbed (F_check r) = (r = 0)"
| "undisturbed _ = True"

text \<open>What holds of the thread: it is not runnable before \<open>start\<close> wakes it, and no wake-up gets lost.\<close>

definition wq_thread_inv :: "('w, 'v) wait_ops_scheme \<Rightarrow> addr \<Rightarrow> 'w wait_queue \<Rightarrow> bool" where
  "wq_thread_inv W q s \<longleftrightarrow>
     (foo s \<noteq> F_none \<longrightarrow> \<not> signalled W (kern s) (mytask s)) \<and>
     (1 \<le> start_pc s \<and> start_pc s \<le> 2 \<longrightarrow> foo s = F_begin \<and> \<not> ready W (kern s) (mytask s)) \<and>
     (foo s = F_begin \<and> 3 \<le> start_pc s \<longrightarrow> ready W (kern s) (mytask s)) \<and>
     (in_wait (foo s) \<longrightarrow> waits_on W (kern s) q (mytask s) \<or> ready W (kern s) (mytask s)) \<and>
     undisturbed (foo s) \<and>
     (foo s = F_sleep \<and> 9 \<le> start_pc s \<longrightarrow> ready W (kern s) (mytask s))"

definition wq_inv :: "('w, 'v) wait_ops_scheme \<Rightarrow> addr \<Rightarrow> 'w wait_queue \<Rightarrow> bool" where
  "wq_inv W q s \<longleftrightarrow>
     start_pc s \<le> 12 \<and> (ret s = None \<longleftrightarrow> start_pc s \<le> 11) \<and> ret s \<in> {None, Some 0, Some (-1)} \<and>
     (ret s \<noteq> Some 0 \<longrightarrow> loaded s) \<and> wq_faults_ok (loaded s) (faults s) \<and>
     (ret s = Some (-1) \<or> start_pc s = 0 \<longleftrightarrow> foo s = F_none) \<and>
     condition s = (if 7 \<le> start_pc s \<and> ret s \<noteq> Some (-1) then 1 else 0) \<and>
     (foo s \<in> {F_again, F_done} \<longrightarrow> condition s = 1) \<and> wq_thread_inv W q s"

lemmas wq_inv_defs = wq_inv_def wq_thread_inv_def

lemma wq_code_fields [simp]:
  "condition (wq_code s) = condition s" "start_pc (wq_code s) = start_pc s" "ret (wq_code s) = ret s"
  "foo (wq_code s) = foo s" "mytask (wq_code s) = mytask s" "kern (wq_code s) = kern s"
  "loaded (wq_code s) = loaded s" "klog (wq_code s) = klog s"
  "wq_faults_ok (loaded s) (faults (wq_code s)) = wq_faults_ok (loaded s) (faults s)"
  "loaded s \<Longrightarrow> wq_code s = s"
  by (simp_all add: wq_code_def fault_def)

lemma wq_inv_boot: "wq_inv W q (wq_boot w)"
  by (simp add: wq_inv_defs wq_boot_def)

lemma wq_inv_code: "wq_inv W q (wq_code s) = wq_inv W q s"
  by (simp add: wq_inv_defs)

lemma wq_create_cases:
  obtains (failed) k e where "wq_create W q s =
      s\<lparr>kern := k, mytask := e, klog := klog s @ [Line KERN_INFO ''kthread failed'' []], start_pc := 12, ret := Some (-1)\<rparr>"
  | (created) k t where "wq_create W q s = s\<lparr>kern := k, mytask := t, start_pc := 1, foo := F_begin\<rparr>" "\<not> IS_ERR t"
      "kthread_new_op W ''my_super_task'' (init_waitqueue_head_op W q (kern s)) = (t, k)"
proof -
  obtain t k where n: "kthread_new_op W ''my_super_task'' (init_waitqueue_head_op W q (kern s)) = (t, k)" by fastforce
  show thesis
  proof (cases "IS_ERR t")
    case True
    then have "wq_create W q s =
        s\<lparr>kern := k, mytask := t, klog := klog s @ [Line KERN_INFO ''kthread failed'' []], start_pc := 12, ret := Some (-1)\<rparr>"
      using n by (simp add: wq_create_def printk_def upd_kern_def)
    then show thesis by (rule failed)
  next
    case False
    then have "wq_create W q s = s\<lparr>kern := k, mytask := t, start_pc := 1, foo := F_begin\<rparr>"
      using n by (simp add: wq_create_def upd_kern_def)
    then show thesis using False n by (rule created)
  qed
qed

text \<open>The statements of \<open>start\<close> by their number.\<close>

lemma wq_pc_cases:
  assumes "1 \<le> n" and "n \<le> (11::nat)"
  obtains "n = 1" | "n = 2" | "n = 3" | "n = 4" | "n = 5" | "n = 6" | "n = 7" | "n = 8" | "n = 9" | "n = 10" | "n = 11"
  using assms by (auto simp: le_Suc_eq numeral_eq_Suc)

lemma wq_stmt_fields [simp]:
  "start_pc (wq_start_stmt W q n s) = start_pc s" "loaded (wq_start_stmt W q n s) = loaded s"
  "foo (wq_start_stmt W q n s) = foo s"
  by (simp_all add: wq_start_stmt_def printk_def upd_kern_def)

context wait_api
begin

lemma wq_inv_create:
  assumes "wq_inv W q s" and "start_pc s = 0" and "ret s = None"
  shows "wq_inv W q (wq_create W q s)"
proof (cases rule: wq_create_cases [of W q s])
  case (failed k e)
  then show ?thesis using assms by (simp add: wq_inv_defs) (elim conjE, simp)
next
  case (created k t)
  then show ?thesis using assms new_stopped [OF created(3,2)] by (simp add: wq_inv_defs) (elim conjE, simp)
qed

lemma wq_inv_main:
  assumes "wq_inv W q s" and "1 \<le> start_pc s" and "start_pc s \<le> 11" and "ret s = None"
  shows "wq_inv W q ((wq_start_stmt W q (start_pc s) s)\<lparr>start_pc := start_pc s + 1\<rparr>)"
proof -
  have thi: "wq_thread_inv W q s" using assms(1) by (simp add: wq_inv_def)
  have th: "wq_thread_inv W q ((wq_start_stmt W q (start_pc s) s)\<lparr>start_pc := start_pc s + 1\<rparr>)"
  proof (cases "start_pc s = 2 \<or> start_pc s = 5 \<or> start_pc s = 8")
    case True
    then show ?thesis
      by (elim disjE) (use thi in \<open>simp add: wq_thread_inv_def wq_start_stmt_def upd_kern_def wait_laws; auto?\<close>)+
  next
    case False
    then have k: "kern (wq_start_stmt W q (start_pc s) s) = kern s" "mytask (wq_start_stmt W q (start_pc s) s) = mytask s"
      by (simp_all add: wq_start_stmt_def printk_def)
    have "start_pc s \<noteq> 2" "start_pc s \<noteq> 8" using False by simp_all
    then have pc: "start_pc s + 1 \<le> 2 \<longleftrightarrow> start_pc s \<le> 2" "3 \<le> start_pc s + 1 \<longleftrightarrow> 3 \<le> start_pc s"
      "9 \<le> start_pc s + 1 \<longleftrightarrow> 9 \<le> start_pc s" "1 \<le> start_pc s + 1 \<longleftrightarrow> 1 \<le> start_pc s"
      using assms(2) by linarith+
    have f: "kern (x\<lparr>start_pc := n\<rparr>) = kern x" "mytask (x\<lparr>start_pc := n\<rparr>) = mytask x" "foo (x\<lparr>start_pc := n\<rparr>) = foo x"
      "start_pc (x\<lparr>start_pc := n\<rparr>) = n" for x :: "'w wait_queue" and n by simp_all
    show ?thesis using thi unfolding wq_thread_inv_def f k pc wq_stmt_fields .
  qed
  show ?thesis
    by (rule wq_pc_cases [OF assms(2,3)])
      (use assms(1,4) th in \<open>simp add: wq_inv_def wq_start_stmt_def printk_def upd_kern_def\<close>)+
qed

lemma wq_inv_mfoo:
  assumes inv: "wq_inv W q s" and t: "wq_mfoo W q (foo s) s = Some t"
  shows "wq_inv W q t"
proof (cases "foo s")
  case F_prepare
  obtain r k where p: "prepare_to_wait_event_op W q (mytask s) (kern s) = (r, k)" by fastforce
  have ns: "\<not> signalled W (kern s) (mytask s)" using inv F_prepare by (simp add: wq_inv_defs)
  then have "r = 0" "waits_on W k q (mytask s)" "\<not> signalled W k (mytask s)"
    using prepare_waits [OF _ p] prepare_signalled [OF p] by auto
  moreover have "t = s\<lparr>kern := k, foo := F_check r\<rparr>" using t F_prepare p by simp
  ultimately show ?thesis using inv F_prepare by (auto simp: wq_inv_defs)
next
  case (F_check r)
  then show ?thesis
    using inv t by (simp add: wq_inv_defs upd_kern_def split: if_splits; (elim conjE)?; (clarsimp simp: wait_laws)?; linarith?)
qed (use inv t in \<open>simp add: wq_inv_defs printk_def split: if_splits; (elim conjE)?; clarsimp?; linarith?\<close>)+

lemma wq_inv_step: "wq_step W q s t \<Longrightarrow> wq_inv W q s \<Longrightarrow> wq_inv W q t"
proof (induction rule: wq_step.induct)
  case (create s)
  then show ?case by (intro wq_inv_create)
next
  case (main s)
  then show ?case by (intro wq_inv_main)
next
  case (thread s t)
  then show ?case using wq_inv_mfoo [of q "wq_code s"] by (simp add: wq_inv_code)
next
  case (unload s)
  then show ?case using wq_faults_ok_unload [of "loaded s" "faults s"]
    by (simp add: wq_inv_defs wq_stops_def printk_def)
qed

end

section \<open>Termination\<close>

text \<open>How much the thread can still do before it is woken again, and the measure of a state.\<close>

definition foo_rank :: "('w, 'v) wait_ops_scheme \<Rightarrow> 'w wait_queue \<Rightarrow> nat" where
  "foo_rank W s = (let w = (if ready W (kern s) (mytask s) then 4 else 0) in case foo s of
     F_none \<Rightarrow> 0 | F_begin \<Rightarrow> 6 | F_test \<Rightarrow> 5 | F_prepare \<Rightarrow> 3 | F_check r \<Rightarrow> 2 + w | F_sleep \<Rightarrow> 1 + w
   | F_again \<Rightarrow> 1 | F_done \<Rightarrow> 0)"

definition wq_measure :: "('w, 'v) wait_ops_scheme \<Rightarrow> 'w wait_queue \<Rightarrow> nat" where
  "wq_measure W s = 10 * (12 - start_pc s) + foo_rank W s + (if loaded s then 1 else 0)"

lemma foo_rank_same: "foo t = foo s \<Longrightarrow> foo_rank W t \<le> foo_rank W s + 4"
  by (simp add: foo_rank_def Let_def split: foo_pc.splits)

context wait_api
begin

lemma wq_measure_step:
  assumes "wq_step W q s t" and "wq_inv W q s"
  shows "wq_measure W t < wq_measure W s"
  using assms(1)
proof cases
  case create
  show ?thesis
    by (cases rule: wq_create_cases [of W q s])
      (use create assms(2) in \<open>simp_all add: wq_measure_def foo_rank_def wq_inv_def\<close>)
next
  case main
  have "10 * (12 - start_pc s) = 10 * (12 - (start_pc s + 1)) + 10" using main by simp
  then show ?thesis using foo_rank_same [of t s W] main by (simp add: wq_measure_def)
next
  case thread
  show ?thesis
  proof (cases "foo s")
    case F_prepare
    obtain r k where p: "prepare_to_wait_event_op W q (mytask s) (kern s) = (r, k)" by fastforce
    have "\<not> signalled W (kern s) (mytask s)" using assms(2) F_prepare by (simp add: wq_inv_defs)
    then have "\<not> ready W k (mytask s)" using prepare_waits [OF _ p] by blast
    then show ?thesis using thread F_prepare p by (auto simp: wq_measure_def foo_rank_def)
  qed (use thread in \<open>auto simp: wq_measure_def foo_rank_def printk_def upd_kern_def Let_def split: if_splits\<close>)
next
  case unload
  then show ?thesis by (simp add: wq_measure_def foo_rank_def wq_stops_def printk_def)
qed

text \<open>A state in which nothing can run: everything that was started has ended.\<close>

lemma wq_stuck:
  assumes "wq_inv W q s" and "\<nexists>t. wq_step W q s t"
  shows "ret s = Some 0 \<and> foo s = F_done \<and> \<not> loaded s \<or> ret s = Some (-1) \<and> foo s = F_none"
proof -
  have stuck: "\<not> wq_step W q s t" for t using assms(2) by blast
  have "ret s \<noteq> None"
  proof
    assume none: "ret s = None"
    then have "start_pc s \<le> 11" using assms(1) by (simp add: wq_inv_def)
    then show False
      using stuck none wq_step.create [of s] wq_step.main [of s] by (cases "start_pc s = 0") auto
  qed
  moreover have "wq_mfoo W q (foo s) (wq_code s) = None"
    using stuck wq_step.thread [of W q s] by (cases "wq_mfoo W q (foo s) (wq_code s)") auto
  moreover have "ret s = Some 0 \<Longrightarrow> \<not> loaded s" using stuck wq_step.unload [of s] by auto
  ultimately show ?thesis
    using assms(1) by (cases "foo s") (auto simp: wq_inv_defs Let_def split: if_splits prod.splits)
qed

end

text \<open>The module on a kernel with wait queues, from the kernel state \<open>w\<close>, is a terminating system.\<close>

locale wq_module = wait_api W for W :: "('w, 'v) wait_ops_scheme" +
  fixes q :: addr and w :: 'w

sublocale wq_module \<subseteq> wq: terminating_system "wq_boot w" "wq_step W q" "wq_inv W q" "wq_measure W"
  by unfold_locales (auto intro: wq_inv_boot wq_inv_step wq_measure_step)

section \<open>The order of the messages\<close>

definition attempt1_line :: logline where
  "attempt1_line = Line KERN_INFO ''***** Attempt 1: The condition is not met... ***** '' []"

definition again_line :: logline where
  "again_line = Line KERN_INFO ''My thread is running again...'' []"

definition before_again :: "logline list \<Rightarrow> logline list" where
  "before_again ls = takeWhile (\<lambda>l. l \<noteq> again_line) ls"

definition wq_log_inv :: "'w wait_queue \<Rightarrow> bool" where
  "wq_log_inv s \<longleftrightarrow>
     (start_pc s < 5 \<or> ret s = Some (-1) \<longrightarrow> again_line \<notin> set (klog s)) \<and>
     (5 \<le> start_pc s \<and> ret s \<noteq> Some (-1) \<longrightarrow> attempt1_line \<in> set (before_again (klog s))) \<and>
     count_list (klog s) again_line = (if foo s = F_done then 1 else 0)"

text \<open>Appending a line that is not the awaited one.\<close>

lemma before_again_append: "x \<in> set (before_again ls) \<Longrightarrow> x \<in> set (before_again (ls @ ms))"
  unfolding before_again_def by (induction ls) auto

lemma before_again_new: "again_line \<notin> set ls \<Longrightarrow> x \<noteq> again_line \<Longrightarrow> x \<in> set (before_again (ls @ [x]))"
proof -
  assume "again_line \<notin> set ls" and "x \<noteq> again_line"
  then have "\<forall>y\<in>set (ls @ [x]). y \<noteq> again_line" by auto
  then have "before_again (ls @ [x]) = ls @ [x]" unfolding before_again_def takeWhile_eq_all_conv .
  then show ?thesis by simp
qed

lemma wq_lines: "attempt1_line \<noteq> again_line"
  by (simp add: attempt1_line_def again_line_def)

lemma again_line_iff: "Line KERN_INFO fmt [] = again_line \<longleftrightarrow> fmt = ''My thread is running again...''"
  "again_line = Line KERN_INFO fmt [] \<longleftrightarrow> fmt = ''My thread is running again...''"
  by (auto simp: again_line_def)

lemma wq_log_main:
  assumes "wq_log_inv s" and "wq_inv W q s" and "1 \<le> start_pc s" and "start_pc s \<le> 11" and "ret s = None"
  shows "wq_log_inv ((wq_start_stmt W q (start_pc s) s)\<lparr>start_pc := start_pc s + 1\<rparr>)"
proof -
  note defs = wq_log_inv_def wq_start_stmt_def upd_kern_def printk_def
  have nd: "foo s \<noteq> F_done" if "start_pc s \<le> 2"
    using that assms(2) by (auto simp: wq_inv_def)
  show ?thesis
  proof (cases rule: wq_pc_cases [OF assms(3,4)])
    case 4
    have "again_line \<notin> set (klog s)" using 4 assms(1) by (simp add: wq_log_inv_def)
    then have "attempt1_line \<in> set (before_again (klog s @ [attempt1_line]))"
      using wq_lines by (rule before_again_new)
    then show ?thesis using 4 assms(1,5) wq_lines by (simp add: defs again_line_iff) (simp add: attempt1_line_def)
  qed (use assms(1,5) nd in \<open>simp_all add: defs before_again_append again_line_iff\<close>)
qed

lemma wq_mfoo_quiet:
  assumes "wq_mfoo W q (foo s) s = Some t" and "foo s \<noteq> F_begin" and "foo s \<noteq> F_again"
  shows "klog t = klog s" "start_pc t = start_pc s" "ret t = ret s" "foo s \<noteq> F_done" "foo t \<noteq> F_done"
  using assms by (cases "foo s"; auto simp: upd_kern_def split: if_splits prod.splits)+

lemma wq_log_mfoo:
  assumes step: "wq_mfoo W q (foo s) s = Some t" and inv: "wq_inv W q s" and log: "wq_log_inv s"
  shows "wq_log_inv t"
proof (cases "foo s")
  case F_again
  then have "t = (printk KERN_INFO ''My thread is running again...'' [] s)\<lparr>foo := F_done\<rparr>" using step by simp
  moreover have "7 \<le> start_pc s \<and> ret s \<noteq> Some (-1)"
    using F_again inv by (auto simp: wq_inv_def split: if_splits)
  ultimately show ?thesis
    using F_again log by (simp add: wq_log_inv_def printk_def before_again_append again_line_iff)
next
  case F_begin
  then have "t = (printk KERN_INFO ''My thread is running...Oh its going to sleep... '' [] s)\<lparr>foo := F_test\<rparr>"
    using step by (simp split: if_splits)
  then show ?thesis
    using F_begin log by (simp add: wq_log_inv_def printk_def before_again_append again_line_iff)
qed (use wq_mfoo_quiet [OF step] log in \<open>simp_all add: wq_log_inv_def\<close>)

lemma wq_log_code: "wq_log_inv (wq_code s) = wq_log_inv s"
  by (simp add: wq_log_inv_def)

lemma wq_log_step: "wq_step W q s t \<Longrightarrow> wq_inv W q s \<Longrightarrow> wq_log_inv s \<Longrightarrow> wq_log_inv t"
proof (induction rule: wq_step.induct)
  case (create s)
  then show ?case
    by (cases rule: wq_create_cases [of W q s]) (simp_all add: wq_log_inv_def wq_inv_def again_line_iff)
next
  case (main s)
  then show ?case by (intro wq_log_main)
next
  case (unload s)
  then show ?case
    by (simp add: wq_log_inv_def wq_inv_def wq_stops_def printk_def before_again_append again_line_iff)
next
  case (thread s t)
  then show ?case using wq_log_mfoo [of W q "wq_code s"] by (simp add: wq_log_code wq_inv_code)
qed

lemma wq_log_boot: "wq_log_inv (wq_boot w)"
  by (simp add: wq_log_inv_def wq_boot_def)

sublocale wq_module \<subseteq> wq_log: invariant_system "wq_boot w" "wq_step W q" "\<lambda>s. wq_inv W q s \<and> wq_log_inv s"
  by unfold_locales (auto intro: wq_inv_boot wq_inv_step wq_log_step simp: wq_log_boot)

context wq_module
begin

lemmas wq_module_inv = wq_log.reach_inv
lemmas wq_module_ends = wq.no_infinite_run

end

lemma wq_moduleI: "wait_api W \<Longrightarrow> wq_module W"
  by (simp add: wq_module_def)

lemmas wq_reach_inv = wq_module.wq_module_inv [OF wq_moduleI]

section \<open>Schedules\<close>

text \<open>
  Executable schedules: \<open>True\<close> lets \<open>start\<close> execute a statement, \<open>False\<close> the thread. They
  produce reachable states. \<open>wq_tasks\<close> is a state of the reference instance that can create one task.
\<close>

fun wq_schedule :: "('w, 'v) wait_ops_scheme \<Rightarrow> addr \<Rightarrow> bool list \<Rightarrow> 'w wait_queue \<Rightarrow> 'w wait_queue option" where
  "wq_schedule W q [] s = Some s"
| "wq_schedule W q (True # cs) s =
     (if ret s \<noteq> None then None
      else if start_pc s = 0 then wq_schedule W q cs (wq_create W q s)
      else if start_pc s \<le> 11 then wq_schedule W q cs ((wq_start_stmt W q (start_pc s) s)\<lparr>start_pc := start_pc s + 1\<rparr>)
      else None)"
| "wq_schedule W q (False # cs) s =
     (case wq_mfoo W q (foo s) (wq_code s) of None \<Rightarrow> None | Some t \<Rightarrow> wq_schedule W q cs t)"

lemma wq_schedule_reach: "wq_schedule W q cs s = Some t \<Longrightarrow> wq_reach W q w s \<Longrightarrow> wq_reach W q w t"
proof (induction W q cs s rule: wq_schedule.induct)
  case (1 W q s)
  then show ?case by simp
next
  case (2 W q cs s)
  then show ?case
    using wq_reach_step [OF _ wq_step.create [of s]] wq_reach_step [OF _ wq_step.main [of s]]
    by (auto split: if_splits)
next
  case (3 W q cs s)
  then show ?case
    using wq_reach_step [OF _ wq_step.thread [of W q s]] by (auto split: option.splits)
qed

definition wq_tasks :: wait_state where
  "wq_tasks = \<lparr>spare = [200], entries = [], running = [], signals = []\<rparr>"

interpretation ref_wq: wq_module ref_wait 300 wq_tasks
  by unfold_locales

section \<open>Properties\<close>

text \<open>
  C8. No wake-up is lost, on any kernel whose wait queues keep their laws. No execution of the
  module goes on for ever, and a reachable state in which no step is possible is one where \<open>start\<close> has returned 0, the thread has been woken and
  has finished, and the module is unloaded, or one where the thread could not be created and
  \<open>start\<close> has returned -1: in no interleaving does the thread stay asleep.
\<close>

theorem wq_no_lost_wakeup:
  assumes "wait_api W"
  shows "(\<nexists>run. run 0 = wq_boot w \<and> (\<forall>i. wq_step W q (run i) (run (Suc i)))) \<and>
   (\<forall>s. wq_reach W q w s \<longrightarrow> (\<nexists>t. wq_step W q s t) \<longrightarrow>
      ret s = Some 0 \<and> foo s = F_done \<and> \<not> loaded s \<or> ret s = Some (-1) \<and> foo s = F_none)"
proof (intro conjI allI impI)
  show "\<nexists>run. run 0 = wq_boot w \<and> (\<forall>i. wq_step W q (run i) (run (Suc i)))"
    by (rule wq_module.wq_module_ends [OF wq_moduleI [OF assms]])
next
  fix s
  assume "wq_reach W q w s" and "\<nexists>t. wq_step W q s t"
  then show "ret s = Some 0 \<and> foo s = F_done \<and> \<not> loaded s \<or> ret s = Some (-1) \<and> foo s = F_none"
    using wait_api.wq_stuck [OF assms] wq_reach_inv [OF assms] by blast
qed

text \<open>An execution in which the thread sleeps twice, to the end.\<close>

lemma task_200: "\<not> IS_ERR 200"
  by (simp add: IS_ERR_def)

lemmas wq_eval = wq_boot_def wq_tasks_def wq_create_def wq_start_stmt_def wq_code_def ref_wait_simps printk_def
  upd_kern_def task_200

definition wq_full_run :: "bool list" where
  "wq_full_run = [True, True, True, False, False, False, False, True, True, True, False, False, False,
     True, True, True, False, False, False, False, True, True, True]"

lemma wq_full_run_ends:
  "map_option (\<lambda>s. (ret s, foo s, loaded s, start_pc s, faults s)) (wq_schedule ref_wait 300 wq_full_run (wq_boot wq_tasks)) =
     Some (Some 0, F_done, True, 12, [])"
  by (simp add: wq_full_run_def wq_eval)

theorem wq_no_lost_wakeup_witness:
  "\<exists>s. wq_reach ref_wait 300 wq_tasks s \<and> (\<nexists>t. wq_step ref_wait 300 s t) \<and>
     (ret s = Some 0 \<and> foo s = F_done \<and> \<not> loaded s \<or> ret s = Some (-1) \<and> foo s = F_none) \<and> foo s = F_done"
proof -
  obtain s where s: "wq_schedule ref_wait 300 wq_full_run (wq_boot wq_tasks) = Some s"
    and f: "ret s = Some 0" "foo s = F_done" "loaded s" "start_pc s = 12"
    using wq_full_run_ends by auto
  have "wq_reach ref_wait 300 wq_tasks s" by (rule wq_schedule_reach [OF s reachable.init])
  then have r: "wq_reach ref_wait 300 wq_tasks (wq_stops s)" using wq_step.unload [OF f(1,3)] by (rule wq_reach_step)
  have u: "ret (wq_stops s) = Some 0" "foo (wq_stops s) = F_done" "\<not> loaded (wq_stops s)" "start_pc (wq_stops s) = 12"
    using f by (simp_all add: wq_stops_def printk_def)
  then have stuck: "\<nexists>t. wq_step ref_wait 300 (wq_stops s) t" by (auto elim!: wq_stepE)
  show ?thesis
    using wq_no_lost_wakeup [OF ref_waits.wait_api_axioms, of wq_tasks 300] r stuck u by blast
qed

text \<open>
  The thread reports that it runs again at most once, and only after \<open>start\<close> has announced
  its first attempt and then made the condition true: the first wake-up never lets it through.
\<close>

theorem wq_wakes_on_condition:
  assumes "wait_api W" and "wq_reach W q w s"
  shows "count_list (klog s) again_line \<le> 1 \<and>
    (again_line \<in> set (klog s) \<longrightarrow> attempt1_line \<in> set (before_again (klog s)) \<and> condition s = 1 \<and> 7 \<le> start_pc s)"
proof -
  have inv: "wq_inv W q s" "wq_log_inv s" using wq_reach_inv [OF assms] by blast+
  have "foo s = F_done" if "again_line \<in> set (klog s)"
    using that inv(2) count_list_0_iff [of "klog s" again_line] unfolding wq_log_inv_def by (auto split: if_splits)
  moreover have "condition s = 1 \<and> 7 \<le> start_pc s \<and> ret s \<noteq> Some (-1)" if "foo s = F_done"
    using that inv(1) by (simp add: wq_inv_def split: if_splits)
  moreover have "count_list (klog s) again_line \<le> 1" using inv(2) by (simp add: wq_log_inv_def)
  moreover have "attempt1_line \<in> set (before_again (klog s))" if "7 \<le> start_pc s" "ret s \<noteq> Some (-1)"
    using that inv(2) by (simp add: wq_log_inv_def)
  ultimately show ?thesis by blast
qed

theorem wq_wakes_on_condition_witness:
  "\<exists>s. wq_reach ref_wait 300 wq_tasks s \<and> again_line \<in> set (klog s) \<and> attempt1_line \<in> set (before_again (klog s)) \<and>
     condition s = 1"
proof -
  obtain s where s: "wq_schedule ref_wait 300 wq_full_run (wq_boot wq_tasks) = Some s" "foo s = F_done"
    using wq_full_run_ends by auto
  have r: "wq_reach ref_wait 300 wq_tasks s" by (rule wq_schedule_reach [OF s(1) reachable.init])
  then have "again_line \<in> set (klog s)"
    using wq_reach_inv [OF ref_waits.wait_api_axioms r] s(2) count_list_0_iff [of "klog s" again_line]
    unfolding wq_log_inv_def by simp
  then show ?thesis using r wq_wakes_on_condition [OF ref_waits.wait_api_axioms r] by blast
qed

text \<open>
  Nothing makes the unloading of the module wait for the thread: \<open>start\<close> may return and the
  module be unloaded while the thread is still in the code of the module, and then it goes on.
\<close>

definition wq_start_first :: "bool list" where
  "wq_start_first = [True, True, True, True, True, True, True, True, True, True, True, True]"

lemma wq_start_first_ends:
  "map_option (\<lambda>s. (ret s, loaded s, foo s, faults s, ready ref_wait (kern s) (mytask s)))
     (wq_schedule ref_wait 300 wq_start_first (wq_boot wq_tasks)) = Some (Some 0, True, F_begin, [], True)"
  by (simp add: wq_start_first_def wq_eval)

lemma wq_unload_race:
  "\<exists>s t. wq_reach ref_wait 300 wq_tasks s \<and> ret s = Some 0 \<and> \<not> loaded s \<and> wq_step ref_wait 300 s t \<and>
     faults t = faults s @ [UnloadedCode]"
proof -
  obtain s where s: "wq_schedule ref_wait 300 wq_start_first (wq_boot wq_tasks) = Some s" "ret s = Some 0"
    "loaded s" "foo s = F_begin" "faults s = []" "ready ref_wait (kern s) (mytask s)"
    using wq_start_first_ends by auto
  define u where "u = wq_stops s"
  have "wq_reach ref_wait 300 wq_tasks s" by (rule wq_schedule_reach [OF s(1) reachable.init])
  then have r: "wq_reach ref_wait 300 wq_tasks u"
    unfolding u_def using wq_step.unload [OF s(2,3)] by (rule wq_reach_step)
  have u: "ret u = Some 0" "\<not> loaded u" "foo u = F_begin" "faults u = []" "ready ref_wait (kern u) (mytask u)"
    using s by (simp_all add: u_def wq_stops_def printk_def)
  obtain t where t: "wq_mfoo ref_wait 300 (foo u) (wq_code u) = Some t" using u(3,5) by simp
  moreover have "faults t = faults u @ [UnloadedCode]"
    using t u by (auto simp: printk_def wq_code_def fault_def split: if_splits)
  ultimately show ?thesis using r u wq_step.thread by blast
qed

text \<open>
  This is the only fault of the module: while it is loaded there is none, in any interleaving.
\<close>

lemma wq_reach_faults:
  assumes "wait_api W" and "wq_reach W q w s"
  shows "loaded s \<Longrightarrow> faults s = []" and "set (faults s) \<subseteq> {UnloadedCode}"
  using wq_reach_inv [OF assms] by (auto simp: wq_inv_def wq_faults_ok_def split: if_splits)

end
