(* ===== verification/Work_Queue_Dedicated.thy ===== *)
theory Work_Queue_Dedicated
  imports Ref_Kernel Step_System "HOL-Library.Monad_Syntax"
begin

text \<open>
  The module \<open>work_queue_dedicated/code.c\<close>: an interrupt queues a unit of work on a dedicated
  queue; the work handler collects fourteen nodes on a list, one per run, and on the fifteenth
  run prints the list and unlinks them. First the handler and its list, then the module with
  its interrupt as a transition system.
\<close>

section \<open>State\<close>

text \<open>
  \<open>moving_val\<close> and \<open>f\<close> are the globals of the source, \<open>data_value\<close> the member
  \<open>value\<close> of every \<open>struct data\<close>; the member \<open>next\<close> is kept by the kernel's list
  operations, of which \<open>head\<close> is the global list head.
\<close>

record 'k wqd = "'k env" +
  moving_val :: int
  wqd_f :: "addr list"
  data_value :: "addr \<Rightarrow> int"

abbreviation sizeof_data :: nat where
  "sizeof_data \<equiv> 24"

section \<open>The work handler\<close>

text \<open>Access to \<open>f[i]\<close>, an array of fourteen pointers: an index outside it is a fault.\<close>

definition wqd_f_store :: "int \<Rightarrow> addr \<Rightarrow> 'k wqd \<Rightarrow> 'k wqd" where
  "wqd_f_store i p s =
     (if 0 \<le> i \<and> i < 14 then s\<lparr>wqd_f := (wqd_f s)[nat i := p]\<rparr> else fault (OutOfBounds i) s)"

definition wqd_print_list ::
  "('k, 'y) list_ops_scheme \<Rightarrow> addr \<Rightarrow> 'k wqd \<Rightarrow> 'k wqd option" where
  "wqd_print_list K head s =
     list_for_each_entry K head
       (\<lambda>d s. pr_info ''link list = %d'' [Num (data_value s d)] (deref K d s))
       (printk KERN_DEFAULT ''***** Flush *****'' [] s)"

text \<open>
  The spinlock of the handler is a local variable; \<open>sl\<close> is its address. When \<open>kmalloc\<close>
  fails the handler returns without releasing it.
\<close>

definition wqd_work_handler ::
  "('k, 'y) list_ops_scheme \<Rightarrow> ('k, 'w) lock_ops_scheme \<Rightarrow> addr \<Rightarrow> addr \<Rightarrow> 'k wqd \<Rightarrow> 'k wqd option" where
  "wqd_work_handler K L head sl s =
     (let s = spin_lock_init L sl s;
          s = spin_lock L sl s
      in if moving_val s < 14 then
           let (p, s) = kmalloc K sizeof_data s;
               s = wqd_f_store (moving_val s) p s
           in if p = NULL then Some (pr_info ''kmalloc failed %d'' [Num (moving_val s)] s)
              else
                let s = pr_info ''kmalloc passed for  %d'' [Num (moving_val s)] s;
                    s = (deref K p s)\<lparr>data_value := (data_value s)(p := moving_val s)\<rparr>;
                    s = list_add K p head s;
                    s = s\<lparr>moving_val := moving_val s + 1\<rparr>
                in Some (spin_unlock L sl s)
         else do {
           let s = s\<lparr>moving_val := 0\<rparr>;
           s \<leftarrow> wqd_print_list K head s;
           let s = fold (\<lambda>i s. list_del K (wqd_f s ! i) (pr_info ''deleting for  %d'' [Num (int i)] s)) [0..<14] s;
           Some (spin_unlock L sl s)
         })"

section \<open>The module as a transition system\<close>

text \<open>
  An interrupt can arrive between any two statements of \<open>start\<close> and \<open>stops\<close> once it has been
  requested, and the queue's worker thread runs the handler whenever the work is pending. The
  configuration holds the driver's variables and what the kernel knows of the driver: whether its
  interrupt handler is registered, the queue pointer \<open>wq\<close>, whether \<open>INIT_WORK\<close> has run and
  whether the work is on the queue.
\<close>

datatype wqd_pc = Start_request | Start_create | Start_init | Running | Load_failed
  | Stop_free | Stop_flush | Stop_destroy | Unloaded

record 'k wqd_sys =
  drv :: "'k wqd"
  pc :: wqd_pc
  irq_on :: bool
  wq :: addr
  work_ready :: bool
  work_pending :: bool

definition wqd_log :: "loglevel \<Rightarrow> string \<Rightarrow> logarg list \<Rightarrow> 'k wqd_sys \<Rightarrow> 'k wqd_sys" where
  "wqd_log l f as c = c\<lparr>drv := printk l f as (drv c)\<rparr>"

text \<open>
  The interrupt handler. \<open>queue_work\<close> on a queue that does not exist, or with a work item that
  has not been initialised, is a fault; queueing work that is pending already changes nothing.
\<close>

definition wqd_my_interrupt :: "addr \<Rightarrow> 'k wqd_sys \<Rightarrow> irqreturn \<times> 'k wqd_sys" where
  "wqd_my_interrupt work c =
     (IRQ_NONE,
      if wq c = NULL then c\<lparr>drv := fault NullDeref (drv c)\<rparr>
      else if \<not> work_ready c then c\<lparr>drv := fault (Uninitialised work) (drv c)\<rparr>
      else c\<lparr>work_pending := True\<rparr>)"

abbreviation SIRQ :: int where
  "SIRQ \<equiv> 19"

text \<open>To flush or to destroy a queue that could not be created is a use of a null pointer as well.\<close>

definition wqd_queue :: "'k wqd_sys \<Rightarrow> 'k wqd_sys" where
  "wqd_queue c = (if wq c = NULL then c\<lparr>drv := fault NullDeref (drv c)\<rparr> else c)"

lemma wqd_queue_fields [simp]:
  "pc (wqd_queue c) = pc c" "irq_on (wqd_queue c) = irq_on c" "wq (wqd_queue c) = wq c"
  "work_ready (wqd_queue c) = work_ready c" "work_pending (wqd_queue c) = work_pending c"
  "kern (drv (wqd_queue c)) = kern (drv c)" "klog (drv (wqd_queue c)) = klog (drv c)"
  "moving_val (drv (wqd_queue c)) = moving_val (drv c)" "wqd_f (drv (wqd_queue c)) = wqd_f (drv c)"
  "data_value (drv (wqd_queue c)) = data_value (drv c)"
  "faults (drv (wqd_queue c)) = faults (drv c) @ (if wq c = NULL then [NullDeref] else [])"
  by (simp_all add: wqd_queue_def fault_def)

text \<open>
  One step of the module. The results of \<open>request_irq\<close> and of
  \<open>create_singlethread_workqueue\<close> are the kernel's choice; \<open>early\<close> says whether an
  interrupt may arrive before \<open>start\<close> has finished. \<open>flush_workqueue\<close> blocks while the work
  is pending, \<open>synchronize_irq\<close> waits for handlers in flight, which here run in one step.
\<close>

inductive wqd_step ::
  "('k, 'y) list_ops_scheme \<Rightarrow> ('k, 'w) lock_ops_scheme \<Rightarrow> addr \<Rightarrow> addr \<Rightarrow> addr \<Rightarrow> bool \<Rightarrow>
   'k wqd_sys \<Rightarrow> 'k wqd_sys \<Rightarrow> bool"
  for K L head sl work early where
  request_failed: "pc c = Start_request \<Longrightarrow>
    wqd_step K L head sl work early c
      ((wqd_log KERN_INFO ''request_irq error %d'' [Num SIRQ]
        (wqd_log KERN_INFO ''***** Hello world! ***** '' [] c))\<lparr>pc := Load_failed\<rparr>)"
| request_ok: "pc c = Start_request \<Longrightarrow>
    wqd_step K L head sl work early c
      ((wqd_log KERN_INFO ''***** Hello world! ***** '' [] c)\<lparr>pc := Start_create, irq_on := True\<rparr>)"
| create: "pc c = Start_create \<Longrightarrow>
    wqd_step K L head sl work early c (c\<lparr>pc := Start_init, wq := q\<rparr>)"
| init: "pc c = Start_init \<Longrightarrow>
    wqd_step K L head sl work early c (c\<lparr>pc := Running, work_ready := True\<rparr>)"
| irq: "irq_on c \<Longrightarrow> early \<or> pc c \<notin> {Start_create, Start_init} \<Longrightarrow>
    wqd_step K L head sl work early c (snd (wqd_my_interrupt work c))"
| work: "work_pending c \<Longrightarrow> wqd_work_handler K L head sl (drv c) = Some d \<Longrightarrow>
    wqd_step K L head sl work early c (c\<lparr>drv := d, work_pending := False\<rparr>)"
| synchronize: "pc c = Running \<Longrightarrow>
    wqd_step K L head sl work early c (c\<lparr>pc := Stop_free\<rparr>)"
| free_irq: "pc c = Stop_free \<Longrightarrow>
    wqd_step K L head sl work early c (c\<lparr>pc := Stop_flush, irq_on := False\<rparr>)"
| flush: "pc c = Stop_flush \<Longrightarrow> \<not> work_pending c \<Longrightarrow>
    wqd_step K L head sl work early c ((wqd_queue c)\<lparr>pc := Stop_destroy\<rparr>)"
| destroy: "pc c = Stop_destroy \<Longrightarrow>
    wqd_step K L head sl work early c
      ((wqd_log KERN_INFO ''Cleaning up module.'' [] (wqd_queue c))\<lparr>pc := Unloaded\<rparr>)"

text \<open>
  The configuration at load time: the module image as the compiler initialises it, over a kernel
  state in which \<open>LIST_HEAD(head)\<close> is an empty list.
\<close>

definition wqd_load :: "'k \<Rightarrow> 'k wqd_sys" where
  "wqd_load k = \<lparr>drv = \<lparr>kern = k, klog = [], faults = [], moving_val = 0, wqd_f = replicate 14 NULL,
     data_value = (\<lambda>_. 0)\<rparr>, pc = Start_request, irq_on = False, wq = NULL, work_ready = False, work_pending = False\<rparr>"

abbreviation wqd_reach ::
  "('k, 'y) list_ops_scheme \<Rightarrow> ('k, 'w) lock_ops_scheme \<Rightarrow> addr \<Rightarrow> addr \<Rightarrow> addr \<Rightarrow> bool \<Rightarrow> 'k \<Rightarrow>
   'k wqd_sys \<Rightarrow> bool" where
  "wqd_reach K L head sl work early k \<equiv> reachable (wqd_load k) (wqd_step K L head sl work early)"

lemmas wqd_reach_step = reachable.step [where boot = "wqd_load k" and step = "wqd_step K L head sl work early"]
  for K L head sl work early k

section \<open>Invariant and branches\<close>

text \<open>
  Between two runs of the handler: \<open>moving_val\<close> counts the collected nodes, they are the
  first cells of \<open>f\<close>, allocated and numbered, and the list holds exactly them, newest first.
\<close>

definition wqd_nodes :: "'k wqd \<Rightarrow> addr list" where
  "wqd_nodes s = take (nat (moving_val s)) (wqd_f s)"

definition wqd_inv ::
  "('k, 'y) list_ops_scheme \<Rightarrow> ('k \<Rightarrow> addr \<Rightarrow> addr list \<Rightarrow> bool) \<Rightarrow> addr \<Rightarrow> 'k wqd \<Rightarrow> bool" where
  "wqd_inv K dlist head s \<longleftrightarrow>
     0 \<le> moving_val s \<and> moving_val s \<le> 14 \<and> length (wqd_f s) = 14 \<and>
     dlist (kern s) head (rev (wqd_nodes s)) \<and> set (wqd_nodes s) \<subseteq> allocated K (kern s) \<and>
     map (data_value s) (wqd_nodes s) = map int [0..<nat (moving_val s)]"

text \<open>The log of a flush: the values from the newest to the oldest, then the deletions.\<close>

definition wqd_flush_lines :: "logline list" where
  "wqd_flush_lines =
     Line KERN_DEFAULT ''***** Flush *****'' [] #
     map (\<lambda>i. Line KERN_INFO ''link list = %d'' [Num (int i)]) (rev [0..<14]) @
     map (\<lambda>i. Line KERN_INFO ''deleting for  %d'' [Num (int i)]) [0..<14]"

lemma wqd_nodes_frame [simp]:
  "wqd_nodes (s\<lparr>kern := k\<rparr>) = wqd_nodes s" "wqd_nodes (s\<lparr>klog := l\<rparr>) = wqd_nodes s"
  "wqd_nodes (s\<lparr>data_value := d\<rparr>) = wqd_nodes s"
  by (simp_all add: wqd_nodes_def)

lemma wqd_frame [simp]:
  "moving_val (printk l f as s) = moving_val s" "wqd_f (printk l f as s) = wqd_f s"
  "data_value (printk l f as s) = data_value s"
  "moving_val (upd_kern g s) = moving_val s" "wqd_f (upd_kern g s) = wqd_f s"
  "data_value (upd_kern g s) = data_value s"
  by (simp_all add: env_defs)

context locked_list_api
begin

text \<open>Entering the critical section: the lock is taken, nothing else changes.\<close>

lemma wqd_enter:
  fixes s :: "'k wqd" and sl :: addr
  defines "t \<equiv> spin_lock L sl (spin_lock_init L sl s)"
  shows "t = s\<lparr>kern := spin_lock_op L sl (spin_lock_init_op L sl (kern s))\<rparr>"
    and "held L (kern t) = insert sl (held L (kern s))"
    and "allocated K (kern t) = allocated K (kern s)"
    and "dlist (kern s) h xs \<Longrightarrow> dlist (kern t) h xs"
proof -
  show t: "t = s\<lparr>kern := spin_lock_op L sl (spin_lock_init_op L sl (kern s))\<rparr>"
    by (simp add: t_def spin_lock_init_def spin_lock_def held_init upd_kern_def)
  show "held L (kern t) = insert sl (held L (kern s))"
    by (simp add: t held_lock held_init)
  show "allocated K (kern t) = allocated K (kern s)" "dlist (kern s) h xs \<Longrightarrow> dlist (kern t) h xs"
    by (simp_all add: t dlist_spin_lock dlist_spin_init)
qed

lemma wqd_store_nodes:
  fixes s :: "'k wqd"
  assumes "wqd_inv K dlist h s" and "moving_val s < 14"
  shows "wqd_f_store (moving_val s) p s = s\<lparr>wqd_f := (wqd_f s)[nat (moving_val s) := p]\<rparr>"
    and "take (nat (moving_val s)) ((wqd_f s)[nat (moving_val s) := p]) = wqd_nodes s"
    and "take (nat (moving_val s + 1)) ((wqd_f s)[nat (moving_val s) := p]) = wqd_nodes s @ [p]"
  using assms by (simp_all add: wqd_inv_def wqd_f_store_def wqd_nodes_def nat_add_distrib take_Suc_conv_app_nth)

text \<open>The handler finds no memory: the list is as before, and the lock stays taken.\<close>

lemma wqd_handler_no_memory:
  fixes s :: "'k wqd"
  assumes inv: "wqd_inv K dlist h s" and mv: "moving_val s < 14"
    and m: "kmalloc_op K sizeof_data (spin_lock_op L sl (spin_lock_init_op L sl (kern s))) = (NULL, k')"
  shows "\<exists>s'. wqd_work_handler K L h sl s = Some s' \<and> wqd_inv K dlist h s' \<and> moving_val s' = moving_val s \<and>
    wqd_nodes s' = wqd_nodes s \<and> allocated K (kern s') = allocated K (kern s) \<and> faults s' = faults s \<and>
    klog s' = klog s @ [Line KERN_INFO ''kmalloc failed %d'' [Num (moving_val s)]] \<and> sl \<in> held L (kern s')"
proof -
  define k where "k = spin_lock_op L sl (spin_lock_init_op L sl (kern s))"
  have enter: "spin_lock L sl (spin_lock_init L sl s) = s\<lparr>kern := k\<rparr>"
    using wqd_enter(1) by (simp add: k_def)
  have k: "sl \<in> held L k" "allocated K k = allocated K (kern s)"
    using wqd_enter(2,3) [of sl s] by (auto simp: enter)
  have k': "sl \<in> held L k'" "allocated K k' = allocated K (kern s)" "dlist k' h (rev (wqd_nodes s))"
    using held_kmalloc [OF m] kmalloc_failed [OF m] dlist_kmalloc [OF _ m, of h "rev (wqd_nodes s)"]
      wqd_enter(4) [of s h _ sl] inv k unfolding k_def [symmetric] by (auto simp: enter wqd_inv_def)
  have alloc: "kmalloc K sizeof_data (s\<lparr>kern := k\<rparr>) = (NULL, s\<lparr>kern := k'\<rparr>)"
    using m by (simp add: kmalloc_def k_def)
  let ?s' = "pr_info ''kmalloc failed %d'' [Num (moving_val s)]
    (s\<lparr>kern := k', wqd_f := (wqd_f s)[nat (moving_val s) := NULL]\<rparr>)"
  have store: "wqd_f_store (moving_val s) NULL (s\<lparr>kern := k'\<rparr>) =
      s\<lparr>kern := k', wqd_f := (wqd_f s)[nat (moving_val s) := NULL]\<rparr>"
    using inv mv by (simp add: wqd_f_store_def wqd_inv_def)
  have "wqd_work_handler K L h sl s = Some ?s'"
    using mv by (simp add: wqd_work_handler_def enter alloc store Let_def)
  moreover have nodes: "wqd_nodes ?s' = wqd_nodes s"
    using wqd_store_nodes(2) [OF inv mv, of NULL] by (simp add: wqd_nodes_def)
  moreover have "wqd_inv K dlist h ?s'"
    using inv k' by (simp add: wqd_inv_def nodes)
  ultimately show ?thesis using k' by auto
qed

text \<open>The handler collects a node: it becomes the newest of the list, and the lock is released.\<close>

lemma wqd_handler_collect:
  fixes s :: "'k wqd"
  assumes inv: "wqd_inv K dlist h s" and mv: "moving_val s < 14" and h: "h \<in> statics K"
    and m: "kmalloc_op K sizeof_data (spin_lock_op L sl (spin_lock_init_op L sl (kern s))) = (p, k')" "p \<noteq> NULL"
  shows "\<exists>s'. wqd_work_handler K L h sl s = Some s' \<and> wqd_inv K dlist h s' \<and> moving_val s' = moving_val s + 1 \<and>
    wqd_nodes s' = wqd_nodes s @ [p] \<and> p \<notin> allocated K (kern s) \<and>
    allocated K (kern s') = insert p (allocated K (kern s)) \<and> faults s' = faults s \<and>
    klog s' = klog s @ [Line KERN_INFO ''kmalloc passed for  %d'' [Num (moving_val s)]] \<and>
    held L (kern s') = held L (kern s) - {sl}"
proof -
  define k where "k = spin_lock_op L sl (spin_lock_init_op L sl (kern s))"
  have enter: "spin_lock L sl (spin_lock_init L sl s) = s\<lparr>kern := k\<rparr>"
    using wqd_enter(1) by (simp add: k_def)
  have k: "held L k = insert sl (held L (kern s))" "allocated K k = allocated K (kern s)"
      "dlist k h (rev (wqd_nodes s))"
    using wqd_enter(2,3) [of sl s] wqd_enter(4) [of s h "rev (wqd_nodes s)" sl] inv by (auto simp: enter wqd_inv_def)
  have m': "kmalloc_op K sizeof_data k = (p, k')" using m(1) by (simp add: k_def)
  have p: "p \<notin> valid K (kern s)" "p \<notin> allocated K (kern s)" "p \<notin> set (h # rev (wqd_nodes s))"
    using kmalloc_fresh [OF m' m(2)] k inv h by (auto simp: valid_def wqd_inv_def)
  have k': "held L k' = insert sl (held L (kern s))" "allocated K k' = insert p (allocated K (kern s))"
      "dlist k' h (rev (wqd_nodes s))"
    using held_kmalloc [OF m'] kmalloc_allocated [OF m' m(2)] dlist_kmalloc [OF k(3) m'] k by auto
  define k2 where "k2 = spin_unlock_op L sl (list_add_op K p h k')"
  have k2: "held L k2 = held L (kern s) - {sl}" "allocated K k2 = insert p (allocated K (kern s))"
      "dlist k2 h (rev (wqd_nodes s @ [p]))"
    using k' dlist_spin_unlock dlist_add [OF k'(3) p(3)] by (auto simp: k2_def held_unlock held_list_add)
  let ?f = "(wqd_f s)[nat (moving_val s) := p]"
  let ?l = "klog s @ [Line KERN_INFO ''kmalloc passed for  %d'' [Num (moving_val s)]]"
  let ?s' = "s\<lparr>kern := k2, klog := ?l, moving_val := moving_val s + 1, wqd_f := ?f,
    data_value := (data_value s)(p := moving_val s)\<rparr>"
  have alloc: "kmalloc K sizeof_data (s\<lparr>kern := k\<rparr>) = (p, s\<lparr>kern := k'\<rparr>)"
    using m' by (simp add: kmalloc_def)
  have store: "wqd_f_store (moving_val s) p (s\<lparr>kern := k'\<rparr>) = s\<lparr>kern := k', wqd_f := ?f\<rparr>"
    using inv mv by (simp add: wqd_f_store_def wqd_inv_def)
  have run: "wqd_work_handler K L h sl s = Some ?s'"
    using mv m(2) k'
    by (simp add: wqd_work_handler_def enter alloc store printk_def list_add_def spin_unlock_def valid_def
        held_list_add upd_kern_def k2_def Let_def)
  have nodes: "wqd_nodes ?s' = wqd_nodes s @ [p]"
    using wqd_store_nodes(3) [OF inv mv, of p] by (simp add: wqd_nodes_def)
  have "map ((data_value s)(p := moving_val s)) (wqd_nodes s) = map (data_value s) (wqd_nodes s)"
    by (rule map_cong) (use p(3) in auto)
  also have "\<dots> = map int [0..<nat (moving_val s)]" using inv by (simp add: wqd_inv_def)
  finally have vals: "map ((data_value s)(p := moving_val s)) (wqd_nodes s) = map int [0..<nat (moving_val s)]" .
  have "wqd_inv K dlist h ?s'"
    unfolding wqd_inv_def nodes using inv mv k2 by (auto simp: wqd_inv_def nat_add_distrib vals)
  then show ?thesis using run nodes p k2 by auto
qed

text \<open>The deletion loop takes the nodes off the list, oldest first.\<close>

lemma wqd_delete_loop:
  fixes s :: "'k wqd"
  assumes "dlist (kern s) h (rev (wqd_f s))" and "length (wqd_f s) = n"
    and valid: "set (wqd_f s) \<subseteq> allocated K (kern s)"
  shows "\<exists>k. fold (\<lambda>i s. list_del K (wqd_f s ! i) (pr_info ''deleting for  %d'' [Num (int i)] s)) [0..<n] s =
      s\<lparr>kern := k, klog := klog s @ map (\<lambda>i. Line KERN_INFO ''deleting for  %d'' [Num (int i)]) [0..<n]\<rparr> \<and>
    dlist k h [] \<and> allocated K k = allocated K (kern s) \<and> held L k = held L (kern s)"
proof -
  have dist: "distinct (wqd_f s)" using dlist_distinct [OF assms(1)] by auto
  let ?P = "\<lambda>i t. \<exists>k. t =
      s\<lparr>kern := k, klog := klog s @ map (\<lambda>i. Line KERN_INFO ''deleting for  %d'' [Num (int i)]) [0..<i]\<rparr> \<and>
    dlist k h (rev (drop i (wqd_f s))) \<and> allocated K k = allocated K (kern s) \<and> held L k = held L (kern s)"
  let ?body = "\<lambda>i s. list_del K (wqd_f s ! i) (pr_info ''deleting for  %d'' [Num (int i)] s)"
  have "?P n (fold ?body [0..<n] s)"
  proof (rule fold_upt_inv [where P = ?P])
    show "?P 0 s" by (rule exI [of _ "kern s"]) (use assms(1) in simp)
  next
    fix i and t :: "'k wqd"
    assume i: "i < n" and "?P i t"
    then obtain k where t: "t = s\<lparr>kern := k, klog := klog s @ map (\<lambda>i. Line KERN_INFO ''deleting for  %d'' [Num (int i)]) [0..<i]\<rparr>"
      and k: "dlist k h (rev (drop i (wqd_f s)))" "allocated K k = allocated K (kern s)" "held L k = held L (kern s)"
      by auto
    have ith: "drop i (wqd_f s) = wqd_f s ! i # drop (Suc i) (wqd_f s)"
      using i assms(2) by (simp add: Cons_nth_drop_Suc)
    have "wqd_f s ! i \<notin> set (drop (Suc i) (wqd_f s))"
      using distinct_drop [OF dist, of i] unfolding ith by simp
    then have del: "dlist (list_del_op K (wqd_f s ! i) k) h (rev (drop (Suc i) (wqd_f s)))"
      using dlist_del [OF k(1), of "wqd_f s ! i"] by (simp add: ith)
    have "wqd_f s ! i \<in> set (wqd_f s)" using i assms(2) by simp
    then have "wqd_f s ! i \<in> valid K k" using valid k(2) by (auto simp: valid_def)
    then have "?body i t = s\<lparr>kern := list_del_op K (wqd_f s ! i) k,
        klog := klog s @ map (\<lambda>i. Line KERN_INFO ''deleting for  %d'' [Num (int i)]) [0..<Suc i]\<rparr>"
      by (simp add: t list_del_ok env_defs)
    then show "?P (Suc i) (?body i t)" using del k by (auto simp: held_list_del)
  qed
  then show ?thesis using assms(2) by simp
qed

text \<open>The handler flushes: fourteen values printed, fourteen nodes unlinked, none of them freed.\<close>

lemma wqd_handler_flush:
  fixes s :: "'k wqd"
  assumes inv: "wqd_inv K dlist h s" and mv: "\<not> moving_val s < 14"
  shows "\<exists>s'. wqd_work_handler K L h sl s = Some s' \<and> wqd_inv K dlist h s' \<and> moving_val s' = 0 \<and>
    allocated K (kern s') = allocated K (kern s) \<and> faults s' = faults s \<and>
    klog s' = klog s @ wqd_flush_lines \<and> held L (kern s') = held L (kern s) - {sl}"
proof -
  define k where "k = spin_lock_op L sl (spin_lock_init_op L sl (kern s))"
  have enter: "spin_lock L sl (spin_lock_init L sl s) = s\<lparr>kern := k\<rparr>"
    using wqd_enter(1) by (simp add: k_def)
  have mv14: "moving_val s = 14" and len: "length (wqd_f s) = 14" using inv mv by (auto simp: wqd_inv_def)
  then have nodes: "wqd_nodes s = wqd_f s" by (simp add: wqd_nodes_def)
  have k: "held L k = insert sl (held L (kern s))" "allocated K k = allocated K (kern s)" "dlist k h (rev (wqd_f s))"
    using wqd_enter(2,3) [of sl s] wqd_enter(4) [of s h "rev (wqd_nodes s)" sl] inv
    by (auto simp: enter wqd_inv_def nodes)
  have sub: "set (wqd_f s) \<subseteq> allocated K (kern s)" using inv by (simp add: wqd_inv_def nodes)
  have vals: "map (data_value s) (rev (wqd_f s)) = map int (rev [0..<14])"
    using inv mv14 by (simp add: wqd_inv_def nodes rev_map [symmetric])
  let ?l1 = "klog s @ Line KERN_DEFAULT ''***** Flush *****'' [] #
    map (\<lambda>i. Line KERN_INFO ''link list = %d'' [Num (int i)]) (rev [0..<14])"
  let ?s1 = "s\<lparr>kern := k, moving_val := 0, klog := ?l1\<rparr>"
  have "map (\<lambda>d. Line KERN_INFO ''link list = %d'' [Num (data_value s d)]) (rev (wqd_f s)) =
      map (\<lambda>v. Line KERN_INFO ''link list = %d'' [Num v]) (map (data_value s) (rev (wqd_f s)))"
    by simp
  also have "\<dots> = map (\<lambda>i. Line KERN_INFO ''link list = %d'' [Num (int i)]) (rev [0..<14])"
    unfolding vals by simp
  finally have print: "wqd_print_list K h (s\<lparr>kern := k, moving_val := 0\<rparr>) = Some ?s1"
    using for_each_entry_log [where s = "printk KERN_DEFAULT ''***** Flush *****'' [] (s\<lparr>kern := k, moving_val := 0\<rparr>)"
        and h = h and xs = "rev (wqd_f s)" and lvl = KERN_INFO and fmt = "''link list = %d''"
        and args = "\<lambda>d s. [Num (data_value s d)]"
        and body = "\<lambda>d s. pr_info ''link list = %d'' [Num (data_value s d)] (deref K d s)"] k sub
    by (simp add: wqd_print_list_def valid_def printk_def le_supI2)
  obtain k2 where del: "fold (\<lambda>i s. list_del K (wqd_f s ! i) (pr_info ''deleting for  %d'' [Num (int i)] s)) [0..<14] ?s1 =
      ?s1\<lparr>kern := k2, klog := klog ?s1 @ map (\<lambda>i. Line KERN_INFO ''deleting for  %d'' [Num (int i)]) [0..<14]\<rparr>"
    and k2: "dlist k2 h []" "allocated K k2 = allocated K (kern s)" "held L k2 = insert sl (held L (kern s))"
    using wqd_delete_loop [of ?s1 h 14] k sub len by auto
  let ?s2 = "?s1\<lparr>kern := spin_unlock_op L sl k2, klog := klog s @ wqd_flush_lines\<rparr>"
  have "wqd_work_handler K L h sl s = Some ?s2"
    using mv k2 del
    by (simp add: wqd_work_handler_def enter Let_def print spin_unlock_def upd_kern_def wqd_flush_lines_def
        del: upt_rec_numeral)
  moreover have "wqd_inv K dlist h ?s2"
    using len k2 dlist_spin_unlock by (simp add: wqd_inv_def wqd_nodes_def)
  ultimately show ?thesis using k2 by (auto simp: held_unlock)
qed

text \<open>All three branches: what a run of the handler does to a state that satisfies the invariant.\<close>

lemma wqd_handler_cases:
  fixes s :: "'k wqd"
  assumes inv: "wqd_inv K dlist h s" and h: "h \<in> statics K"
  obtains (no_memory) s' where "wqd_work_handler K L h sl s = Some s'" "wqd_inv K dlist h s'" "moving_val s < 14"
      "moving_val s' = moving_val s" "wqd_nodes s' = wqd_nodes s" "allocated K (kern s') = allocated K (kern s)"
      "klog s' = klog s @ [Line KERN_INFO ''kmalloc failed %d'' [Num (moving_val s)]]" "faults s' = faults s"
      "sl \<in> held L (kern s')"
  | (collect) s' p where "wqd_work_handler K L h sl s = Some s'" "wqd_inv K dlist h s'" "moving_val s < 14"
      "moving_val s' = moving_val s + 1" "wqd_nodes s' = wqd_nodes s @ [p]" "p \<notin> allocated K (kern s)"
      "allocated K (kern s') = insert p (allocated K (kern s))" "faults s' = faults s"
      "klog s' = klog s @ [Line KERN_INFO ''kmalloc passed for  %d'' [Num (moving_val s)]]"
      "held L (kern s') = held L (kern s) - {sl}"
  | (flush) s' where "wqd_work_handler K L h sl s = Some s'" "wqd_inv K dlist h s'" "moving_val s = 14"
      "moving_val s' = 0" "allocated K (kern s') = allocated K (kern s)" "faults s' = faults s"
      "klog s' = klog s @ wqd_flush_lines" "held L (kern s') = held L (kern s) - {sl}"
proof (cases "moving_val s < 14")
  case True
  obtain p k' where m: "kmalloc_op K sizeof_data (spin_lock_op L sl (spin_lock_init_op L sl (kern s))) = (p, k')"
    by fastforce
  show thesis
  proof (cases "p = NULL")
    case p: True
    then show thesis using wqd_handler_no_memory [OF inv True] m no_memory True by metis
  next
    case False
    then show thesis using wqd_handler_collect [OF inv True h m] collect True by metis
  qed
next
  case False
  then have "moving_val s = 14" using inv by (simp add: wqd_inv_def)
  then show thesis using wqd_handler_flush [OF inv False, of sl] flush by metis
qed

text \<open>Every run of the handler, every interleaving: the list invariant holds in all reachable states.\<close>

lemma wqd_list_system:
  assumes "dlist k h []" and "h \<in> statics K"
  shows "invariant_system (wqd_load k) (wqd_step K L h sl work early) (\<lambda>c. wqd_inv K dlist h (drv c))"
proof unfold_locales
  show "wqd_inv K dlist h (drv (wqd_load k))" using assms(1) by (simp add: wqd_load_def wqd_inv_def wqd_nodes_def)
  fix c c'
  assume step: "wqd_step K L h sl work early c c'" and inv: "wqd_inv K dlist h (drv c)"
  from step show "wqd_inv K dlist h (drv c')"
  proof cases
    case (work d)
    show ?thesis
      by (rule wqd_handler_cases [OF inv assms(2), of sl]) (use work in auto)
  qed (use inv in \<open>simp_all add: wqd_log_def wqd_my_interrupt_def wqd_inv_def wqd_nodes_def fault_def\<close>)
qed

lemmas wqd_reach_inv = invariant_system.reach_inv [OF wqd_list_system]

end

section \<open>The abstract collector\<close>

text \<open>
  What the module does, seen from outside: it collects up to fourteen nodes, then starts again with
  none, one batch more behind it. \<open>batches\<close> counts the flushes.
\<close>

record collector =
  collected :: nat
  batches :: nat

inductive collector_step :: "collector \<Rightarrow> collector \<Rightarrow> bool" where
  add: "collected a < 14 \<Longrightarrow> collector_step a (a\<lparr>collected := collected a + 1\<rparr>)"
| flush: "collected a = 14 \<Longrightarrow> collector_step a (a\<lparr>collected := 0, batches := batches a + 1\<rparr>)"

definition flush_line :: logline where
  "flush_line = Line KERN_DEFAULT ''***** Flush *****'' []"

text \<open>
  The module in state \<open>d\<close>, loaded when the objects \<open>A\<close> were allocated, implements the collector in
  state \<open>a\<close>: the flushes are those of the log, and the objects the module has allocated and not
  freed are the nodes collected and fourteen for every batch.
\<close>

definition wqd_implements ::
  "('k, 'y) list_ops_scheme \<Rightarrow> ('k \<Rightarrow> addr \<Rightarrow> addr list \<Rightarrow> bool) \<Rightarrow> addr \<Rightarrow> addr set \<Rightarrow> 'k wqd \<Rightarrow> collector \<Rightarrow> bool" where
  "wqd_implements K dlist head A d a \<longleftrightarrow>
     wqd_inv K dlist head d \<and> moving_val d = int (collected a) \<and> count_list (klog d) flush_line = batches a \<and>
     (\<exists>N. finite N \<and> card N = collected a + 14 * batches a \<and> N \<inter> A = {} \<and> allocated K (kern d) = A \<union> N)"

lemma count_flush_lines: "count_list wqd_flush_lines flush_line = 1"
proof -
  have "flush_line \<notin> set (map (\<lambda>i. Line KERN_INFO ''link list = %d'' [Num (int i)]) (rev [0..<14]) @
      map (\<lambda>i. Line KERN_INFO ''deleting for  %d'' [Num (int i)]) [0..<14])"
    by (auto simp: flush_line_def)
  then show ?thesis
    unfolding wqd_flush_lines_def by (simp add: flush_line_def count_list_0_iff del: upt_rec_numeral)
qed

lemma info_not_flush: "Line KERN_INFO f as \<noteq> flush_line"
  by (simp add: flush_line_def)

lemma wqd_implements_frame:
  "wqd_implements K dlist h A (printk KERN_INFO f as d) a = wqd_implements K dlist h A d a"
  "wqd_implements K dlist h A (fault e d) a = wqd_implements K dlist h A d a"
proof -
  have i: "wqd_inv K dlist h (printk KERN_INFO f as d) = wqd_inv K dlist h d" "wqd_inv K dlist h (fault e d) = wqd_inv K dlist h d"
    by (simp_all add: wqd_inv_def wqd_nodes_def fault_def)
  show "wqd_implements K dlist h A (printk KERN_INFO f as d) a = wqd_implements K dlist h A d a"
    "wqd_implements K dlist h A (fault e d) a = wqd_implements K dlist h A d a"
    unfolding wqd_implements_def i by (simp_all add: info_not_flush fault_def)
qed

lemma wqd_implements_queue: "wqd_implements K dlist h A (drv (wqd_queue c)) a = wqd_implements K dlist h A (drv c) a"
  by (simp add: wqd_queue_def wqd_implements_frame)

context locked_list_api
begin

text \<open>A run of the handler is a step of the collector, or, without memory, none.\<close>

lemma wqd_handler_implements:
  assumes R: "wqd_implements K dlist h A d a" and h: "h \<in> statics K" and run: "wqd_work_handler K L h sl d = Some d'"
  shows "\<exists>a'. collector_step\<^sup>*\<^sup>* a a' \<and> wqd_implements K dlist h A d' a'"
proof -
  have inv: "wqd_inv K dlist h d" using R by (simp add: wqd_implements_def)
  obtain N where N: "finite N" "card N = collected a + 14 * batches a" "N \<inter> A = {}" "allocated K (kern d) = A \<union> N"
    using R by (auto simp: wqd_implements_def)
  show ?thesis
  proof (rule wqd_handler_cases [OF inv h, of sl])
    fix s'
    assume "wqd_work_handler K L h sl d = Some s'" "wqd_inv K dlist h s'" "moving_val s' = moving_val d"
      "allocated K (kern s') = allocated K (kern d)"
      "klog s' = klog d @ [Line KERN_INFO ''kmalloc failed %d'' [Num (moving_val d)]]"
    then have "wqd_implements K dlist h A d' a" using R run by (simp add: wqd_implements_def info_not_flush)
    then show ?thesis by blast
  next
    fix s' p
    assume s': "wqd_work_handler K L h sl d = Some s'" "wqd_inv K dlist h s'" "moving_val d < 14"
      "moving_val s' = moving_val d + 1" "p \<notin> allocated K (kern d)"
      "allocated K (kern s') = insert p (allocated K (kern d))"
      "klog s' = klog d @ [Line KERN_INFO ''kmalloc passed for  %d'' [Num (moving_val d)]]"
    let ?a = "a\<lparr>collected := collected a + 1\<rparr>"
    have "card (insert p N) = collected ?a + 14 * batches ?a" "insert p N \<inter> A = {}" "allocated K (kern s') = A \<union> insert p N"
      using N s'(5,6) by auto
    then have "wqd_implements K dlist h A d' ?a"
      using R run s'(1,2,4,7) N(1) unfolding wqd_implements_def
      by (intro conjI exI [of _ "insert p N"]) (simp_all add: info_not_flush)
    moreover have "collector_step a ?a" using s'(3) R by (intro collector_step.add) (simp add: wqd_implements_def)
    ultimately show ?thesis by blast
  next
    fix s'
    assume s': "wqd_work_handler K L h sl d = Some s'" "wqd_inv K dlist h s'" "moving_val d = 14" "moving_val s' = 0"
      "allocated K (kern s') = allocated K (kern d)" "klog s' = klog d @ wqd_flush_lines"
    let ?a = "a\<lparr>collected := 0, batches := batches a + 1\<rparr>"
    have c: "collected a = 14" using s'(3) R by (simp add: wqd_implements_def)
    then have "wqd_implements K dlist h A d' ?a"
      using R run s' N count_flush_lines unfolding wqd_implements_def
      by (intro conjI exI [of _ N]) simp_all
    moreover have "collector_step a ?a" using c by (rule collector_step.flush)
    ultimately show ?thesis by blast
  qed
qed

lemma wqd_simulation:
  assumes "dlist k h []" and "h \<in> statics K"
  shows "forward_simulation (wqd_load k) (wqd_step K L h sl work early) \<lparr>collected = 0, batches = 0\<rparr> collector_step
    (\<lambda>c. wqd_implements K dlist h (allocated K k) (drv c))"
proof unfold_locales
  show "wqd_implements K dlist h (allocated K k) (drv (wqd_load k)) \<lparr>collected = 0, batches = 0\<rparr>"
    unfolding wqd_implements_def
    by (intro conjI exI [of _ "{}"]) (use assms(1) in \<open>simp_all add: wqd_load_def wqd_inv_def wqd_nodes_def\<close>)
  fix c c' a
  assume step: "wqd_step K L h sl work early c c'" and R: "wqd_implements K dlist h (allocated K k) (drv c) a"
  have same: "\<exists>a'. collector_step\<^sup>*\<^sup>* a a' \<and> wqd_implements K dlist h (allocated K k) (drv c') a'"
    if "wqd_implements K dlist h (allocated K k) (drv c') a" using that by blast
  from step show "\<exists>a'. collector_step\<^sup>*\<^sup>* a a' \<and> wqd_implements K dlist h (allocated K k) (drv c') a'"
  proof cases
    case (work d)
    then show ?thesis using wqd_handler_implements [OF R assms(2)] by simp
  qed (rule same, use R in \<open>simp add: wqd_log_def wqd_my_interrupt_def wqd_implements_frame wqd_implements_queue\<close>)+
qed

end

section \<open>The life of the module\<close>

text \<open>What holds of the program counter and the kernel's view of the driver.\<close>

definition wqd_phase :: "'k wqd_sys \<Rightarrow> bool" where
  "wqd_phase c \<longleftrightarrow>
     (case pc c of
        Start_request \<Rightarrow> \<not> irq_on c \<and> \<not> work_ready c \<and> \<not> work_pending c
      | Load_failed \<Rightarrow> \<not> irq_on c \<and> \<not> work_ready c \<and> \<not> work_pending c
      | Start_create \<Rightarrow> \<not> work_ready c \<and> \<not> work_pending c
      | Start_init \<Rightarrow> \<not> work_ready c \<and> \<not> work_pending c
      | Running \<Rightarrow> work_ready c
      | Stop_free \<Rightarrow> work_ready c
      | Stop_flush \<Rightarrow> \<not> irq_on c \<and> work_ready c
      | Stop_destroy \<Rightarrow> \<not> irq_on c \<and> work_ready c \<and> \<not> work_pending c
      | Unloaded \<Rightarrow> \<not> irq_on c \<and> work_ready c \<and> \<not> work_pending c)"

interpretation wqd_phases: quiescent_system "wqd_load k" "wqd_step K L h sl work early" wqd_phase "\<lambda>c. pc c = Unloaded"
  for K L h sl work early k
proof unfold_locales
  show "wqd_phase (wqd_load k)" by (simp add: wqd_load_def wqd_phase_def)
  fix c c'
  assume step: "wqd_step K L h sl work early c c'" and ph: "wqd_phase c"
  from step show "wqd_phase c'"
  proof cases
    case irq
    then show ?thesis using ph by (cases "pc c") (simp_all add: wqd_phase_def wqd_my_interrupt_def)
  next
    case (work d)
    then show ?thesis using ph by (cases "pc c") (simp_all add: wqd_phase_def)
  qed (use ph in \<open>simp_all add: wqd_phase_def wqd_log_def\<close>)
next
  fix c c'
  assume "wqd_phase c" "pc c = Unloaded" "wqd_step K L h sl work early c c'"
  then show "c' = c" by (auto simp: wqd_phase_def elim: wqd_step.cases)
qed

text \<open>
  Faults come from the interrupt only: a handler run commits none. Where interrupts wait for
  \<open>start\<close> to finish, the only possible one is the use of a queue that could not be created.
\<close>

lemma wqd_reach_faults:
  assumes "locked_list_api K dlist L" and "wqd_reach K L h sl work False k c" and "dlist k h []" and "h \<in> statics K"
  shows "faults (drv c) = [] \<or> wq c = NULL \<and> set (faults (drv c)) = {NullDeref} \<and> pc c \<notin> {Start_request, Start_create}"
  using assms(2)
proof induction
  case init
  then show ?case by (simp add: wqd_load_def)
next
  case (step c c')
  have phase: "wqd_phase c" using step.hyps(1) by (rule wqd_phases.reach_inv)
  have inv: "wqd_inv K dlist h (drv c)"
    by (rule locked_list_api.wqd_reach_inv [OF assms(1,3,4) step.hyps(1)])
  from step.hyps(2) show ?case
  proof cases
    case (work d)
    have "faults d = faults (drv c)"
      by (rule locked_list_api.wqd_handler_cases [OF assms(1) inv assms(4), of sl]) (use work in auto)
    then show ?thesis using step.IH work by simp
  next
    case irq
    then have "work_ready c" "pc c \<noteq> Start_request" "pc c \<noteq> Start_create"
      using phase by (cases "pc c"; simp add: wqd_phase_def)+
    then show ?thesis using step.IH irq by (cases "wq c = NULL") (auto simp: wqd_my_interrupt_def)
  next
    case (create q)
    then show ?thesis using step.IH by auto
  next
    case flush
    then have "faults (drv c') = faults (drv c) @ (if wq c = NULL then [NullDeref] else [])" "wq c' = wq c" "pc c' = Stop_destroy"
      by simp_all
    then show ?thesis using step.IH by (cases "wq c = NULL") auto
  next
    case destroy
    then have "faults (drv c') = faults (drv c) @ (if wq c = NULL then [NullDeref] else [])" "wq c' = wq c" "pc c' = Unloaded"
      by (simp_all add: wqd_log_def)
    then show ?thesis using step.IH by (cases "wq c = NULL") auto
  qed (use step.IH in \<open>simp_all add: wqd_log_def\<close>)
qed

text \<open>A loading and unloading without an interrupt, step by step.\<close>

lemma wqd_idle_life:
  assumes "wqd_reach K L h sl work early k c" and "pc c = Start_request" and "\<not> work_pending c"
  shows "\<exists>c'. wqd_reach K L h sl work early k c' \<and> pc c' = Unloaded"
proof -
  let ?c1 = "(wqd_log KERN_INFO ''***** Hello world! ***** '' [] c)\<lparr>pc := Start_create, irq_on := True\<rparr>"
  let ?c2 = "?c1\<lparr>pc := Start_init, wq := 42\<rparr>"
  let ?c3 = "?c2\<lparr>pc := Running, work_ready := True\<rparr>"
  let ?c4 = "?c3\<lparr>pc := Stop_free\<rparr>"
  let ?c5 = "?c4\<lparr>pc := Stop_flush, irq_on := False\<rparr>"
  let ?c6 = "(wqd_queue ?c5)\<lparr>pc := Stop_destroy\<rparr>"
  have "wqd_reach K L h sl work early k ?c1"
    by (rule wqd_reach_step [OF assms(1) wqd_step.request_ok]) (rule assms(2))
  then have "wqd_reach K L h sl work early k ?c2" by (rule wqd_reach_step [OF _ wqd_step.create]) simp
  then have "wqd_reach K L h sl work early k ?c3" by (rule wqd_reach_step [OF _ wqd_step.init]) simp
  then have "wqd_reach K L h sl work early k ?c4" by (rule wqd_reach_step [OF _ wqd_step.synchronize]) simp
  then have "wqd_reach K L h sl work early k ?c5" by (rule wqd_reach_step [OF _ wqd_step.free_irq]) simp
  then have "wqd_reach K L h sl work early k ?c6"
    by (rule wqd_reach_step [OF _ wqd_step.flush]) (use assms(3) in \<open>simp_all add: wqd_log_def\<close>)
  then have "wqd_reach K L h sl work early k ((wqd_log KERN_INFO ''Cleaning up module.'' [] (wqd_queue ?c6))\<lparr>pc := Unloaded\<rparr>)"
    by (rule wqd_reach_step [OF _ wqd_step.destroy]) simp
  then show ?thesis by (intro exI conjI) (assumption, simp)
qed

text \<open>
  The interrupt is requested before the queue is created: on every kernel there is a run of
  \<open>start\<close> in which an interrupt arrives in between and the handler queues work on a null queue.
\<close>

lemma wqd_early_interrupt_faults:
  "\<exists>c. wqd_reach K L head sl work True k c \<and> pc c = Start_create \<and> faults (drv c) = [NullDeref]"
proof -
  let ?c1 = "(wqd_log KERN_INFO ''***** Hello world! ***** '' [] (wqd_load k))\<lparr>pc := Start_create, irq_on := True\<rparr>"
  have "wqd_reach K L head sl work True k ?c1"
    by (rule wqd_reach_step [OF reachable.init wqd_step.request_ok]) (simp add: wqd_load_def)
  then have "wqd_reach K L head sl work True k (snd (wqd_my_interrupt work ?c1))"
    by (rule wqd_reach_step [OF _ wqd_step.irq]) simp_all
  moreover have "pc (snd (wqd_my_interrupt work ?c1)) = Start_create"
    "faults (drv (snd (wqd_my_interrupt work ?c1))) = [NullDeref]"
    by (simp_all add: wqd_my_interrupt_def wqd_log_def wqd_load_def)
  ultimately show ?thesis by blast
qed

section \<open>Properties\<close>

text \<open>
  C1. A run of the work handler, from any state in which the list holds the nodes collected so
  far, returns, commits no fault and keeps that invariant. Below fourteen nodes it either
  collects one more, numbered and newest first, or, without memory, changes nothing and leaves its
  spinlock taken; with fourteen it prints them from 13 down to 0, empties the list, starts again at
  0, and frees none of them.
\<close>

theorem wqd_work_handler_correct:
  assumes "locked_list_api K dlist L" and "wqd_inv K dlist head s" and "head \<in> statics K"
  shows "\<exists>s'. wqd_work_handler K L head sl s = Some s' \<and> wqd_inv K dlist head s' \<and> faults s' = faults s \<and>
    (moving_val s < 14 \<and> moving_val s' = moving_val s \<and> wqd_nodes s' = wqd_nodes s \<and>
       allocated K (kern s') = allocated K (kern s) \<and> sl \<in> held L (kern s') \<and>
       klog s' = klog s @ [Line KERN_INFO ''kmalloc failed %d'' [Num (moving_val s)]]
     \<or> moving_val s < 14 \<and> moving_val s' = moving_val s + 1 \<and>
       (\<exists>p. p \<notin> allocated K (kern s) \<and> wqd_nodes s' = wqd_nodes s @ [p] \<and>
         allocated K (kern s') = insert p (allocated K (kern s))) \<and> held L (kern s') = held L (kern s) - {sl} \<and>
       klog s' = klog s @ [Line KERN_INFO ''kmalloc passed for  %d'' [Num (moving_val s)]]
     \<or> moving_val s = 14 \<and> moving_val s' = 0 \<and> allocated K (kern s') = allocated K (kern s) \<and>
       held L (kern s') = held L (kern s) - {sl} \<and> klog s' = klog s @ wqd_flush_lines)"
  by (rule locked_list_api.wqd_handler_cases [OF assms, of sl]) auto

definition wqd_boot :: "nat \<Rightarrow> ref_kernel" where
  "wqd_boot n = ref_init 10 (ref_boot n)"

lemma wqd_boot_ring: "ring (wqd_boot n) 10 []"
  by (simp add: wqd_boot_def ring_init)

lemma wqd_boot_inv: "wqd_inv ref_ops ring 10 (drv (wqd_load (wqd_boot n)))"
  using wqd_boot_ring by (simp add: wqd_inv_def wqd_nodes_def wqd_load_def)

interpretation wqd_sim: forward_simulation "wqd_load (wqd_boot n)" "wqd_step ref_ops ref_locks 10 sl work early"
  "\<lparr>collected = 0, batches = 0\<rparr>" collector_step "\<lambda>c. wqd_implements ref_ops ring 10 (allocated ref_ops (wqd_boot n)) (drv c)"
  for n sl work early
  by (rule ref_locked.wqd_simulation [OF wqd_boot_ring]) simp

theorem wqd_work_handler_correct_witness:
  "\<exists>s'. wqd_work_handler ref_ops ref_locks 10 11 (drv (wqd_load (wqd_boot 0))) = Some s' \<and> moving_val s' = 0 \<and>
     klog s' = [Line KERN_INFO ''kmalloc failed %d'' [Num 0]] \<and> 11 \<in> held ref_locks (kern s')"
proof -
  let ?s = "drv (wqd_load (wqd_boot 0))"
  have static: "(10::addr) \<in> statics ref_ops" by simp
  have "map_option klog (wqd_work_handler ref_ops ref_locks 10 11 ?s) = Some [Line KERN_INFO ''kmalloc failed %d'' [Num 0]]"
    by (simp add: wqd_work_handler_def wqd_load_def wqd_boot_def wqd_f_store_def ref_eval)
  moreover have "moving_val ?s = 0" "klog ?s = []" by (simp_all add: wqd_load_def)
  ultimately show ?thesis
    using wqd_work_handler_correct [OF ref_locked.locked_list_api_axioms wqd_boot_inv static, of 11 0]
    by auto
qed

text \<open>
  C2. In every reachable state of the module, whatever the order in which interrupts, the worker
  thread, loading and unloading take their steps, the list invariant holds: \<open>moving_val\<close> stays
  between 0 and 14, so the array \<open>f\<close> is never indexed out of bounds, and the list holds exactly
  the nodes collected since the last flush.
\<close>

theorem wqd_reachable_list:
  assumes "locked_list_api K dlist L" and "dlist k head []" and "head \<in> statics K"
    and "wqd_reach K L head sl work early k c"
  shows "wqd_inv K dlist head (drv c)"
  by (rule locked_list_api.wqd_reach_inv [OF assms(1-4)])

theorem wqd_reachable_list_witness:
  "\<exists>c. wqd_reach ref_ops ref_locks 10 11 12 True (wqd_boot 5) c \<and> pc c = Start_create \<and> wqd_inv ref_ops ring 10 (drv c)"
proof -
  let ?c = "(wqd_log KERN_INFO ''***** Hello world! ***** '' [] (wqd_load (wqd_boot 5)))\<lparr>pc := Start_create, irq_on := True\<rparr>"
  have "wqd_reach ref_ops ref_locks 10 11 12 True (wqd_boot 5) ?c"
    by (rule wqd_reach_step [OF reachable.init wqd_step.request_ok]) (simp add: wqd_load_def)
  moreover have "(10::addr) \<in> statics ref_ops" by simp
  ultimately show ?thesis
    using wqd_reachable_list [OF ref_locked.locked_list_api_axioms wqd_boot_ring] by force
qed

text \<open>
  C3. The module implements the collector. Every reachable state of the module, in every
  interleaving, corresponds to a reachable state of the abstract collector: \<open>moving_val\<close> is the
  number of nodes collected, the log holds one flush for every batch, and beside what was allocated
  when the module was loaded exactly the collected nodes and fourteen nodes for every batch are
  allocated: what a flush drops is never freed.
\<close>

theorem wqd_refines_collector:
  assumes "locked_list_api K dlist L" and "dlist k head []" and "head \<in> statics K"
    and "wqd_reach K L head sl work early k c"
  shows "\<exists>a. reachable \<lparr>collected = 0, batches = 0\<rparr> collector_step a \<and> moving_val (drv c) = int (collected a) \<and>
    count_list (klog (drv c)) flush_line = batches a \<and>
    (\<exists>N. finite N \<and> card N = collected a + 14 * batches a \<and> N \<inter> allocated K k = {} \<and>
      allocated K (kern (drv c)) = allocated K k \<union> N)"
  using forward_simulation.sim_reach [OF locked_list_api.wqd_simulation [OF assms(1-3)] assms(4)]
  unfolding wqd_implements_def by blast

theorem wqd_refines_collector_witness:
  "\<exists>c a. wqd_reach ref_ops ref_locks 10 11 12 False (wqd_boot 5) c \<and> pc c = Unloaded \<and>
     reachable \<lparr>collected = 0, batches = 0\<rparr> collector_step a \<and> moving_val (drv c) = int (collected a)"
proof -
  obtain c where c: "wqd_reach ref_ops ref_locks 10 11 12 False (wqd_boot 5) c" "pc c = Unloaded"
    using wqd_idle_life [OF reachable.init [of "wqd_load (wqd_boot 5)" "wqd_step ref_ops ref_locks 10 11 12 False"]]
    by (auto simp: wqd_load_def)
  have "(10::addr) \<in> statics ref_ops" by simp
  from wqd_refines_collector [OF ref_locked.locked_list_api_axioms wqd_boot_ring this c(1)] show ?thesis
    using c by (elim exE conjE) (intro exI conjI)
qed

text \<open>
  Once the module is unloaded nothing of it can run any more: its interrupt handler is
  unregistered, no work is pending, and the module can take no further step. The nodes collected
  since the last flush are still allocated at that point.
\<close>

theorem wqd_unloaded_quiescent:
  assumes "locked_list_api K dlist L" and "dlist k head []" and "head \<in> statics K"
    and "wqd_reach K L head sl work early k c" and "pc c = Unloaded"
  shows "\<not> irq_on c \<and> \<not> work_pending c \<and> (\<forall>c'. \<not> wqd_step K L head sl work early c c') \<and>
    set (wqd_nodes (drv c)) \<subseteq> allocated K (kern (drv c))"
proof -
  have "wqd_phase c" using assms(4) by (rule wqd_phases.reach_inv)
  then have quiet: "\<not> irq_on c" "\<not> work_pending c" using assms(5) by (simp_all add: wqd_phase_def)
  moreover have "\<not> wqd_step K L head sl work early c c'" for c'
    using quiet assms(5) by (auto elim: wqd_step.cases)
  moreover have "wqd_inv K dlist head (drv c)"
    by (rule locked_list_api.wqd_reach_inv [OF assms(1-4)])
  ultimately show ?thesis by (simp add: wqd_inv_def)
qed

theorem wqd_unloaded_quiescent_witness:
  "\<exists>c. wqd_reach ref_ops ref_locks 10 11 12 False (wqd_boot 5) c \<and> pc c = Unloaded \<and> \<not> irq_on c \<and> \<not> work_pending c"
proof -
  obtain c where c: "wqd_reach ref_ops ref_locks 10 11 12 False (wqd_boot 5) c" "pc c = Unloaded"
    using wqd_idle_life [OF reachable.init [of "wqd_load (wqd_boot 5)" "wqd_step ref_ops ref_locks 10 11 12 False"]]
    by (auto simp: wqd_load_def)
  have "(10::addr) \<in> statics ref_ops" by simp
  then show ?thesis
    using wqd_unloaded_quiescent [OF ref_locked.locked_list_api_axioms wqd_boot_ring _ c] c by blast
qed

text \<open>
  C32. When the interrupt may arrive. If interrupts arrive only after \<open>start\<close> has returned, the
  module commits no fault, except that it uses a null queue when the queue could not be created,
  which \<open>start\<close> does not check. But the interrupt is requested before the queue is created: on every
  kernel there is a run in which it arrives in between and work is queued on a null queue.
\<close>

theorem wqd_late_interrupts_safe:
  assumes "locked_list_api K dlist L" and "dlist k head []" and "head \<in> statics K"
    and "wqd_reach K L head sl work False k c"
  shows "(faults (drv c) = [] \<or> wq c = NULL \<and> set (faults (drv c)) = {NullDeref}) \<and>
    (\<exists>c'. wqd_reach K L head sl work True k c' \<and> pc c' = Start_create \<and> faults (drv c') = [NullDeref])"
  using wqd_reach_faults [OF assms(1,4,2,3)] by (intro conjI wqd_early_interrupt_faults) blast

theorem wqd_late_interrupts_safe_witness:
  "\<exists>c. wqd_reach ref_ops ref_locks 10 11 12 False (wqd_boot 5) c \<and> pc c = Unloaded \<and>
     (faults (drv c) = [] \<or> wq c = NULL \<and> set (faults (drv c)) = {NullDeref})"
proof -
  obtain c where c: "wqd_reach ref_ops ref_locks 10 11 12 False (wqd_boot 5) c" "pc c = Unloaded"
    using wqd_idle_life [OF reachable.init [of "wqd_load (wqd_boot 5)" "wqd_step ref_ops ref_locks 10 11 12 False"]]
    by (auto simp: wqd_load_def)
  have "(10::addr) \<in> statics ref_ops" by simp
  then show ?thesis
    using wqd_late_interrupts_safe [OF ref_locked.locked_list_api_axioms wqd_boot_ring _ c(1)] c by blast
qed

end
