(* ===== verification/Work_Queue_Global.thy ===== *)
theory Work_Queue_Global
  imports Ref_Kernel Step_System Wait_Api
begin

text \<open>
  The module \<open>work_queue_global/code.c\<close>: \<open>start\<close> allocates a structure with a work item and a
  wait queue in it, hands the work to the shared work queue and waits on the wait queue; the
  handler sets the condition, wakes the waiter and frees the structure. The two run
  concurrently, as a step relation; a signal can arrive for the process that loads the module at any
  time before \<open>start\<close> has returned, and once it has, the module can be unloaded at any time. The
  allocator (\<open>K\<close>) and the wait queues (\<open>W\<close>, theory \<open>Wait_Api\<close>) are the kernel's; \<open>cur\<close> is the process that
  loads the module. The scheduler is in the step relation: a process that is not ready does not run, and the
  shared work queue runs the handler some time after it has been scheduled.
\<close>

section \<open>State\<close>

text \<open>
  Where \<open>start\<close> is. The wait tests the condition first without touching the queue, then, on
  every round, prepares to wait, tests the condition and the result of the preparation, and sleeps.
\<close>

datatype wg_start_pc = S_alloc | S_init | S_schedule | S_message | S_test | S_prepare | S_check int | S_sleep
  | S_report | S_return int

text \<open>Where the work is: not scheduled, queued, or at a statement of \<open>do_work_handler\<close>.\<close>

datatype wg_work_pc = W_idle | W_queued | W_set | W_wake | W_free | W_end

record ('k, 'w) wqg = "'k env" +
  waits :: 'w
  my_data :: addr
  wd_data :: "addr \<Rightarrow> int"
  wg_condition :: int
  wg_start :: wg_start_pc
  wg_work :: wg_work_pc
  interrupted :: bool
  wg_loaded :: bool

abbreviation (input) sizeof_work_struct_data :: nat where
  "sizeof_work_struct_data \<equiv> 64"

definition wg_boot :: "'k \<Rightarrow> 'w \<Rightarrow> ('k, 'w) wqg" where
  "wg_boot k w = \<lparr>kern = k, klog = [], faults = [], waits = w, my_data = NULL, wd_data = (\<lambda>_. 0), wg_condition = 0,
     wg_start = S_alloc, wg_work = W_idle, interrupted = False, wg_loaded = True\<rparr>"

section \<open>The statements\<close>

text \<open>
  The kernel's \<open>finish_wait\<close> touches the queue, which is inside the structure, only when the process
  still has an entry on it.
\<close>

definition wg_finish_wait ::
  "('k, 'y) slab_ops_scheme \<Rightarrow> ('w, 'v) wait_ops_scheme \<Rightarrow> addr \<Rightarrow> ('k, 'w) wqg \<Rightarrow> ('k, 'w) wqg" where
  "wg_finish_wait K W cur s =
     (let s = (if waits_on W (waits s) (my_data s) cur then deref K (my_data s) s else s)
      in s\<lparr>waits := finish_wait_op W (my_data s) cur (waits s)\<rparr>)"

text \<open>The statements of \<open>start\<close>; \<open>None\<close> when it sleeps or has returned.\<close>

fun wg_start_stmt ::
  "('k, 'y) slab_ops_scheme \<Rightarrow> ('w, 'v) wait_ops_scheme \<Rightarrow> addr \<Rightarrow> wg_start_pc \<Rightarrow> ('k, 'w) wqg \<Rightarrow> ('k, 'w) wqg option" where
  "wg_start_stmt K W cur S_alloc s =
     (let (p, s) = kmalloc K sizeof_work_struct_data s; s = s\<lparr>my_data := p\<rparr>
      in if my_data s = NULL then Some ((pr_info ''kmalloc failed'' [] s)\<lparr>wg_start := S_return (-1)\<rparr>)
         else Some (s\<lparr>wg_start := S_init\<rparr>))"
| "wg_start_stmt K W cur S_init s =
     (let s = deref K (my_data s) s
      in Some (s\<lparr>wd_data := (wd_data s)(my_data s := 1400),
           waits := init_waitqueue_head_op W (my_data s) (waits s), wg_start := S_schedule\<rparr>))"
| "wg_start_stmt K W cur S_schedule s =
     (let s = deref K (my_data s) s in Some (s\<lparr>wg_work := W_queued, wg_start := S_message\<rparr>))"
| "wg_start_stmt K W cur S_message s =
     Some ((pr_info ''I'm going to sleep now ...Value of condition = %d'' [Num (wg_condition s)] s)\<lparr>wg_start := S_test\<rparr>)"
| "wg_start_stmt K W cur S_test s =
     Some (if wg_condition s \<noteq> 0 then s\<lparr>wg_start := S_report\<rparr> else s\<lparr>wg_start := S_prepare\<rparr>)"
| "wg_start_stmt K W cur S_prepare s =
     (let s = deref K (my_data s) s;
          (r, w) = prepare_to_wait_event_op W (my_data s) cur (waits s)
      in Some (s\<lparr>waits := w, wg_start := S_check r\<rparr>))"
| "wg_start_stmt K W cur (S_check r) s =
     Some (if wg_condition s \<noteq> 0 then (wg_finish_wait K W cur s)\<lparr>wg_start := S_report\<rparr>
           else if r \<noteq> 0 then s\<lparr>interrupted := True, wg_start := S_report\<rparr>
           else s\<lparr>wg_start := S_sleep\<rparr>)"
| "wg_start_stmt K W cur S_sleep s = (if ready W (waits s) cur then Some (s\<lparr>wg_start := S_prepare\<rparr>) else None)"
| "wg_start_stmt K W cur S_report s =
     Some ((printk KERN_DEFAULT ''woken up...Value of condition = %d'' [Num (wg_condition s)] s)\<lparr>wg_start := S_return 0\<rparr>)"
| "wg_start_stmt K W cur (S_return r) s = None"

text \<open>The statements of \<open>do_work_handler\<close>.\<close>

fun do_work_handler_stmt ::
  "('k, 'y) slab_ops_scheme \<Rightarrow> ('w, 'v) wait_ops_scheme \<Rightarrow> wg_work_pc \<Rightarrow> ('k, 'w) wqg \<Rightarrow> ('k, 'w) wqg option" where
  "do_work_handler_stmt K W W_queued s =
     (let s = deref K (my_data s) s
      in Some ((pr_info ''Inside work handler..., value =  %d'' [Num (wd_data s (my_data s))] s)\<lparr>wg_work := W_set\<rparr>))"
| "do_work_handler_stmt K W W_set s = Some (s\<lparr>wg_condition := 5, wg_work := W_wake\<rparr>)"
| "do_work_handler_stmt K W W_wake s =
     (let s = deref K (my_data s) s
      in Some (s\<lparr>waits := wake_up_interruptible_op W (my_data s) (waits s), wg_work := W_free\<rparr>))"
| "do_work_handler_stmt K W W_free s = Some ((kfree K (my_data s) s)\<lparr>wg_work := W_end\<rparr>)"
| "do_work_handler_stmt K W _ s = None"

definition wg_stops :: "('k, 'w) wqg \<Rightarrow> ('k, 'w) wqg" where
  "wg_stops s = s"

text \<open>The handler is code of the module: to run it when the module has been unloaded is a fault.\<close>

definition wg_code :: "('k, 'w) wqg \<Rightarrow> ('k, 'w) wqg" where
  "wg_code s = (if wg_loaded s then s else fault UnloadedCode s)"

text \<open>The steps of the module itself, which need nothing from outside.\<close>

inductive wg_own_step ::
  "('k, 'y) slab_ops_scheme \<Rightarrow> ('w, 'v) wait_ops_scheme \<Rightarrow> addr \<Rightarrow> ('k, 'w) wqg \<Rightarrow> ('k, 'w) wqg \<Rightarrow> bool" for K W cur where
  start: "wg_start_stmt K W cur (wg_start s) s = Some t \<Longrightarrow> wg_own_step K W cur s t"
| work: "do_work_handler_stmt K W (wg_work s) (wg_code s) = Some t \<Longrightarrow> wg_own_step K W cur s t"
| unload: "wg_start s = S_return 0 \<Longrightarrow> wg_loaded s \<Longrightarrow> wg_own_step K W cur s ((wg_stops s)\<lparr>wg_loaded := False\<rparr>)"

text \<open>
  And those together with the environment: a signal may arrive while \<open>start\<close> has not returned. A
  further one makes no difference while one is pending.
\<close>

inductive wg_step ::
  "('k, 'y) slab_ops_scheme \<Rightarrow> ('w, 'v) wait_ops_scheme \<Rightarrow> addr \<Rightarrow> ('k, 'w) wqg \<Rightarrow> ('k, 'w) wqg \<Rightarrow> bool" for K W cur where
  own: "wg_own_step K W cur s t \<Longrightarrow> wg_step K W cur s t"
| signal: "\<forall>r. wg_start s \<noteq> S_return r \<Longrightarrow> \<not> signalled W (waits s) cur \<Longrightarrow>
    wg_step K W cur s (s\<lparr>waits := signal_op W cur (waits s)\<rparr>)"

abbreviation wg_reach ::
  "('k, 'y) slab_ops_scheme \<Rightarrow> ('w, 'v) wait_ops_scheme \<Rightarrow> addr \<Rightarrow> 'k \<Rightarrow> 'w \<Rightarrow> ('k, 'w) wqg \<Rightarrow> bool" where
  "wg_reach K W cur k0 w0 \<equiv> reachable (wg_boot k0 w0) (wg_step K W cur)"

lemmas wg_reach_step = reachable.step [where boot = "wg_boot k0 w0" and step = "wg_step K W cur"] for K W cur k0 w0

lemmas wg_reach_own = wg_reach_step [OF _ wg_step.own]

inductive_cases wg_own_stepE: "wg_own_step K W cur s t"

section \<open>The invariant\<close>

text \<open>The points of \<open>start\<close> before the work is scheduled.\<close>

definition unscheduled :: "wg_start_pc \<Rightarrow> bool" where
  "unscheduled p \<longleftrightarrow> p \<in> {S_alloc, S_init, S_schedule, S_return (-1)}"

text \<open>The structure is live from its allocation to the end of the handler.\<close>

definition live :: "('k, 'w) wqg \<Rightarrow> bool" where
  "live s \<longleftrightarrow> wg_start s \<noteq> S_alloc \<and> wg_start s \<noteq> S_return (-1) \<and> wg_work s \<noteq> W_end"

text \<open>
  The faults there can be, for a structure \<open>p\<close>, with the handler \<open>ended\<close> and \<open>start\<close> \<open>returned\<close>: an
  access to the structure after the handler has ended, and code of the module after it has been
  unloaded, which happens only after \<open>start\<close> has returned.
\<close>

definition wg_faults_ok :: "addr \<Rightarrow> bool \<Rightarrow> bool \<Rightarrow> bool \<Rightarrow> fault list \<Rightarrow> bool" where
  "wg_faults_ok p ended returned loaded fs \<longleftrightarrow> (loaded \<or> returned) \<and>
     (\<forall>f\<in>set fs. f = UseAfterFree p \<and> ended \<or> f = UnloadedCode \<and> \<not> loaded)"

lemma wg_faults_ok_simps [simp]:
  "wg_faults_ok p e r l [] \<longleftrightarrow> l \<or> r"
  "wg_faults_ok p True r l (fs @ [UseAfterFree p]) = wg_faults_ok p True r l fs"
  "wg_faults_ok p e r False (fs @ [UnloadedCode]) = wg_faults_ok p e r False fs"
  by (auto simp: wg_faults_ok_def)

lemma wg_faults_ok_idle: "wg_faults_ok p False False l fs \<longleftrightarrow> l \<and> fs = []"
  by (cases fs) (auto simp: wg_faults_ok_def)

lemma wg_faults_ok_mono:
  "wg_faults_ok p False r l fs \<Longrightarrow> wg_faults_ok p True r l fs" "wg_faults_ok p e False l fs \<Longrightarrow> wg_faults_ok p e True l fs"
  "wg_faults_ok p e True l fs \<Longrightarrow> wg_faults_ok p e True False fs"
  by (auto simp: wg_faults_ok_def)

definition wg_inv :: "('k, 'y) slab_ops_scheme \<Rightarrow> ('w, 'v) wait_ops_scheme \<Rightarrow> addr \<Rightarrow> 'k \<Rightarrow> ('k, 'w) wqg \<Rightarrow> bool" where
  "wg_inv K W cur k0 s \<longleftrightarrow>
     (unscheduled (wg_start s) \<longleftrightarrow> wg_work s = W_idle) \<and>
     allocated K (kern s) = allocated K k0 \<union> (if live s then {my_data s} else {}) \<and>
     (wg_start s \<notin> {S_alloc, S_return (-1)} \<longrightarrow> my_data s \<notin> valid K k0 \<and> my_data s \<noteq> NULL) \<and>
     wg_condition s = (if wg_work s \<in> {W_wake, W_free, W_end} then 5 else 0) \<and>
     (wg_start s \<in> {S_check 0, S_sleep} \<longrightarrow> waits_on W (waits s) (my_data s) cur \<or> ready W (waits s) cur) \<and>
     (wg_start s = S_sleep \<and> wg_work s \<in> {W_free, W_end} \<longrightarrow> ready W (waits s) cur) \<and>
     (wg_start s \<notin> {S_alloc, S_init, S_return (-1)} \<longrightarrow> wd_data s (my_data s) = 1400) \<and>
     (wg_start s \<in> {S_report, S_return 0} \<and> \<not> interrupted s \<longrightarrow> wg_condition s = 5) \<and>
     (\<forall>r. wg_start s = S_return r \<longrightarrow> r \<in> {0, -1}) \<and>
     wg_faults_ok (my_data s) (wg_work s = W_end) (wg_start s = S_return 0) (wg_loaded s) (faults s)"

lemmas wg_inv_defs = wg_inv_def unscheduled_def live_def

lemma wg_inv_idle:
  assumes "wg_inv K W cur k0 s" and "unscheduled (wg_start s)"
  shows "wg_work s = W_idle" "faults s = []" "wg_loaded s"
proof -
  show w: "wg_work s = W_idle" using assms unfolding wg_inv_def by simp
  have ret: "wg_start s \<noteq> S_return 0" using assms(2) by (auto simp: unscheduled_def)
  have "wg_faults_ok (my_data s) False False (wg_loaded s) (faults s)"
    using assms(1) w ret unfolding wg_inv_def by simp
  then show "faults s = []" "wg_loaded s" by (simp_all add: wg_faults_ok_idle)
qed

text \<open>The log plays no role in the invariant.\<close>

lemma wg_inv_printk: "wg_inv K W cur k0 (printk l f as s) = wg_inv K W cur k0 s"
  by (simp add: wg_inv_defs printk_def)

lemma wg_inv_code: "wg_inv K W cur k0 (wg_code s) = wg_inv K W cur k0 s"
proof (cases "wg_loaded s")
  case True
  then show ?thesis by (simp add: wg_code_def)
next
  case False
  then have "wg_code s = s\<lparr>faults := faults s @ [UnloadedCode]\<rparr>" by (simp add: wg_code_def fault_def)
  moreover have "wg_faults_ok p e r (wg_loaded s) (fs @ [UnloadedCode]) = wg_faults_ok p e r (wg_loaded s) fs" for p e r fs
    using False by simp
  ultimately show ?thesis by (simp add: wg_inv_defs del: wg_faults_ok_simps(3))
qed

lemma printk_moves:
  "(printk l f as s)\<lparr>wg_start := x\<rparr> = printk l f as (s\<lparr>wg_start := x\<rparr>)"
  "(printk l f as s)\<lparr>wg_work := y\<rparr> = printk l f as (s\<lparr>wg_work := y\<rparr>)"
  by (simp_all add: printk_def)

lemma wg_code_fields [simp]:
  "wg_start (wg_code s) = wg_start s" "wg_work (wg_code s) = wg_work s" "waits (wg_code s) = waits s"
  "wg_loaded (wg_code s) = wg_loaded s" "wg_loaded s \<Longrightarrow> wg_code s = s"
  by (simp_all add: wg_code_def fault_def)

text \<open>The module on a kernel with an allocator and wait queues, loaded by the process \<open>cur\<close>.\<close>

locale wg_module = slab_api K + wait_api W
  for K :: "('k, 'y) slab_ops_scheme" and W :: "('w, 'v) wait_ops_scheme" +
  fixes cur :: addr and k0 :: 'k and w0 :: 'w
begin

lemma wg_inv_boot: "wg_inv K W cur k0 (wg_boot k0 w0)"
  by (simp add: wg_inv_defs wg_boot_def)

text \<open>While the structure is live, an access to it is no fault; afterwards it is a use after free.\<close>

lemma wg_access:
  assumes "wg_inv K W cur k0 s"
  shows "live s \<Longrightarrow> deref K (my_data s) s = s"
    and "wg_start s \<notin> {S_alloc, S_return (-1)} \<Longrightarrow> \<not> live s \<Longrightarrow> wg_work s = W_end"
  using assms by (auto simp: wg_inv_def valid_def live_def)

lemma wg_inv_alloc:
  assumes "wg_inv K W cur k0 s" and "wg_start s = S_alloc" and "wg_start_stmt K W cur S_alloc s = Some t"
  shows "wg_inv K W cur k0 t"
proof -
  obtain p s1 where m: "kmalloc K 64 s = (p, s1)" by fastforce
  from m show ?thesis
  proof (cases rule: kmalloc_cases)
    case (1 k)
    then have "t = (pr_info ''kmalloc failed'' [] (s\<lparr>kern := k, my_data := NULL\<rparr>))\<lparr>wg_start := S_return (-1)\<rparr>"
      using assms(3) m by simp
    moreover have "wg_inv K W cur k0 (s\<lparr>kern := k, my_data := NULL, wg_start := S_return (-1)\<rparr>)"
      using assms(1,2) 1(3) wg_inv_idle [OF assms(1)] by (simp add: wg_inv_defs)
    ultimately show ?thesis by (simp add: printk_moves wg_inv_printk)
  next
    case (2 k)
    then have "p \<notin> valid K k0" using assms(1,2) by (auto simp: wg_inv_defs valid_def)
    moreover have "t = s\<lparr>kern := k, my_data := p, wg_start := S_init\<rparr>" using assms(3) m 2(1,3) by simp
    ultimately show ?thesis
      using 2(1,4) assms(1,2) wg_inv_idle [OF assms(1)] by (simp add: wg_inv_defs)
  qed
qed

lemma wg_inv_prepare:
  assumes inv: "wg_inv K W cur k0 s" and pc: "wg_start s = S_prepare" and t: "wg_start_stmt K W cur S_prepare s = Some t"
  shows "wg_inv K W cur k0 t"
proof -
  obtain r w where p: "prepare_to_wait_event_op W (my_data s) cur (waits s) = (r, w)" by fastforce
  have q: "waits_on W w (my_data s) cur \<or> ready W w cur" if "r = 0"
    using prepare_waits [OF _ p] prepare_interrupted [OF _ p] that by blast
  show ?thesis
  proof (cases "live s")
    case True
    then have "t = s\<lparr>waits := w, wg_start := S_check r\<rparr>"
      using t p wg_access(1) [OF inv] by simp
    then show ?thesis using inv pc True q by (simp add: wg_inv_defs)
  next
    case False
    then have w: "wg_work s = W_end" using wg_access(2) [OF inv] pc by simp
    have "deref K (my_data s) s = s \<or> deref K (my_data s) s = fault (UseAfterFree (my_data s)) s"
      using inv pc null_invalid by (auto simp: deref_def wg_inv_defs)
    then consider "t = s\<lparr>waits := w, wg_start := S_check r\<rparr>"
      | "t = s\<lparr>faults := faults s @ [UseAfterFree (my_data s)], waits := w, wg_start := S_check r\<rparr>"
      using t p by (auto simp: fault_def)
    then show ?thesis by cases (use inv pc w q in \<open>simp_all add: wg_inv_defs\<close>)
  qed
qed

text \<open>The end of the wait, which may touch the queue after the handler has freed it.\<close>

lemma wg_finish_cases:
  assumes inv: "wg_inv K W cur k0 s" and pc: "wg_start s = S_check r"
  obtains w where "wg_finish_wait K W cur s = s\<lparr>waits := w\<rparr>"
  | w where "wg_finish_wait K W cur s = s\<lparr>faults := faults s @ [UseAfterFree (my_data s)], waits := w\<rparr>" "wg_work s = W_end"
proof (cases "live s")
  case True
  then have "wg_finish_wait K W cur s = s\<lparr>waits := finish_wait_op W (my_data s) cur (waits s)\<rparr>"
    using wg_access(1) [OF inv] by (simp add: wg_finish_wait_def)
  then show thesis by (rule that(1))
next
  case False
  then have w: "wg_work s = W_end" using wg_access(2) [OF inv] pc by simp
  have "my_data s \<noteq> NULL" using inv pc by (simp add: wg_inv_defs)
  then consider "wg_finish_wait K W cur s = s\<lparr>waits := finish_wait_op W (my_data s) cur (waits s)\<rparr>"
    | "wg_finish_wait K W cur s =
        s\<lparr>faults := faults s @ [UseAfterFree (my_data s)], waits := finish_wait_op W (my_data s) cur (waits s)\<rparr>"
    by (cases "waits_on W (waits s) (my_data s) cur"; cases "my_data s \<in> valid K (kern s)")
      (simp_all add: wg_finish_wait_def deref_def fault_def)
  then show thesis by cases (use that w in blast)+
qed

lemma wg_inv_start:
  assumes inv: "wg_inv K W cur k0 s" and t: "wg_start_stmt K W cur (wg_start s) s = Some t"
  shows "wg_inv K W cur k0 t"
proof (cases "wg_start s")
  case S_alloc
  then show ?thesis using inv t by (metis wg_inv_alloc)
next
  case S_prepare
  then show ?thesis using inv t by (metis wg_inv_prepare)
next
  case S_init
  then have "live s" using inv by (simp add: wg_inv_defs)
  then have "t = s\<lparr>wd_data := (wd_data s)(my_data s := 1400),
      waits := init_waitqueue_head_op W (my_data s) (waits s), wg_start := S_schedule\<rparr>"
    using S_init t wg_access(1) [OF inv] by simp
  then show ?thesis using S_init inv wg_inv_idle [OF inv] by (simp add: wg_inv_defs)
next
  case S_schedule
  then have "live s" using inv by (simp add: wg_inv_defs)
  then have "t = s\<lparr>wg_work := W_queued, wg_start := S_message\<rparr>"
    using S_schedule t wg_access(1) [OF inv] by simp
  then show ?thesis using S_schedule inv wg_inv_idle [OF inv] by (simp add: wg_inv_defs)
next
  case S_message
  then have "wg_inv K W cur k0 (s\<lparr>wg_start := S_test\<rparr>)" using inv by (simp add: wg_inv_defs)
  then show ?thesis using S_message t by (simp add: printk_moves wg_inv_printk) (metis wg_inv_printk)
next
  case S_test
  then have "t = (if wg_condition s \<noteq> 0 then s\<lparr>wg_start := S_report\<rparr> else s\<lparr>wg_start := S_prepare\<rparr>)"
    using t by simp
  then show ?thesis using inv S_test by (cases "wg_work s") (simp_all add: wg_inv_defs)
next
  case (S_check r)
  then have t': "t = (if wg_condition s \<noteq> 0 then (wg_finish_wait K W cur s)\<lparr>wg_start := S_report\<rparr>
      else if r \<noteq> 0 then s\<lparr>interrupted := True, wg_start := S_report\<rparr> else s\<lparr>wg_start := S_sleep\<rparr>)"
    using t by simp
  show ?thesis
  proof (cases "wg_condition s \<noteq> 0")
    case True
    show ?thesis
      by (rule wg_finish_cases [OF inv S_check]) (use inv S_check t' True in \<open>cases "wg_work s"; simp add: wg_inv_defs\<close>)+
  next
    case False
    then have "wg_work s \<notin> {W_wake, W_free, W_end}" using inv by (simp add: wg_inv_defs split: if_splits)
    then show ?thesis
      using inv S_check t' False by (cases "r = 0"; cases "wg_work s"; simp add: wg_inv_defs)
  qed
next
  case S_sleep
  then have "t = s\<lparr>wg_start := S_prepare\<rparr>" using t by (simp split: if_splits)
  then show ?thesis using inv S_sleep by (cases "wg_work s") (simp_all add: wg_inv_defs)
next
  case S_report
  then have "wg_inv K W cur k0 (s\<lparr>wg_start := S_return 0\<rparr>)" using inv
    by (cases "wg_work s"; simp add: wg_inv_defs wg_faults_ok_mono; (elim conjE; force)?)
  then show ?thesis using S_report t by (simp add: printk_moves wg_inv_printk) (metis wg_inv_printk)
next
  case (S_return r)
  then show ?thesis using t by simp
qed

lemma wg_inv_work:
  assumes inv: "wg_inv K W cur k0 s" and t: "do_work_handler_stmt K W (wg_work s) s = Some t"
  shows "wg_inv K W cur k0 t"
proof (cases "wg_work s")
  case W_idle
  then show ?thesis using t by simp
next
  case W_queued
  then have "live s" using inv by (auto simp: wg_inv_defs)
  moreover have "wg_inv K W cur k0 (s\<lparr>wg_work := W_set\<rparr>)" using W_queued inv by (auto simp: wg_inv_defs)
  ultimately show ?thesis
    using W_queued t wg_access(1) [OF inv] by (simp add: printk_moves) (metis wg_inv_printk)
next
  case W_set
  then have "t = s\<lparr>wg_condition := 5, wg_work := W_wake\<rparr>" using t by simp
  then show ?thesis using inv W_set by (cases "wg_start s"; simp add: wg_inv_defs; (elim conjE disjE; simp)?)
next
  case W_wake
  then have "live s" using inv by (simp add: wg_inv_defs)
  then have t': "t = s\<lparr>waits := wake_up_interruptible_op W (my_data s) (waits s), wg_work := W_free\<rparr>"
    using W_wake t wg_access(1) [OF inv] by simp
  have "wg_start s \<in> {S_check 0, S_sleep} \<longrightarrow> waits_on W (waits s) (my_data s) cur \<or> ready W (waits s) cur"
    using inv unfolding wg_inv_def by (elim conjE)
  then have "ready W (waits t) cur" if "wg_start s \<in> {S_check 0, S_sleep}"
    using that wake_up_not_lost [of "waits s" "my_data s" cur] by (auto simp: t')
  then show ?thesis
    using inv W_wake t' by (cases "wg_start s"; simp add: wg_inv_defs; (elim conjE disjE; simp)?)
next
  case W_free
  then have live: "live s" using inv by (simp add: wg_inv_defs)
  then have al: "allocated K (kern s) = insert (my_data s) (allocated K k0)" "my_data s \<notin> allocated K k0"
    using inv by (simp_all add: wg_inv_def live_def valid_def)
  then have "t = s\<lparr>kern := kfree_op K (my_data s) (kern s), wg_work := W_end\<rparr>"
    using W_free t kfree_step [of "my_data s" s] by (simp add: upd_kern_def)
  moreover have "allocated K (kfree_op K (my_data s) (kern s)) = allocated K k0"
    using kfree_releases [of "my_data s" "kern s"] al by simp
  ultimately show ?thesis using inv W_free by (cases "wg_start s"; simp add: wg_inv_defs wg_faults_ok_mono)
next
  case W_end
  then show ?thesis using t by simp
qed

lemma wg_inv_own:
  assumes "wg_own_step K W cur s t" and "wg_inv K W cur k0 s"
  shows "wg_inv K W cur k0 t"
  using assms(1)
proof cases
  case start
  then show ?thesis using assms(2) wg_inv_start by blast
next
  case work
  moreover have "wg_inv K W cur k0 (wg_code s)" using assms(2) by (simp only: wg_inv_code)
  ultimately show ?thesis using wg_inv_work [of "wg_code s"] by simp
next
  case unload
  then show ?thesis
    using assms(2) by (cases "wg_work s"; simp add: wg_stops_def wg_inv_defs wg_faults_ok_mono(3) [where l = True]; force?)
qed

lemma wg_inv_step:
  assumes "wg_step K W cur s t" and "wg_inv K W cur k0 s"
  shows "wg_inv K W cur k0 t"
  using assms(1)
proof cases
  case own
  then show ?thesis using assms(2) by (rule wg_inv_own)
next
  case signal
  then have "wg_start s \<noteq> S_return r" for r by blast
  then show ?thesis
    using signal assms(2) by (cases "wg_work s"; simp add: wg_inv_defs signal_ready)
qed

text \<open>A state in which the module itself can do nothing.\<close>

lemma wg_stuck:
  assumes inv: "wg_inv K W cur k0 s" and stuck: "\<nexists>t. wg_own_step K W cur s t"
  shows "wg_start s = S_return 0 \<and> wg_work s = W_end \<and> \<not> wg_loaded s \<or> wg_start s = S_return (-1) \<and> wg_work s = W_idle"
proof -
  have n: "wg_start_stmt K W cur (wg_start s) s = None"
    using stuck wg_own_step.start [of K W cur s] by (cases "wg_start_stmt K W cur (wg_start s) s") auto
  have "do_work_handler_stmt K W (wg_work s) (wg_code s) = None"
    using stuck wg_own_step.work [of K W s] by (cases "do_work_handler_stmt K W (wg_work s) (wg_code s)") auto
  then have w: "wg_work s = W_idle \<or> wg_work s = W_end" by (cases "wg_work s") (auto simp: Let_def)
  have "wg_start s \<noteq> S_sleep"
  proof
    assume sl: "wg_start s = S_sleep"
    then have "wg_work s = W_end" using w inv by (auto simp: wg_inv_defs)
    then have "ready W (waits s) cur" using sl inv by (simp add: wg_inv_defs)
    then show False using n sl by simp
  qed
  then obtain r where r: "wg_start s = S_return r"
    using n by (cases "wg_start s") (auto simp: Let_def split: prod.splits if_splits)
  have "wg_start s = S_return 0 \<Longrightarrow> \<not> wg_loaded s" using stuck wg_own_step.unload [of s K] by auto
  then show ?thesis using r w inv by (auto simp: wg_inv_defs)
qed

end

section \<open>Termination\<close>

text \<open>
  How many statements each side can still execute; a wake-up gives \<open>start\<close> one more round of
  its wait, which the statements left to the handler pay for.
\<close>

definition start_rank :: "('w, 'v) wait_ops_scheme \<Rightarrow> addr \<Rightarrow> ('k, 'w) wqg \<Rightarrow> nat" where
  "start_rank W cur s = (let w = (if ready W (waits s) cur then 4 else 0) in case wg_start s of
     S_alloc \<Rightarrow> 60 | S_init \<Rightarrow> 50 | S_schedule \<Rightarrow> 40 | S_message \<Rightarrow> 6 | S_test \<Rightarrow> 5 | S_prepare \<Rightarrow> 4
   | S_check r \<Rightarrow> 3 + (if r = 0 then w else 0) | S_sleep \<Rightarrow> 2 + w | S_report \<Rightarrow> 1 | S_return r \<Rightarrow> 0)"

definition work_rank :: "wg_work_pc \<Rightarrow> nat" where
  "work_rank p = (case p of W_idle \<Rightarrow> 0 | W_queued \<Rightarrow> 24 | W_set \<Rightarrow> 18 | W_wake \<Rightarrow> 12 | W_free \<Rightarrow> 6 | W_end \<Rightarrow> 0)"

definition wg_measure :: "('w, 'v) wait_ops_scheme \<Rightarrow> addr \<Rightarrow> ('k, 'w) wqg \<Rightarrow> nat" where
  "wg_measure W cur s = start_rank W cur s + work_rank (wg_work s) + (if wg_loaded s then 1 else 0) +
     (if signalled W (waits s) cur then 0 else 6)"

lemmas wg_rank_defs = wg_measure_def start_rank_def work_rank_def

lemma wg_fields_env [simp]:
  "wg_start (deref K p s) = wg_start s" "wg_work (deref K p s) = wg_work s" "waits (deref K p s) = waits s"
  "wg_start (kfree K p s) = wg_start s" "wg_work (kfree K p s) = wg_work s" "waits (kfree K p s) = waits s"
  "wg_start (printk l f as s) = wg_start s" "wg_work (printk l f as s) = wg_work s"
  "waits (printk l f as s) = waits s" "wg_loaded (deref K p s) = wg_loaded s"
  "wg_loaded (kfree K p s) = wg_loaded s" "wg_loaded (printk l f as s) = wg_loaded s"
  "my_data (deref K p s) = my_data s"
  by (simp_all add: deref_def kfree_def env_defs)

lemma wg_finish_fields [simp]:
  "wg_start (wg_finish_wait K W cur s) = wg_start s" "wg_work (wg_finish_wait K W cur s) = wg_work s"
  "waits (wg_finish_wait K W cur s) = finish_wait_op W (my_data s) cur (waits s)"
  "wg_loaded (wg_finish_wait K W cur s) = wg_loaded s"
  by (simp_all add: wg_finish_wait_def deref_def fault_def)

lemma kmalloc_fields:
  "kmalloc K n s = (p, t) \<Longrightarrow> wg_work t = wg_work s \<and> waits t = waits s \<and> wg_loaded t = wg_loaded s"
  by (auto simp: kmalloc_def split: prod.splits)

lemma start_rank_woken: "wg_start t = wg_start s \<Longrightarrow> start_rank W cur t \<le> start_rank W cur s + 4"
  by (simp add: start_rank_def Let_def split: wg_start_pc.splits)

context wg_module
begin

lemma wg_measure_prepare:
  assumes "wg_start_stmt K W cur S_prepare s = Some t" and "wg_start s = S_prepare"
  shows "wg_measure W cur t < wg_measure W cur s"
proof -
  obtain r w where p: "prepare_to_wait_event_op W (my_data (deref K (my_data s) s)) cur (waits s) = (r, w)" by fastforce
  have t: "wg_start t = S_check r" "waits t = w" "wg_work t = wg_work s" "wg_loaded t = wg_loaded s"
    using assms(1) p by auto
  have "r = 0 \<Longrightarrow> \<not> ready W w cur" using prepare_waits [OF _ p] prepare_interrupted [OF _ p] by blast
  then show ?thesis using t assms(2) prepare_signalled [OF p] by (simp add: wg_rank_defs)
qed

lemma wg_measure_start:
  assumes "wg_start_stmt K W cur (wg_start s) s = Some t" and "wg_start s = S_schedule \<Longrightarrow> wg_work s = W_idle"
  shows "wg_measure W cur t < wg_measure W cur s"
proof (cases "wg_start s")
  case S_alloc
  obtain p u where m: "kmalloc K 64 s = (p, u)" by fastforce
  then have t: "wg_work t = wg_work s" "wg_loaded t = wg_loaded s" "waits t = waits s"
    "wg_start t = S_return (-1) \<or> wg_start t = S_init"
    using assms(1) S_alloc kmalloc_fields [OF m] by (auto simp: Let_def split: if_splits)
  then show ?thesis using S_alloc by (auto simp: wg_rank_defs)
next
  case S_prepare
  then show ?thesis using assms(1) wg_measure_prepare by simp
next
  case S_init
  then have "wg_start t = S_schedule" "wg_work t = wg_work s" "wg_loaded t = wg_loaded s"
    "signalled W (waits t) cur = signalled W (waits s) cur"
    using assms(1) by (auto simp: Let_def init_signalled)
  then show ?thesis using S_init by (simp add: wg_rank_defs)
next
  case S_schedule
  then show ?thesis using assms by (auto simp: wg_rank_defs Let_def)
next
  case S_sleep
  then show ?thesis using assms(1) by (auto simp: wg_rank_defs split: if_splits)
next
  case (S_check r)
  then show ?thesis using assms(1) by (auto simp: wg_rank_defs finish_signalled split: if_splits)
next
  case S_test
  then show ?thesis using assms(1) by (auto simp: wg_rank_defs split: if_splits)
next
  case S_message
  then have "wg_start t = S_test" "wg_work t = wg_work s" "wg_loaded t = wg_loaded s" "waits t = waits s" using assms(1) by auto
  then show ?thesis using S_message by (simp add: wg_rank_defs)
next
  case S_report
  then have "wg_start t = S_return 0" "wg_work t = wg_work s" "wg_loaded t = wg_loaded s" "waits t = waits s" using assms(1) by auto
  then show ?thesis using S_report by (simp add: wg_rank_defs)
next
  case (S_return r)
  then show ?thesis using assms(1) by simp
qed

lemma wg_measure_work:
  assumes "do_work_handler_stmt K W (wg_work s) s = Some t"
  shows "wg_measure W cur t < wg_measure W cur s"
proof -
  have "wg_start t = wg_start s" "work_rank (wg_work t) + 6 = work_rank (wg_work s)" "wg_loaded t = wg_loaded s"
    "signalled W (waits t) cur = signalled W (waits s) cur"
    using assms by (cases "wg_work s"; auto simp: work_rank_def Let_def wake_up_signalled)+
  then show ?thesis using start_rank_woken [of t s W cur] by (simp add: wg_measure_def)
qed

lemma wg_measure_step:
  assumes "wg_step K W cur s t" and "wg_start s = S_schedule \<Longrightarrow> wg_work s = W_idle"
  shows "wg_measure W cur t < wg_measure W cur s"
  using assms(1)
proof cases
  case own
  then show ?thesis
  proof cases
    case start
    then show ?thesis using assms(2) wg_measure_start by blast
  next
    case work
    then show ?thesis using wg_measure_work [of "wg_code s" t] by (simp add: wg_rank_defs)
  next
    case unload
    then show ?thesis by (simp add: wg_rank_defs wg_stops_def)
  qed
next
  case signal
  then show ?thesis using start_rank_woken [of t s W cur] signal_signalled by (simp add: wg_measure_def)
qed

end

text \<open>The module is a terminating system.\<close>

sublocale wg_module \<subseteq> wg: terminating_system "wg_boot k0 w0" "wg_step K W cur" "wg_inv K W cur k0" "wg_measure W cur"
proof unfold_locales
  show "wg_inv K W cur k0 (wg_boot k0 w0)" by (rule wg_inv_boot)
  show "wg_inv K W cur k0 t" if "wg_step K W cur s t" "wg_inv K W cur k0 s" for s t
    using that by (rule wg_inv_step)
  show "wg_measure W cur t < wg_measure W cur s" if "wg_step K W cur s t" "wg_inv K W cur k0 s" for s t
    using that by (intro wg_measure_step) (simp_all add: wg_inv_defs)
qed

context wg_module
begin

lemmas wg_module_inv = wg.reach_inv
lemmas wg_module_ends = wg.no_infinite_run

end

lemma wg_moduleI: "slab_api K \<Longrightarrow> wait_api W \<Longrightarrow> wg_module K W"
  by (simp add: wg_module_def)

lemmas wg_reach_inv = wg_module.wg_module_inv [OF wg_moduleI]

section \<open>Schedules on the reference kernel\<close>

text \<open>The process 7 loads the module; it is running and has no signals.\<close>

definition wg_waits :: wait_state where
  "wg_waits = \<lparr>spare = [], entries = [], running = [7], signals = []\<rparr>"

interpretation ref_wg: wg_module ref_ops ref_wait 7 "ref_boot 1" wg_waits
  by unfold_locales

abbreviation ref_wg_reach :: "nat \<Rightarrow> (ref_kernel, wait_state) wqg \<Rightarrow> bool" where
  "ref_wg_reach n \<equiv> wg_reach ref_ops ref_wait 7 (ref_boot n) wg_waits"

fun wg_schedule ::
  "('k, 'y) slab_ops_scheme \<Rightarrow> ('w, 'v) wait_ops_scheme \<Rightarrow> addr \<Rightarrow> bool list \<Rightarrow> ('k, 'w) wqg \<Rightarrow> ('k, 'w) wqg option" where
  "wg_schedule K W cur [] s = Some s"
| "wg_schedule K W cur (True # cs) s =
     (case wg_start_stmt K W cur (wg_start s) s of None \<Rightarrow> None | Some t \<Rightarrow> wg_schedule K W cur cs t)"
| "wg_schedule K W cur (False # cs) s =
     (case do_work_handler_stmt K W (wg_work s) (wg_code s) of None \<Rightarrow> None | Some t \<Rightarrow> wg_schedule K W cur cs t)"

lemma wg_schedule_reach: "wg_schedule K W cur cs s = Some t \<Longrightarrow> wg_reach K W cur k0 w0 s \<Longrightarrow> wg_reach K W cur k0 w0 t"
proof (induction K W cur cs s rule: wg_schedule.induct)
  case (2 K W cur cs s)
  then show ?case
    using wg_reach_own [OF _ wg_own_step.start [of K W cur s]] by (auto split: option.splits)
next
  case (3 K W cur cs s)
  then show ?case
    using wg_reach_own [OF _ wg_own_step.work [of K W s]] by (auto split: option.splits)
qed simp

text \<open>
  States of an execution on the reference kernel in which the structure is the object 100,
  allocated (\<open>True\<close>) or freed again.
\<close>

definition race_kern :: "bool \<Rightarrow> ref_kernel" where
  "race_kern alloc = (ref_boot 0)\<lparr>objs := (if alloc then [100] else [])\<rparr>"

definition race_waits :: "bool \<Rightarrow> bool \<Rightarrow> wait_state" where
  "race_waits q v = \<lparr>spare = [], entries = (if q then [(100, 7)] else []), running = (if v then [7] else []), signals = []\<rparr>"

definition race_state ::
  "bool \<Rightarrow> wg_start_pc \<Rightarrow> wg_work_pc \<Rightarrow> int \<Rightarrow> bool \<Rightarrow> bool \<Rightarrow> logline list \<Rightarrow> (ref_kernel, wait_state) wqg" where
  "race_state alloc p w c q v l = \<lparr>kern = race_kern alloc, klog = l, faults = [], waits = race_waits q v, my_data = 100,
     wd_data = (\<lambda>_. 0)(100 := 1400), wg_condition = c, wg_start = p, wg_work = w,
     interrupted = False, wg_loaded = True\<rparr>"

lemma race_kern_simps:
  "100 \<in> valid ref_ops (race_kern True)" "100 \<notin> valid ref_ops (race_kern False)"
  "100 \<in> allocated ref_ops (race_kern True)" "kfree_op ref_ops 100 (race_kern True) = race_kern False"
  by (simp_all add: race_kern_def ref_eval)

lemma race_deref [simp]: "deref ref_ops 100 (race_state True p w c q v l) = race_state True p w c q v l"
  by (rule deref_valid) (simp_all add: race_state_def race_kern_simps)

lemma race_fields [simp]:
  "my_data (race_state b p w c q v l) = 100" "wg_condition (race_state b p w c q v l) = c"
  "wg_start (race_state b p w c q v l) = p" "wg_work (race_state b p w c q v l) = w"
  "waits (race_state b p w c q v l) = race_waits q v"
  "faults (race_state b p w c q v l) = []" "wg_code (race_state b p w c q v l) = race_state b p w c q v l"
  by (simp_all add: race_state_def)

lemma race_waits_simps [simp]:
  "init_waitqueue_head_op ref_wait 100 wg_waits = race_waits False True"
  "prepare_to_wait_event_op ref_wait 100 7 (race_waits q v) = (0, race_waits True False)"
  "wake_up_interruptible_op ref_wait 100 (race_waits True False) = race_waits False True"
  "finish_wait_op ref_wait 100 7 (race_waits q v) = race_waits False True"
  "waits_on ref_wait (race_waits q v) 100 7 = q" "ready ref_wait (race_waits q v) 7 = v"
  by (simp_all add: ref_wait_simps race_waits_def wg_waits_def)

lemma race_begin: "\<exists>l. ref_wg_reach 1 (race_state True S_schedule W_idle 0 False True l)"
proof -
  let ?s0 = "wg_boot (ref_boot 1) wg_waits"
  define s1 where "s1 = ?s0\<lparr>kern := race_kern True, my_data := 100, wg_start := S_init\<rparr>"
  have "wg_start_stmt ref_ops ref_wait 7 S_alloc ?s0 = Some s1"
    by (simp add: wg_boot_def s1_def race_kern_def ref_eval)
  then have r1: "ref_wg_reach 1 s1"
    by (intro wg_reach_own [OF reachable.init] wg_own_step.start) (simp add: wg_boot_def)
  have "wg_start_stmt ref_ops ref_wait 7 S_init s1 = Some (race_state True S_schedule W_idle 0 False True [])"
    using race_kern_simps(1) by (simp add: s1_def wg_boot_def race_state_def race_waits_simps)
  then have "wg_step ref_ops ref_wait 7 s1 (race_state True S_schedule W_idle 0 False True [])"
    by (intro wg_step.own wg_own_step.start) (simp add: s1_def)
  with r1 have "ref_wg_reach 1 (race_state True S_schedule W_idle 0 False True [])"
    by (rule wg_reach_step)
  then show ?thesis ..
qed

lemma race_start:
  assumes "\<exists>l. ref_wg_reach k0 (race_state b p w c q v l)"
    and "\<And>l. \<exists>l'. wg_start_stmt ref_ops ref_wait 7 p (race_state b p w c q v l) = Some (race_state b' p' w' c' q' v' l')"
  shows "\<exists>l. ref_wg_reach k0 (race_state b' p' w' c' q' v' l)"
  using assms wg_reach_own [OF _ wg_own_step.start] by (metis race_fields(3))

lemma race_work:
  assumes "\<exists>l. ref_wg_reach k0 (race_state b p w c q v l)"
    and "\<And>l. \<exists>l'. do_work_handler_stmt ref_ops ref_wait w (race_state b p w c q v l) = Some (race_state b' p' w' c' q' v' l')"
  shows "\<exists>l. ref_wg_reach k0 (race_state b' p' w' c' q' v' l)"
  using assms wg_reach_own [OF _ wg_own_step.work] by (metis race_fields(4,7))

text \<open>\<open>start\<close> schedules the work and goes to sleep; the handler runs to its end.\<close>

lemma race_asleep: "\<exists>l. ref_wg_reach 1 (race_state True S_sleep W_queued 0 True False l)"
proof -
  note r = race_begin
  then have "\<exists>l. ref_wg_reach 1 (race_state True S_message W_queued 0 False True l)"
    by (rule race_start) (simp, simp add: race_state_def)
  then have "\<exists>l. ref_wg_reach 1 (race_state True S_test W_queued 0 False True l)"
    by (rule race_start) (simp add: race_state_def printk_def)
  then have "\<exists>l. ref_wg_reach 1 (race_state True S_prepare W_queued 0 False True l)"
    by (rule race_start) (simp, simp add: race_state_def)
  then have "\<exists>l. ref_wg_reach 1 (race_state True (S_check 0) W_queued 0 True False l)"
    by (rule race_start) (simp, simp add: race_state_def)
  then show ?thesis
    by (rule race_start) (simp, simp add: race_state_def)
qed

lemma race_freed: "\<exists>l. ref_wg_reach 1 (race_state False S_prepare W_end 5 False True l)"
proof -
  have "\<exists>l. ref_wg_reach 1 (race_state True S_sleep W_set 0 True False l)"
    using race_asleep by (rule race_work) (simp, simp add: race_state_def printk_def)
  then have "\<exists>l. ref_wg_reach 1 (race_state True S_sleep W_wake 5 True False l)"
    by (rule race_work) (simp, simp add: race_state_def)
  then have "\<exists>l. ref_wg_reach 1 (race_state True S_sleep W_free 5 False True l)"
    by (rule race_work) (simp, simp add: race_state_def)
  then have "\<exists>l. ref_wg_reach 1 (race_state False S_sleep W_end 5 False True l)"
    by (rule race_work) (simp add: kfree_def race_state_def race_kern_simps upd_kern_def)
  then show ?thesis
    by (rule race_start) (simp, simp add: race_state_def)
qed

text \<open>
  Woken by the handler, \<open>start\<close> finishes its wait and returns while the handler has yet to free the
  structure; the module is unloaded, and the handler goes on.
\<close>

lemma race_returned: "\<exists>l. ref_wg_reach 1 (race_state True (S_return 0) W_free 5 False True l)"
proof -
  have "\<exists>l. ref_wg_reach 1 (race_state True S_sleep W_set 0 True False l)"
    using race_asleep by (rule race_work) (simp, simp add: race_state_def printk_def)
  then have "\<exists>l. ref_wg_reach 1 (race_state True S_sleep W_wake 5 True False l)"
    by (rule race_work) (simp, simp add: race_state_def)
  then have "\<exists>l. ref_wg_reach 1 (race_state True S_sleep W_free 5 False True l)"
    by (rule race_work) (simp, simp add: race_state_def)
  then have "\<exists>l. ref_wg_reach 1 (race_state True S_prepare W_free 5 False True l)"
    by (rule race_start) (simp, simp add: race_state_def)
  then have "\<exists>l. ref_wg_reach 1 (race_state True (S_check 0) W_free 5 True False l)"
    by (rule race_start) (simp, simp add: race_state_def)
  then have "\<exists>l. ref_wg_reach 1 (race_state True S_report W_free 5 False True l)"
    by (rule race_start) (simp add: wg_finish_wait_def, simp add: race_state_def)
  then show ?thesis
    by (rule race_start) (simp add: race_state_def printk_def)
qed

lemma wg_unload_race:
  "\<exists>s t. ref_wg_reach 1 s \<and> \<not> wg_loaded s \<and> \<not> interrupted s \<and> wg_step ref_ops ref_wait 7 s t \<and>
     faults t = faults s @ [UnloadedCode]"
proof -
  obtain l where r: "ref_wg_reach 1 (race_state True (S_return 0) W_free 5 False True l)"
    using race_returned by blast
  define s where "s = (race_state True (S_return 0) W_free 5 False True l)\<lparr>wg_loaded := False\<rparr>"
  have "ref_wg_reach 1 s"
    using wg_reach_own [OF r wg_own_step.unload] by (simp add: s_def wg_stops_def race_state_def)
  moreover have "\<not> wg_loaded s" "\<not> interrupted s" by (simp_all add: s_def race_state_def)
  moreover obtain t where t: "do_work_handler_stmt ref_ops ref_wait (wg_work s) (wg_code s) = Some t"
    by (simp add: s_def)
  moreover have "faults t = faults s @ [UnloadedCode]"
    using t by (auto simp: s_def wg_code_def race_state_def kfree_def race_kern_simps env_defs)
  ultimately show ?thesis using wg_step.own [OF wg_own_step.work] by blast
qed

text \<open>The same run to its end: the handler frees the structure, and then the module is unloaded.\<close>

lemma wg_complete_run:
  obtains s where "ref_wg_reach 1 s" "wg_start s = S_return 0" "wg_work s = W_end" "\<not> wg_loaded s" "faults s = []"
proof -
  have "\<exists>l. ref_wg_reach 1 (race_state False (S_return 0) W_end 5 False True l)"
    using race_returned by (rule race_work) (simp add: kfree_def race_state_def race_kern_simps upd_kern_def)
  then obtain l where r: "ref_wg_reach 1 (race_state False (S_return 0) W_end 5 False True l)" by blast
  define s where "s = (race_state False (S_return 0) W_end 5 False True l)\<lparr>wg_loaded := False\<rparr>"
  have "ref_wg_reach 1 s"
    using wg_reach_own [OF r wg_own_step.unload] by (simp add: s_def wg_stops_def race_state_def)
  then show thesis by (rule that) (simp_all add: s_def)
qed

section \<open>Properties\<close>

text \<open>
  C11. In every interleaving: the structure is allocated from the start of the module to the end of
  the handler and freed exactly once; the condition is 5 from the handler's assignment on and
  the handler reads the value \<open>start\<close> stored; when \<open>start\<close> gets past its wait without a
  signal the condition holds. The module is unloaded only after \<open>start\<close> has returned 0. There can
  be two faults: \<open>start\<close> touches the structure after the handler has freed it, and the handler runs
  after the module has been unloaded.
\<close>

theorem wg_reachable:
  assumes "slab_api K" and "wait_api W" and "wg_reach K W cur k0 w0 s"
  shows "allocated K (kern s) = allocated K k0 \<union> (if live s then {my_data s} else {}) \<and>
    wg_condition s = (if wg_work s \<in> {W_wake, W_free, W_end} then 5 else 0) \<and>
    (wg_work s = W_queued \<longrightarrow> wd_data s (my_data s) = 1400) \<and>
    (wg_start s \<in> {S_report, S_return 0} \<and> \<not> interrupted s \<longrightarrow> wg_condition s = 5) \<and>
    (wg_loaded s \<or> wg_start s = S_return 0) \<and>
    (\<forall>f\<in>set (faults s). f = UseAfterFree (my_data s) \<and> wg_work s = W_end \<or> f = UnloadedCode \<and> \<not> wg_loaded s)"
proof -
  have inv: "wg_inv K W cur k0 s" by (rule wg_reach_inv [OF assms])
  then have "wg_work s = W_queued \<longrightarrow> wd_data s (my_data s) = 1400"
    by (cases "wg_start s") (simp_all add: wg_inv_defs)
  then show ?thesis using inv unfolding wg_inv_def wg_faults_ok_def by (elim conjE, intro conjI)
qed

theorem wg_reachable_witness:
  "\<exists>s. ref_wg_reach 1 s \<and> live s \<and> ref_allocated (kern s) = {my_data s} \<and> wg_work s = W_free \<and> wg_condition s = 5"
proof -
  obtain l where r: "ref_wg_reach 1 (race_state True (S_return 0) W_free 5 False True l)" (is "ref_wg_reach 1 ?s")
    using race_returned by blast
  have live: "live ?s" by (simp add: live_def)
  have "allocated ref_ops (kern ?s) = allocated ref_ops (ref_boot 1) \<union> (if live ?s then {my_data ?s} else {})"
    by (rule wg_reachable [OF ref_slab.slab_api_axioms ref_waits.wait_api_axioms r, THEN conjunct1])
  then have "ref_allocated (kern ?s) = {my_data ?s}" using live by (simp add: ref_ops_simps ref_boot_def ref_allocated_def)
  then show ?thesis using r live by (intro exI [of _ ?s] conjI) simp_all
qed

text \<open>
  C22. The module always comes to an end. No execution is infinite, whenever a signal arrives. And a
  reachable state in which the module itself can do nothing more, whether or not a signal might still
  come, is one in which \<open>start\<close> has returned 0, the handler has finished and the module is unloaded, with
  all memory given back, or one in which the allocation failed and \<open>start\<close> has returned -1: \<open>start\<close> does
  not need a signal to get out of its wait, since the handler's wake-up is never lost.
\<close>

theorem wg_terminates:
  assumes "slab_api K" and "wait_api W"
  shows "(\<nexists>run. run 0 = wg_boot k0 w0 \<and> (\<forall>i. wg_step K W cur (run i) (run (Suc i)))) \<and>
    (\<forall>s. wg_reach K W cur k0 w0 s \<longrightarrow> (\<nexists>t. wg_own_step K W cur s t) \<longrightarrow>
       (wg_start s = S_return 0 \<and> wg_work s = W_end \<and> \<not> wg_loaded s \<or> wg_start s = S_return (-1) \<and> wg_work s = W_idle) \<and>
       allocated K (kern s) = allocated K k0)"
proof (intro conjI allI impI)
  show "\<nexists>run. run 0 = wg_boot k0 w0 \<and> (\<forall>i. wg_step K W cur (run i) (run (Suc i)))"
    by (rule wg_module.wg_module_ends [OF wg_moduleI [OF assms]])
next
  fix s
  assume r: "wg_reach K W cur k0 w0 s" and stuck: "\<nexists>t. wg_own_step K W cur s t"
  have inv: "wg_inv K W cur k0 s" by (rule wg_reach_inv [OF assms r])
  show ended: "wg_start s = S_return 0 \<and> wg_work s = W_end \<and> \<not> wg_loaded s \<or> wg_start s = S_return (-1) \<and> wg_work s = W_idle"
    by (rule wg_module.wg_stuck [OF wg_moduleI [OF assms] inv stuck])
  then have "\<not> live s" by (auto simp: live_def)
  then show "allocated K (kern s) = allocated K k0" using inv by (simp add: wg_inv_def)
qed

theorem wg_terminates_witness:
  "\<exists>s. ref_wg_reach 1 s \<and> (\<nexists>t. wg_own_step ref_ops ref_wait 7 s t) \<and> wg_start s = S_return 0 \<and> wg_work s = W_end \<and>
     ref_allocated (kern s) = {} \<and> faults s = []"
proof -
  obtain s where s: "ref_wg_reach 1 s" "wg_start s = S_return 0" "wg_work s = W_end" "\<not> wg_loaded s" "faults s = []"
    by (rule wg_complete_run)
  have stuck: "\<nexists>t. wg_own_step ref_ops ref_wait 7 s t" using s(2-4) by (auto elim!: wg_own_stepE)
  then have "allocated ref_ops (kern s) = allocated ref_ops (ref_boot 1)"
    using wg_terminates [OF ref_slab.slab_api_axioms ref_waits.wait_api_axioms, of "ref_boot 1" wg_waits 7] s(1) by blast
  then show ?thesis using s stuck by (auto simp: ref_ops_simps ref_boot_def ref_allocated_def)
qed

text \<open>
  C40. There is an execution with a use after free: the handler wakes the sleeping \<open>start\<close> and frees
  the structure before \<open>start\<close> runs again, and the wait then touches the queue inside the
  freed structure to test the condition once more.
\<close>

theorem wg_use_after_free:
  "\<exists>s. ref_wg_reach 1 s \<and> faults s = [UseAfterFree (my_data s)]"
proof -
  obtain l where r: "ref_wg_reach 1 (race_state False S_prepare W_end 5 False True l)"
    using race_freed by blast
  let ?s = "race_state False S_prepare W_end 5 False True l"
  obtain t where t: "wg_start_stmt ref_ops ref_wait 7 (wg_start ?s) ?s = Some t"
    by simp
  have "ref_wg_reach 1 t" by (rule wg_reach_own [OF r wg_own_step.start [OF t]])
  moreover have "faults t = [UseAfterFree (my_data t)]"
    using t race_kern_simps(2) by (auto simp: race_state_def deref_def fault_def)
  ultimately show ?thesis by blast
qed

end
