(* ===== verification/Spec2Isabelle.thy ===== *)
theory Spec2Isabelle
  imports Basic Container_Of Devices Interrupt01 Ioctl Kernfs Link_List Memory Mmap Mutex1 Probes Radix_Tree Rcu Red_Black_Tree
    Spinlock Task_Struct Thread01 Wait_Queue Work_Queue_Dedicated Work_Queue_Global
begin

text \<open>
  A verification of the kernel modules of the repository \<open>lkb\<close>.

  \<^bold>\<open>The program.\<close> The repository is a collection of Linux kernel modules, each in its own directory
  and each exercising one service of the kernel: lists, red-black and radix trees, RCU, mutexes and
  spinlocks, memory allocation, interrupts and work queues, wait queues, kernel threads, probes,
  and two character devices (\<open>ioctl\<close>, \<open>mmap\<close>) with the user-space programs that use them. The
  modules do not call each other; what they share is the kernel, and the two character devices
  meet in it, since they register the same device number. A module is a \<open>start\<close> or \<open>init\<close>
  function, a \<open>stops\<close> or \<open>exit\<close> function, and the handlers and threads that run in between.

  \<^bold>\<open>The kernel.\<close> The kernel is not part of the repository. Its functions are the fields of
  operation records over an abstract kernel state \<open>'k\<close>, which the modules' definitions take as
  arguments; what its documentation promises about them is stated as the assumptions of locales,
  and what all clients may conclude is proved inside the locales. A theorem about a module has the
  locale predicate as a hypothesis. Every locale is interpreted on an executable reference kernel,
  and the witnesses of the theorems run the modules on it.

  What is not a function that a module calls, but when the kernel lets something run, is written out
  as part of the models, following the kernel's documentation: the step relations of the concurrent
  modules (a task runs only when it is ready, queued work runs some time later, \<open>flush_workqueue\<close> and
  \<open>destroy_workqueue\<close> of \<open>Work_Queue_Dedicated\<close> pass when no work is pending, an interrupt can come
  while its handler is registered, a signal at any time), the read-side sections, the queue of
  \<open>call_rcu\<close> and the end of grace periods in \<open>Rcu\<close>, the module loader in \<open>Devices\<close>, and the accesses
  of user programs through the page tables in \<open>Mmap\<close>. These definitions model the environment and have
  no counterpart in the source.

  \<^item> \<open>Lkb_Prelude\<close>: addresses, the kernel log, faults, the environment record \<open>env\<close> (kernel state,
    log, faults) that every module state extends, counting loops with early return and their rule.
  \<^item> \<open>Step_System\<close>: reachability, invariants, termination, quiescence after unloading and refinement
    of step relations, as the locales \<open>invariant_system\<close>, \<open>terminating_system\<close>, \<open>quiescent_system\<close> and
    \<open>forward_simulation\<close>.
  \<^item> \<open>Kernel_Api\<close>: the slab allocator, \<open>linux/list.h\<close> and its RCU variant (\<open>slab_api\<close>, \<open>list_api\<close>,
    \<open>rcu_list_api\<close>), with the iteration macro as a partial function and its total-correctness rules.
  \<^item> \<open>Lock_Api\<close>: spinlocks, alone and beside lists. \<open>Thread_Api\<close>: kernel threads, whose stop waits for
    the thread function. \<open>Wait_Api\<close>: wait queues, wake-ups and signals. \<open>Chrdev_Api\<close>: registration of character devices, copying between kernel and
    user memory, and the little-endian layout of machine words. \<open>Vfs\<close>: operations tables whose entries
    keep the C type of their function, the system calls that go through them, and the mapping of
    kernel memory with its page tables (\<open>translate\<close>).
  \<^item> \<open>Ref_Kernel\<close>: the reference kernel, with an allocator of a given budget, doubly linked rings of
    pointers, locks and threads; proofs that it satisfies the interfaces. \<open>Ref_Devices\<close>: the same for
    the character drivers. The services of \<open>Wait_Api\<close> and those that one module alone needs (memory
    zones, radix trees, interrupt lines, probes, kernfs) have their own small reference kernel in
    their theory.

  \<^bold>\<open>Faults.\<close> Undefined behaviour does not stop a run of the model: a null dereference, a use after
  free, a bad free, a double lock or unlock, an index out of bounds, a call of code of a module that
  has been unloaded is recorded in \<open>faults\<close>, and safety is the statement that the list of faults stays
  as it was.

  \<^bold>\<open>The modules.\<close> One theory per directory, in which a definition has the name of the C function, with
  the module's prefix where names repeat.

  \<^item> \<open>Link_List\<close> (\<open>link_list/code.c\<close>): \<open>start\<close>, \<open>print_list\<close>; what is printed in which order, all failing
    allocations, and the dangling list head that is left.
  \<^item> \<open>Red_Black_Tree\<close> (\<open>red_black_tree/code.c\<close>): the search tree of node pointers, which the code
    links itself and never balances, with the kernel's traversal functions as parameters; insertion
    refines insertion into a functional search tree, search agrees with membership, the printing is
    sorted.
  \<^item> \<open>Radix_Tree\<close> (\<open>radix_tree/code.c\<close>): insertion, lookup and deletion, with what is leaked.
  \<^item> \<open>Rcu\<close> (\<open>rcu/code.c\<close>): add, update, delete and print under a lock, with the call-backs that free
    after a grace period as an explicit queue and the points of \<open>start\<close> at which grace periods end as
    an argument; the outcome for every choice of them, the use after free when one ends right after
    \<open>call_rcu\<close>, the call-back that is still pending when the module is unloaded.
  \<^item> \<open>Mutex1\<close>, \<open>Spinlock\<close> (\<open>mutex1/code.c\<close>, \<open>spinlock/code.c\<close>): every variant of locking, with
    interrupted waits, the interrupt flag and the bottom-half count.
  \<^item> \<open>Memory\<close> (\<open>memory1/code.c\<close>, \<open>memory2/code.c\<close>): page, slab, vmalloc and high-memory allocation, with
    every allocation failing or succeeding; the balance of allocation and release.
  \<^item> \<open>Ioctl\<close>, \<open>Mmap\<close> (\<open>ioctl\<close>, \<open>mmap\<close>): the drivers, and the user programs \<open>ioctl.c\<close> and \<open>mmap.c\<close> composed
    with them through the operations tables. Values are words of their C width, memory is bytes, so
    that the write of eight bytes into a four-byte variable has its effect. A byte that \<open>mmap.c\<close> stores
    reaches the physical memory through the page tables the driver has set up, and an access without
    an entry there is a bus error.
  \<^item> \<open>Devices\<close>: both drivers and both programs on one computer, as a step relation over loading,
    unloading and system calls. The drivers exclude each other in all reachable states; the table
    entries are well typed exactly for the newer kernels; the ioctl driver used in order is free of
    faults; the buffer of the mmap driver can be freed while a process has it mapped; unloading under
    an open file, a failed load of the mmap driver and a program that meets the other driver have the
    consequences stated there. A step is a whole system call, an access of a process to its memory, or
    a whole init or exit function; runs of the two programs are sequences of steps. The mappings of a
    process that has ended are not removed from the page tables.
  \<^item> \<open>Container_Of\<close> (\<open>container_of/code.c\<close>): the macro applied to a variable that is not a member, over
    byte memory: what is read, and what the store through the pointer destroys.
  \<^item> \<open>Work_Queue_Dedicated\<close> (\<open>work_queue_dedicated/code.c\<close>), \<open>Work_Queue_Global\<close>
    (\<open>work_queue_global/code.c\<close>), \<open>Wait_Queue\<close> (\<open>wait_queue/code.c\<close>), \<open>Interrupt01\<close>
    (\<open>interrupt01/code.c\<close>): step relations in which interrupts, workers, waiting threads, loading and
    unloading interleave in any order; invariants of all reachable states, termination, absence of
    lost wake-ups, the refinement of an abstract collector of batches by the dedicated queue, and the
    executions with faults that the code allows. \<open>wait_event_interruptible\<close> is unfolded into its
    steps, from the first test to the removal from the queue at its end; in \<open>Work_Queue_Global\<close> it can
    be interrupted by a signal, but the termination theorem does not rely on one. Unloading is a step that is possible as soon as
    \<open>start\<close> has returned 0, whatever else is still running; the section on unloading at the end of this
    theory compares what the four modules leave behind.
  \<^item> \<open>Thread01\<close> (\<open>thread01/code.c\<close>): five threads on a list; loading in every case of failure, and
    unloading, which terminates because the thread function obeys its stop.
  \<^item> \<open>Probes\<close> (\<open>kprobe/code.c\<close>, \<open>kprobe1/code.c\<close>), \<open>Task_Struct\<close> (\<open>task_struct/code.c\<close>), \<open>Kernfs\<close>
    (\<open>kernfs/code.c\<close>), \<open>Basic\<close> (\<open>basic/code.c\<close>, \<open>basic_debug/code.c\<close>): the smaller modules; a session of
    each probe module with the executions it logs, the list of processes with and without
    interference, the hierarchy that outlives its module.

  \<^bold>\<open>Loops and bounds.\<close> Counting loops are \<open>c_for\<close> or \<open>fold\<close> over the range of the source and always
  end. Loops over kernel rings and waiting loops are \<open>partial_function\<close>s in the option monad, where
  \<open>None\<close> is a loop that does not return; theorems state that the result is \<open>Some\<close>. No fuel is used.
  Termination of the concurrent modules is a measure on states that every step decreases.

  \<^bold>\<open>Not modelled.\<close> The kernel itself, as explained; delays (\<open>msleep\<close>, \<open>mdelay\<close>), which change no
  state and give no ordering guarantee; the formatting of messages, whose format string and
  arguments are kept in the log instead (and the text of the error number in the line of \<open>perror\<close>);
  the interleaving of the threads' messages with those of \<open>km_init\<close> and \<open>km_exit\<close> in \<open>Thread01\<close>; memory ordering below the level of statements; module
  metadata, build files and notes. Every function of every C file of the repository is modelled.
\<close>

section \<open>Unloading\<close>

text \<open>
  C18. What is left of the concurrent modules when they have been unloaded. The modules with an
  interrupt handler, \<open>interrupt01\<close> and \<open>work_queue_dedicated\<close>, free the interrupt and flush their work
  first, and are quiescent in every execution on every kernel: no step of theirs is left that changes
  anything. The modules with a thread or with work on the shared queue, \<open>wait_queue\<close> and
  \<open>work_queue_global\<close>, wait for nothing, and are not: each has an execution in which it goes on after
  it has been unloaded, with code that is no longer there.
\<close>

theorem modules_after_unload:
  assumes "irq_api Q" and "\<forall>n. (n, dev) \<notin> irq_actions Q k0"
  shows "quiescent_after (irq_boot k0) (irq_step Q dev) (\<lambda>s. irq_pc s = C_gone) \<and>
    quiescent_after (wqd_load k) (wqd_step K L head sl work early) (\<lambda>c. pc c = Unloaded) \<and>
    \<not> quiescent_after (wq_boot wq_tasks) (wq_step ref_wait 300) (\<lambda>s. \<not> loaded s) \<and>
    \<not> quiescent_after (wg_boot (ref_boot 1) wg_waits) (wg_step ref_ops ref_wait 7) (\<lambda>s. \<not> wg_loaded s) \<and>
    (\<exists>s t. wq_reach ref_wait 300 wq_tasks s \<and> \<not> loaded s \<and> wq_step ref_wait 300 s t \<and> faults t = faults s @ [UnloadedCode]) \<and>
    (\<exists>s t. ref_wg_reach 1 s \<and> \<not> wg_loaded s \<and> wg_step ref_ops ref_wait 7 s t \<and> faults t = faults s @ [UnloadedCode])"
proof (intro conjI)
  show "quiescent_after (irq_boot k0) (irq_step Q dev) (\<lambda>s. irq_pc s = C_gone)"
    by (rule quiescent_system.quiescent [OF irq_api.irq_quiescent [OF assms]])
  show "quiescent_after (wqd_load k) (wqd_step K L head sl work early) (\<lambda>c. pc c = Unloaded)"
    by (rule wqd_phases.quiescent)
  show wq: "\<exists>s t. wq_reach ref_wait 300 wq_tasks s \<and> \<not> loaded s \<and> wq_step ref_wait 300 s t \<and> faults t = faults s @ [UnloadedCode]"
    using wq_unload_race by blast
  show wg: "\<exists>s t. ref_wg_reach 1 s \<and> \<not> wg_loaded s \<and> wg_step ref_ops ref_wait 7 s t \<and> faults t = faults s @ [UnloadedCode]"
    using wg_unload_race by blast
  show "\<not> quiescent_after (wq_boot wq_tasks) (wq_step ref_wait 300) (\<lambda>s. \<not> loaded s)"
    using wq by (auto dest: not_quiescent [where gone = "\<lambda>s. \<not> loaded s"])
  show "\<not> quiescent_after (wg_boot (ref_boot 1) wg_waits) (wg_step ref_ops ref_wait 7) (\<lambda>s. \<not> wg_loaded s)"
    using wg by (auto dest: not_quiescent [where gone = "\<lambda>s. \<not> wg_loaded s"])
qed

theorem modules_after_unload_witness:
  "quiescent_after (irq_boot [(19, 3)]) (irq_step ref_irq 7) (\<lambda>s. irq_pc s = C_gone) \<and>
   irq_reach ref_irq 7 [(19, 3)] (irq_run [(19, 3)]) \<and> irq_pc (irq_run [(19, 3)]) = C_gone"
proof -
  have "\<forall>n. (n, 7) \<notin> irq_actions ref_irq [(19, 3)]" by (simp add: ref_irq_def)
  with ref_irqs.irq_api_axioms have "quiescent_after (irq_boot [(19, 3)]) (irq_step ref_irq 7) (\<lambda>s. irq_pc s = C_gone)"
    by (rule modules_after_unload [THEN conjunct1])
  then show ?thesis using irq_run_reach [of "[(19, 3)]"] by simp
qed

end
